(* ===== verification/Planck_Prelude.thy ===== *)
theory Planck_Prelude
  imports Main "HOL-Library.Word" "HOL-Library.Monad_Syntax"
begin

text \<open>
  What the components share: the part of the C standard library that the sources use on
  strings and arrays, and the generic lemmas about it.

  A C string is the \<open>char list\<close> of its bytes without the terminating NUL; an array of bytes
  is a \<open>char list\<close> of the array's whole extent, NULs included. An access outside an array is
  undefined behaviour in C and is \<open>None\<close> here, so that a function that returns \<open>Some\<close> has
  stayed inside its arrays. \<open>malloc\<close> is taken to succeed. \<open>size_t\<close> values are \<open>nat\<close>s below
  \<open>2 ^ 64\<close>; where the sources can make one go below zero the wrap-around is written out
  (\<open>sz_sub\<close>).
\<close>

section \<open>Collections of the development\<close>

named_theorems carr_simps \<open>defining equations of the checked array operations\<close>

named_theorems str_simps \<open>results of the C string functions\<close>

section \<open>Sizes that wrap\<close>

definition sz_sub :: "nat \<Rightarrow> nat \<Rightarrow> nat" where
  "sz_sub a b = (if b \<le> a then a - b else 2 ^ 64 + a - b)"

lemma sz_sub_le [simp]: "b \<le> a \<Longrightarrow> sz_sub a b = a - b"
  by (simp add: sz_sub_def)

lemma sz_sub_zero_one: "sz_sub 0 1 = 2 ^ 64 - 1"
  by (simp add: sz_sub_def)

section \<open>Checked arrays\<close>

definition rd :: "'a list \<Rightarrow> nat \<Rightarrow> 'a option" where
  "rd b i = (if i < length b then Some (b ! i) else None)"

definition wr :: "'a list \<Rightarrow> nat \<Rightarrow> 'a \<Rightarrow> 'a list option" where
  "wr b i c = (if i < length b then Some (b[i := c]) else None)"

definition memmove_c :: "'a list \<Rightarrow> nat \<Rightarrow> nat \<Rightarrow> nat \<Rightarrow> 'a list option" where
  "memmove_c b d s n =
     (if d + n \<le> length b \<and> s + n \<le> length b
      then Some (take d b @ take n (drop s b) @ drop (d + n) b) else None)"

definition block_c :: "'a list \<Rightarrow> nat \<Rightarrow> nat \<Rightarrow> 'a list option" where
  "block_c b s n = (if s + n \<le> length b then Some (take n (drop s b)) else None)"

lemma rd_Some [carr_simps]: "i < length b \<Longrightarrow> rd b i = Some (b ! i)"
  by (simp add: rd_def)

lemma wr_Some [carr_simps]: "i < length b \<Longrightarrow> wr b i c = Some (b[i := c])"
  by (simp add: wr_def)

lemma memmove_Some [carr_simps]:
  "d + n \<le> length b \<Longrightarrow> s + n \<le> length b \<Longrightarrow>
   memmove_c b d s n = Some (take d b @ take n (drop s b) @ drop (d + n) b)"
  by (simp add: memmove_c_def)

lemma block_Some [carr_simps]: "s + n \<le> length b \<Longrightarrow> block_c b s n = Some (take n (drop s b))"
  by (simp add: block_c_def)

lemma rd_None_iff: "rd b i = None \<longleftrightarrow> length b \<le> i"
  by (auto simp: rd_def)

section \<open>C strings\<close>

abbreviation NUL :: char where
  "NUL \<equiv> CHR 0x00"

text \<open>\<open>strlen\<close> of an array: the index of its first NUL, if the array holds one.\<close>

fun strlen_c :: "char list \<Rightarrow> nat option" where
  "strlen_c [] = None"
| "strlen_c (c # cs) = (if c = NUL then Some 0 else map_option Suc (strlen_c cs))"

definition cstr_of :: "char list \<Rightarrow> string option" where
  "cstr_of b = map_option (\<lambda>n. take n b) (strlen_c b)"

lemma strlen_c_append_NUL: "NUL \<notin> set s \<Longrightarrow> strlen_c (s @ NUL # b) = Some (length s)"
  by (induction s) auto

lemma cstr_of_append_NUL [str_simps]: "NUL \<notin> set s \<Longrightarrow> cstr_of (s @ NUL # b) = Some s"
  by (simp add: cstr_of_def strlen_c_append_NUL)

lemma strlen_c_Some: "strlen_c b = Some n \<Longrightarrow>
   n < length b \<and> b ! n = NUL \<and> NUL \<notin> set (take n b)"
proof (induction b arbitrary: n)
  case (Cons c cs)
  then show ?case by (cases n) (auto split: if_splits)
qed simp

lemma strlen_c_exists: "NUL \<in> set b \<Longrightarrow> \<exists>n. strlen_c b = Some n"
  by (induction b) auto

lemma strlen_c_le:
  assumes "i < length b" "b ! i = NUL"
  shows "\<exists>n \<le> i. strlen_c b = Some n"
  using assms
proof (induction b arbitrary: i)
  case (Cons c cs)
  then show ?case by (cases i) fastforce+
qed simp

text \<open>What C sees of a string of bytes with its terminating NUL.\<close>

definition c_string :: "string \<Rightarrow> string" where
  "c_string s = takeWhile (\<lambda>c. c \<noteq> NUL) s"

lemma c_string_no_nul: "NUL \<notin> set s \<Longrightarrow> c_string s = s"
  by (auto simp: c_string_def takeWhile_eq_all_conv)

text \<open>
  Buffers on the heap, whose bytes may be uninitialised: growing one, and the C string in one,
  \<open>None\<close> if it is not terminated inside the initialised part.
\<close>

definition realloc_c :: "'a option list \<Rightarrow> nat \<Rightarrow> 'a option list" where
  "realloc_c b n = take n b @ replicate (n - length b) None"

fun buf_string :: "char option list \<Rightarrow> string option" where
  "buf_string [] = None"
| "buf_string (None # cs) = None"
| "buf_string (Some c # cs) = (if c = NUL then Some [] else map_option ((#) c) (buf_string cs))"

lemma buf_string_terminated: "buf_string (map Some s @ Some NUL # ys) = Some (c_string s)"
  by (induction s) (auto simp: c_string_def)

lemma buf_string_open: "NUL \<notin> set s \<Longrightarrow> buf_string (map Some s @ None # ys) = None"
  by (induction s) auto

text \<open>The value of a \<open>char\<close>, which is signed on the platforms the sources are built for.\<close>

definition schar :: "char \<Rightarrow> int" where
  "schar c = (if (of_char c :: int) < 128 then of_char c else of_char c - 256)"

text \<open>\<open>strcmp\<close> and \<open>strncmp\<close>: only the sign of the result is specified by C.\<close>

fun strcmp :: "string \<Rightarrow> string \<Rightarrow> int" where
  "strcmp [] [] = 0"
| "strcmp [] (y # ys) = -1"
| "strcmp (x # xs) [] = 1"
| "strcmp (x # xs) (y # ys) =
     (if x = y then strcmp xs ys
      else if (of_char x :: nat) < of_char y then -1 else 1)"

definition strncmp :: "string \<Rightarrow> string \<Rightarrow> nat \<Rightarrow> int" where
  "strncmp a b n = strcmp (take n a) (take n b)"

lemma strcmp_eq_0 [simp]: "strcmp a b = 0 \<longleftrightarrow> a = b"
  by (induction a b rule: strcmp.induct) auto

lemma strncmp_eq_0 [simp]: "strncmp a b n = 0 \<longleftrightarrow> take n a = take n b"
  by (simp add: strncmp_def)

definition isspace :: "char \<Rightarrow> bool" where
  "isspace c = (of_char c \<in> {9, 10, 11, 12, 13, 32 :: nat})"

text \<open>
  One call of \<open>strtok_r\<close> with a single delimiter: leading delimiters are skipped, the token
  runs to the next delimiter, which is overwritten and skipped; \<open>None\<close> is the NULL result.
\<close>

definition strtok_next :: "char \<Rightarrow> string \<Rightarrow> (string \<times> string) option" where
  "strtok_next d s =
     (let s' = dropWhile (\<lambda>c. c = d) s in
      if s' = [] then None
      else Some (takeWhile (\<lambda>c. c \<noteq> d) s', drop 1 (dropWhile (\<lambda>c. c \<noteq> d) s')))"

lemma strtok_next_SomeE:
  assumes "strtok_next d s = Some (t, s')"
  obtains x xs where "dropWhile (\<lambda>c. c = d) s = x # xs" "x \<noteq> d"
    "t = x # takeWhile (\<lambda>c. c \<noteq> d) xs" "s' = drop 1 (dropWhile (\<lambda>c. c \<noteq> d) xs)"
proof (cases "dropWhile (\<lambda>c. c = d) s")
  case Nil
  with assms show ?thesis by (simp add: strtok_next_def)
next
  case (Cons x xs)
  then have "x \<noteq> d" by (simp add: dropWhile_eq_Cons_conv)
  with Cons assms show ?thesis by (intro that [of x xs]) (auto simp: strtok_next_def)
qed

lemma strtok_next_shorter: "strtok_next d s = Some (t, s') \<Longrightarrow> length s' < length s"
proof (elim strtok_next_SomeE)
  fix x xs
  assume u: "dropWhile (\<lambda>c. c = d) s = x # xs"
    and s': "s' = drop 1 (dropWhile (\<lambda>c. c \<noteq> d) xs)"
  have "length (x # xs) \<le> length s" unfolding u [symmetric] by (rule length_dropWhile_le)
  moreover have "length (dropWhile (\<lambda>c. c \<noteq> d) xs) \<le> length xs" by (rule length_dropWhile_le)
  ultimately show ?thesis using s' by simp
qed

function strtok_all :: "char \<Rightarrow> string \<Rightarrow> string list" where
  "strtok_all d s =
     (case strtok_next d s of None \<Rightarrow> [] | Some (t, s') \<Rightarrow> t # strtok_all d s')"
  by pat_completeness auto
termination
  by (relation "measure (\<lambda>(d, s). length s)") (auto dest: strtok_next_shorter)

declare strtok_all.simps [simp del]

lemma strtok_all_tokens: "t \<in> set (strtok_all d s) \<Longrightarrow> t \<noteq> [] \<and> d \<notin> set t"
proof (induction d s rule: strtok_all.induct)
  case (1 d s)
  show ?case
  proof (cases "strtok_next d s")
    case None
    with 1(2) show ?thesis by (subst (asm) strtok_all.simps) simp
  next
    case (Some p)
    obtain u s' where p: "p = (u, s')" by (cases p)
    from Some p have "u \<noteq> [] \<and> d \<notin> set u"
      by (auto elim!: strtok_next_SomeE dest: set_takeWhileD)
    moreover from 1(2) Some p have "t = u \<or> t \<in> set (strtok_all d s')"
      by (subst (asm) strtok_all.simps) auto
    ultimately show ?thesis using 1(1) [OF Some p [symmetric]] by auto
  qed
qed

text \<open>The tokens of a text: up to a delimiter, and the last.\<close>

lemma strtok_all_step:
  assumes "d \<notin> set l"
  shows "strtok_all d (l @ d # rest) = (if l = [] then strtok_all d rest else l # strtok_all d rest)"
proof (cases "l = []")
  case True
  have "strtok_next d (d # rest) = strtok_next d rest" by (simp add: strtok_next_def)
  then show ?thesis using True by (simp add: strtok_all.simps [of d "d # rest"] strtok_all.simps [of d rest])
next
  case False
  have "dropWhile (\<lambda>c. c = d) (l @ d # rest) = l @ d # rest"
    using assms False by (cases l) auto
  moreover have "takeWhile (\<lambda>c. c \<noteq> d) (l @ d # rest) = l" "dropWhile (\<lambda>c. c \<noteq> d) (l @ d # rest) = d # rest"
    using assms by (induction l) auto
  ultimately have "strtok_next d (l @ d # rest) = Some (l, rest)" by (simp add: strtok_next_def)
  then show ?thesis using False by (simp add: strtok_all.simps [of d "l @ d # rest"])
qed

lemma strtok_all_last:
  assumes "d \<notin> set l"
  shows "strtok_all d l = (if l = [] then [] else [l])"
proof (cases l)
  case Nil
  then show ?thesis by (simp add: strtok_all.simps strtok_next_def)
next
  case (Cons x xs)
  then have "dropWhile (\<lambda>c. c = d) l = l" using assms by auto
  moreover have "takeWhile (\<lambda>c. c \<noteq> d) l = l" "dropWhile (\<lambda>c. c \<noteq> d) l = []"
    using assms by (auto simp: takeWhile_eq_all_conv)
  ultimately have "strtok_next d l = Some (l, [])" using Cons by (simp add: strtok_next_def)
  moreover have "strtok_next d [] = None" by (simp add: strtok_next_def)
  ultimately have "strtok_all d l = [l]" by (subst strtok_all.simps) (simp add: strtok_all.simps [of d "[]"])
  then show ?thesis using Cons by simp
qed

section \<open>Decimal numbers\<close>

fun show_nat :: "nat \<Rightarrow> string" where
  "show_nat n =
     (if n < 10 then [char_of (48 + n)] else show_nat (n div 10) @ [char_of (48 + n mod 10)])"

declare show_nat.simps [simp del]

definition show_int :: "int \<Rightarrow> string" where
  "show_int i = (if i < 0 then CHR ''-'' # show_nat (nat (- i)) else show_nat (nat i))"

fun read_digits :: "nat \<Rightarrow> string \<Rightarrow> nat \<times> string" where
  "read_digits n [] = (n, [])"
| "read_digits n (c # cs) =
     (if 48 \<le> (of_char c :: nat) \<and> (of_char c :: nat) \<le> 57
      then read_digits (10 * n + (of_char c - 48)) cs else (n, c # cs))"

lemma read_digits_snoc:
  assumes "\<And>m. read_digits m xs = (10 ^ length xs * m + k, [])"
    and "d < 10"
  shows "read_digits m (xs @ [char_of (48 + d)]) = (10 * (10 ^ length xs * m + k) + d, [])"
proof -
  have step: "read_digits m (xs @ ys) = read_digits (fst (read_digits m xs)) ys"
    if "snd (read_digits m xs) = []" for m ys
    using that by (induction m xs rule: read_digits.induct) (auto split: if_splits)
  have d: "of_char (char_of (48 + d) :: char) = 48 + d"
    using assms(2) by (simp add: of_char_of)
  have s: "snd (read_digits m xs) = []" using assms(1) [of m] by simp
  show ?thesis
    unfolding step [OF s] assms(1) [of m] using assms(2) by (simp add: d)
qed

lemma read_show_nat: "read_digits m (show_nat n) = (10 ^ length (show_nat n) * m + n, [])"
proof (induction n arbitrary: m rule: show_nat.induct)
  case (1 n)
  show ?case
  proof (cases "n < 10")
    case True
    then have "of_char (char_of (48 + n) :: char) = 48 + n"
      by (simp add: of_char_of)
    with True show ?thesis by (simp add: show_nat.simps [of n])
  next
    case False
    have "read_digits m (show_nat (n div 10) @ [char_of (48 + n mod 10)]) =
          (10 * (10 ^ length (show_nat (n div 10)) * m + n div 10) + n mod 10, [])"
      by (rule read_digits_snoc [OF "1.IH" [OF False]]) simp
    with False show ?thesis
      by (simp add: show_nat.simps [of n] algebra_simps)
  qed
qed

lemma length_show_nat: "n < 10 ^ k \<Longrightarrow> 0 < k \<Longrightarrow> length (show_nat n) \<le> k"
proof (induction k arbitrary: n)
  case (Suc k)
  show ?case
  proof (cases "n < 10")
    case True
    then show ?thesis by (simp add: show_nat.simps [of n])
  next
    case False
    with Suc.prems have "0 < k" by (cases k) auto
    moreover have "n div 10 < 10 ^ k" using Suc.prems by simp
    ultimately have "length (show_nat (n div 10)) \<le> k" by (rule Suc.IH [rotated])
    with False show ?thesis by (simp add: show_nat.simps [of n])
  qed
qed simp

lemma show_nat_nonempty [simp]: "show_nat n \<noteq> []"
  by (simp add: show_nat.simps [of n])

lemma show_nat_digits: "c \<in> set (show_nat n) \<Longrightarrow> 48 \<le> (of_char c :: nat) \<and> (of_char c :: nat) \<le> 57"
proof (induction n rule: show_nat.induct)
  case (1 n)
  show ?case
  proof (cases "n < 10")
    case True
    with 1(2) show ?thesis by (auto simp: show_nat.simps [of n] of_char_of)
  next
    case False
    then have "c \<in> set (show_nat (n div 10)) \<or> c = char_of (48 + n mod 10)"
      using 1(2) by (subst (asm) show_nat.simps) auto
    moreover have "48 + n mod 10 < 58" by simp
    ultimately show ?thesis using 1(1) [OF False] by (auto simp: of_char_of)
  qed
qed

section \<open>Error numbers\<close>

abbreviation ENOENT :: int where "ENOENT \<equiv> 2"
abbreviation EINTR :: int where "EINTR \<equiv> 4"
abbreviation EACCES :: int where "EACCES \<equiv> 13"
abbreviation EEXIST :: int where "EEXIST \<equiv> 17"
abbreviation ENOTDIR :: int where "ENOTDIR \<equiv> 20"
abbreviation EISDIR :: int where "EISDIR \<equiv> 21"
abbreviation EINVAL :: int where "EINVAL \<equiv> 22"
abbreviation ENAMETOOLONG :: int where "ENAMETOOLONG \<equiv> 36"

text \<open>\<open>PATH_MAX\<close>, as on Linux.\<close>

abbreviation PATH_MAX :: nat where "PATH_MAX \<equiv> 4096"

end
