(* ===== verification/Growable.thy ===== *)
theory Growable
  imports Planck_Prelude
begin

text \<open>
  The interface of the growing buffers of the sources: the reader's \<open>StringBuffer\<close> (edn.c),
  the block buffer for a child's output (shell.c) and the array of directory entries
  (functions.c). A provider gives the content a buffer stands for, the invariant that keeps
  every write inside the allocation, and the operation that adds to it. \<open>chunk_buffer\<close> adds a
  whole block, \<open>growable\<close> one element; the first gives the second.
\<close>

locale growable =
  fixes content :: "'b \<Rightarrow> 'a list"
    and buf_ok :: "'b \<Rightarrow> bool"
    and push :: "'b \<Rightarrow> 'a \<Rightarrow> 'b"
  assumes content_push: "buf_ok b \<Longrightarrow> content (push b x) = content b @ [x]"
    and ok_push: "buf_ok b \<Longrightarrow> buf_ok (push b x)"
begin

lemma ok_foldl: "buf_ok b \<Longrightarrow> buf_ok (foldl push b xs)"
  by (induction xs arbitrary: b) (simp_all add: ok_push)

lemma content_foldl: "buf_ok b \<Longrightarrow> content (foldl push b xs) = content b @ xs"
  by (induction xs arbitrary: b) (simp_all add: ok_push content_push)

end

locale chunk_buffer =
  fixes chunk_content :: "'b \<Rightarrow> 'a list"
    and chunk_ok :: "'b \<Rightarrow> bool"
    and fits :: "'b \<Rightarrow> 'a list \<Rightarrow> bool"
    and push_chunk :: "'b \<Rightarrow> 'a list \<Rightarrow> 'b"
  assumes content_chunk:
      "chunk_ok b \<Longrightarrow> fits b xs \<Longrightarrow> chunk_content (push_chunk b xs) = chunk_content b @ xs"
    and ok_chunk: "chunk_ok b \<Longrightarrow> fits b xs \<Longrightarrow> chunk_ok (push_chunk b xs)"
    and fits_one: "chunk_ok b \<Longrightarrow> fits b [x]"
begin

fun all_fit :: "'b \<Rightarrow> 'a list list \<Rightarrow> bool" where
  "all_fit b [] = True"
| "all_fit b (xs # xss) = (fits b xs \<and> all_fit (push_chunk b xs) xss)"

lemma ok_chunks: "chunk_ok b \<Longrightarrow> all_fit b xss \<Longrightarrow> chunk_ok (foldl push_chunk b xss)"
  by (induction xss arbitrary: b) (simp_all add: ok_chunk)

lemma content_chunks:
  "chunk_ok b \<Longrightarrow> all_fit b xss \<Longrightarrow>
   chunk_content (foldl push_chunk b xss) = chunk_content b @ concat xss"
  by (induction xss arbitrary: b) (simp_all add: ok_chunk content_chunk)

end

sublocale chunk_buffer \<subseteq> single: growable chunk_content chunk_ok "\<lambda>b x. push_chunk b [x]"
  by unfold_locales (simp_all add: content_chunk ok_chunk fits_one)

end
