(* ===== verification/Edn.thy ===== *)
theory Edn
  imports Growable
begin

text \<open>
  \<open>edn.c\<close> and \<open>edn.h\<close>: the EDN reader that \<open>keymap.c\<close> uses for \<open>~/.planck_keymap\<close>.

  \<open>reader\<close> is \<open>clj_Reader\<close>: the position, the nesting depth, the discard counter and the
  one-character pushback. The input that the \<open>getwchar\<close> callback reads is \<open>rsrc\<close>, the nodes
  handed to the \<open>emit\<close> callback are appended to \<open>remitted\<close>, and the messages on stderr to
  \<open>rlog\<close>. An outcome is a return, the \<open>longjmp\<close> of \<open>reader_error\<close>, a failed \<open>assert\<close>, or
  running out of the fuel of the mutual recursion (which \<open>clj_read\<close> never does).
\<close>

section \<open>Results and node types\<close>

type_synonym wint = nat

type_synonym wstr = "wint list"

abbreviation WEOF :: wint where
  "WEOF \<equiv> 4294967295"

datatype clj_result =
    CLJ_EOF | CLJ_MORE
  | CLJ_UNEXPECTED_EOF | CLJ_UNMATCHED_DELIMITER | CLJ_NOT_IMPLEMENTED | CLJ_UNREADABLE

fun result_code :: "clj_result \<Rightarrow> int" where
  "result_code CLJ_EOF = 1"
| "result_code CLJ_MORE = 2"
| "result_code CLJ_UNEXPECTED_EOF = -1"
| "result_code CLJ_UNMATCHED_DELIMITER = -2"
| "result_code CLJ_NOT_IMPLEMENTED = -3"
| "result_code CLJ_UNREADABLE = -4"

definition clj_is_error :: "clj_result \<Rightarrow> bool" where
  "clj_is_error result = (result_code result \<le> 0)"

text \<open>The enumeration is ordered by its values, as the comparison in \<open>clj_is_error\<close> uses it.\<close>

lemma result_code_inj: "result_code a = result_code b \<Longrightarrow> a = b"
  by (cases a; cases b) simp_all

instantiation clj_result :: linorder
begin

definition less_eq_clj_result :: "clj_result \<Rightarrow> clj_result \<Rightarrow> bool" where
  "less_eq_clj_result a b = (result_code a \<le> result_code b)"

definition less_clj_result :: "clj_result \<Rightarrow> clj_result \<Rightarrow> bool" where
  "less_clj_result a b = (result_code a < result_code b)"

instance
  by standard (auto simp: less_eq_clj_result_def less_clj_result_def dest: result_code_inj)

end

unbundle bit_operations_syntax

type_synonym clj_type = "32 word"

definition CLJ_ATOMIC :: clj_type where "CLJ_ATOMIC = 0x0100"
definition CLJ_COMPOSITE :: clj_type where "CLJ_COMPOSITE = 0x0200"
definition CLJ_END :: clj_type where "CLJ_END = 0x1000"
definition CLJ_NUMBER :: clj_type where "CLJ_NUMBER = 0x0101"
definition CLJ_CHARACTER :: clj_type where "CLJ_CHARACTER = 0x0102"
definition CLJ_STRING :: clj_type where "CLJ_STRING = 0x0103"
definition CLJ_KEYWORD :: clj_type where "CLJ_KEYWORD = 0x0104"
definition CLJ_SYMBOL :: clj_type where "CLJ_SYMBOL = 0x0105"
definition CLJ_REGEX :: clj_type where "CLJ_REGEX = 0x0106"
definition CLJ_MAP :: clj_type where "CLJ_MAP = 0x0201"
definition CLJ_LIST :: clj_type where "CLJ_LIST = 0x0202"
definition CLJ_SET :: clj_type where "CLJ_SET = 0x0203"
definition CLJ_VECTOR :: clj_type where "CLJ_VECTOR = 0x0204"

lemmas clj_type_defs = CLJ_ATOMIC_def CLJ_COMPOSITE_def CLJ_END_def CLJ_NUMBER_def
  CLJ_CHARACTER_def CLJ_STRING_def CLJ_KEYWORD_def CLJ_SYMBOL_def CLJ_REGEX_def CLJ_MAP_def
  CLJ_LIST_def CLJ_SET_def CLJ_VECTOR_def

definition clj_is_atomic :: "clj_type \<Rightarrow> bool" where
  "clj_is_atomic ty = (ty AND CLJ_ATOMIC \<noteq> 0)"

definition clj_is_composite :: "clj_type \<Rightarrow> bool" where
  "clj_is_composite ty = (ty AND CLJ_COMPOSITE \<noteq> 0)"

definition clj_is_end :: "clj_type \<Rightarrow> bool" where
  "clj_is_end ty = (ty AND CLJ_END \<noteq> 0)"

definition clj_is_begin :: "clj_type \<Rightarrow> bool" where
  "clj_is_begin ty = (clj_is_composite ty \<and> \<not> clj_is_end ty)"

record clj_node =
  ntype :: clj_type
  nvalue :: wstr

section \<open>String buffer\<close>

text \<open>
  \<open>chars\<close> is the whole allocation (\<open>capacity + 1\<close> characters); what \<open>malloc\<close> and \<open>realloc\<close>
  leave indeterminate is 0 here and never read.
\<close>

record strbuf =
  sb_chars :: wstr
  sb_length :: nat
  sb_capacity :: nat

definition strbuf_init :: "nat \<Rightarrow> strbuf" where
  "strbuf_init capacity =
     \<lparr>sb_chars = replicate (capacity + 1) 0, sb_length = 0, sb_capacity = capacity\<rparr>"

definition strbuf_resize :: "strbuf \<Rightarrow> nat \<Rightarrow> strbuf" where
  "strbuf_resize sb capacity =
     sb\<lparr>sb_chars := take (capacity + 1) (sb_chars sb) @
                    replicate (capacity + 1 - length (sb_chars sb)) 0,
        sb_capacity := capacity\<rparr>"

definition strbuf_append :: "strbuf \<Rightarrow> wint \<Rightarrow> strbuf" where
  "strbuf_append sb c =
     (let sb1 = (if sb_length sb = sb_capacity sb then strbuf_resize sb (sb_capacity sb * 2) else sb);
          n = sb_length sb1
      in sb1\<lparr>sb_chars := (sb_chars sb1)[n := c, n + 1 := 0], sb_length := n + 1\<rparr>)"

definition strbuf_appends :: "strbuf \<Rightarrow> wstr \<Rightarrow> strbuf" where
  "strbuf_appends sb s = foldl strbuf_append sb s"

text \<open>The wide C string at \<open>strbuf.chars\<close>: up to the first NUL.\<close>

definition wcs :: "wstr \<Rightarrow> wstr" where
  "wcs b = takeWhile (\<lambda>c. c \<noteq> 0) b"

definition strbuf_ok :: "strbuf \<Rightarrow> bool" where
  "strbuf_ok sb \<longleftrightarrow>
     0 < sb_capacity sb \<and> sb_length sb \<le> sb_capacity sb \<and>
     length (sb_chars sb) = sb_capacity sb + 1 \<and> sb_chars sb ! sb_length sb = 0"

definition strbuf_str :: "strbuf \<Rightarrow> wstr" where
  "strbuf_str sb = take (sb_length sb) (sb_chars sb)"

lemma strbuf_append_ok: "strbuf_ok sb \<Longrightarrow> strbuf_ok (strbuf_append sb c)"
  by (auto simp: strbuf_ok_def strbuf_append_def strbuf_resize_def Let_def nth_append)

lemma strbuf_append_str:
  "strbuf_ok sb \<Longrightarrow> strbuf_str (strbuf_append sb c) = strbuf_str sb @ [c]"
  by (auto simp: strbuf_ok_def strbuf_append_def strbuf_resize_def strbuf_str_def Let_def
      take_Suc_conv_app_nth nth_append)

interpretation sb: growable strbuf_str strbuf_ok strbuf_append
  by unfold_locales (simp_all add: strbuf_append_ok strbuf_append_str)

lemma strbuf_init_ok: "0 < n \<Longrightarrow> strbuf_ok (strbuf_init n)"
  by (simp add: strbuf_ok_def strbuf_init_def)

lemma strbuf_init_str [simp]: "strbuf_str (strbuf_init n) = []"
  by (simp add: strbuf_str_def strbuf_init_def)

lemma wcs_append_0: "0 \<notin> set s \<Longrightarrow> wcs (s @ 0 # t) = s"
  by (induction s) (auto simp: wcs_def)

lemma strbuf_wcs:
  assumes "strbuf_ok sb" "0 \<notin> set (strbuf_str sb)"
  shows "wcs (sb_chars sb) = strbuf_str sb"
proof -
  have "sb_chars sb = strbuf_str sb @ 0 # drop (sb_length sb + 1) (sb_chars sb)"
    using assms(1) unfolding strbuf_ok_def strbuf_str_def
    by (metis Cons_nth_drop_Suc Suc_eq_plus1 append_take_drop_id le_imp_less_Suc)
  then show ?thesis using wcs_append_0 [OF assms(2)] by metis
qed

section \<open>Position-tracking pushback reader\<close>

text \<open>
  \<open>iswspace\<close> and \<open>iswdigit\<close> are those of the C locale, which the program never leaves.
\<close>

definition iswspace :: "wint \<Rightarrow> bool" where
  "iswspace c = (c \<in> {9, 10, 11, 12, 13, 32})"

definition iswdigit :: "wint \<Rightarrow> bool" where
  "iswdigit c = (48 \<le> c \<and> c \<le> 57)"

definition is_clj_whitespace :: "wint \<Rightarrow> bool" where
  "is_clj_whitespace c = (iswspace c \<or> c = 44)"

definition is_sign :: "wint \<Rightarrow> bool" where
  "is_sign c = (c = 43 \<or> c = 45)"

definition ends_line :: "wint \<Rightarrow> bool" where
  "ends_line c = (c = 10 \<or> c = 13)"

lemmas char_class_defs = iswspace_def iswdigit_def is_clj_whitespace_def is_sign_def ends_line_def

record reader =
  rsrc :: wstr
  rline :: int
  rcolumn :: int
  rdepth :: int
  rdiscard :: int
  readback :: wint
  readback_column :: int
  remitted :: "clj_node list"
  rlog :: "string list"

datatype abort_site = Assert_readback | Assert_dispatch

datatype 'a outcome =
    Ret 'a reader
  | Fail clj_result reader
  | Abort abort_site
  | NoFuel

fun bindR :: "'a outcome \<Rightarrow> ('a \<Rightarrow> reader \<Rightarrow> 'b outcome) \<Rightarrow> 'b outcome" where
  "bindR (Ret x r) f = f x r"
| "bindR (Fail e r) f = Fail e r"
| "bindR (Abort a) f = Abort a"
| "bindR NoFuel f = NoFuel"

lemma bindR_split:
  "P (bindR m f) \<longleftrightarrow>
     (\<forall>x r. m = Ret x r \<longrightarrow> P (f x r)) \<and> (\<forall>e r. m = Fail e r \<longrightarrow> P (Fail e r)) \<and>
     (\<forall>a. m = Abort a \<longrightarrow> P (Abort a)) \<and> (m = NoFuel \<longrightarrow> P NoFuel)"
  by (cases m) auto

lemma bindR_Ret_iff: "bindR m f = Ret y s \<longleftrightarrow> (\<exists>x r. m = Ret x r \<and> f x r = Ret y s)"
  by (cases m) auto

definition getwchar :: "reader \<Rightarrow> wint \<times> reader" where
  "getwchar r = (case rsrc r of [] \<Rightarrow> (WEOF, r) | c # cs \<Rightarrow> (c, r\<lparr>rsrc := cs\<rparr>))"

definition pop_char :: "reader \<Rightarrow> wint \<times> reader" where
  "pop_char r =
     (let (c, r1) = (if readback r = 0 then getwchar r else (readback r, r\<lparr>readback := 0\<rparr>))
      in (c, if ends_line c
             then r1\<lparr>rline := rline r1 + 1, readback_column := rcolumn r1, rcolumn := 0\<rparr>
             else r1\<lparr>rcolumn := rcolumn r1 + 1\<rparr>))"

definition push_char :: "wint \<Rightarrow> reader \<Rightarrow> unit outcome" where
  "push_char c r =
     (if readback r \<noteq> 0 then Abort Assert_readback
      else let r1 = r\<lparr>readback := c\<rparr> in
        Ret () (if ends_line c
                then r1\<lparr>rline := rline r1 - 1, rcolumn := readback_column r1\<rparr>
                else r1\<lparr>rcolumn := rcolumn r1 - 1\<rparr>))"

definition peek_char :: "reader \<Rightarrow> wint outcome" where
  "peek_char r = (let (c, r1) = pop_char r in bindR (push_char c r1) (\<lambda>_ r2. Ret c r2))"

definition emit :: "clj_type \<Rightarrow> wstr \<Rightarrow> reader \<Rightarrow> reader" where
  "emit ty v r =
     (if rdiscard r = 0 then r\<lparr>remitted := remitted r @ [\<lparr>ntype = ty, nvalue = v\<rparr>]\<rparr> else r)"

text \<open>The characters still to come: the pushed-back one, then the input.\<close>

definition stream :: "reader \<Rightarrow> wstr" where
  "stream r = (if readback r = 0 then rsrc r else readback r # rsrc r)"

text \<open>A measure of the input left; a pushed-back WEOF does not count.\<close>

definition pending :: "reader \<Rightarrow> nat" where
  "pending r = length (filter (\<lambda>c. c \<noteq> WEOF) (stream r))"

lemma pop_char_pending:
  "pop_char r = (c, r1) \<Longrightarrow> c \<noteq> WEOF \<Longrightarrow> pending r = Suc (pending r1)"
  by (auto simp: pop_char_def getwchar_def pending_def stream_def Let_def
      split: if_splits list.splits prod.splits)

lemma pop_char_pending_le: "pop_char r = (c, r1) \<Longrightarrow> pending r1 \<le> pending r"
  by (auto simp: pop_char_def getwchar_def pending_def stream_def Let_def
      split: if_splits list.splits prod.splits)

lemma pop_char_readback: "pop_char r = (c, r1) \<Longrightarrow> readback r1 = 0"
  by (auto simp: pop_char_def getwchar_def Let_def split: if_splits list.splits prod.splits)

lemma push_char_no_abort [simp]: "readback r = 0 \<Longrightarrow> push_char c r \<noteq> Abort a"
  by (simp add: push_char_def Let_def)

section \<open>Leaf readers\<close>

function skip_whitespace :: "reader \<Rightarrow> wint \<times> reader" where
  "skip_whitespace r =
     (let (c, r1) = pop_char r in if is_clj_whitespace c then skip_whitespace r1 else (c, r1))"
  by pat_completeness auto
termination
  by (relation "measure pending")
     (auto dest!: sym [of _ "pop_char _"] pop_char_pending simp: char_class_defs)

definition at_number :: "wint \<Rightarrow> reader \<Rightarrow> bool outcome" where
  "at_number c r =
     (if iswdigit c then Ret True r
      else if is_sign c then bindR (peek_char r) (\<lambda>d r1. Ret (iswdigit d) r1)
      else Ret False r)"

definition ok_read :: "wint \<Rightarrow> clj_result" where
  "ok_read c = (if c = WEOF then CLJ_EOF else CLJ_MORE)"

function read_string_loop :: "clj_type \<Rightarrow> strbuf \<Rightarrow> bool \<Rightarrow> reader \<Rightarrow> clj_result outcome" where
  "read_string_loop ty sb escape r =
     (let (c, r1) = pop_char r in
      if c = WEOF then Fail CLJ_UNEXPECTED_EOF r1
      else if c = 92 then read_string_loop ty (strbuf_append sb c) (\<not> escape) r1
      else if c = 34 then
        (let sb1 = strbuf_append sb c in
         if escape then read_string_loop ty sb1 False r1
         else Ret CLJ_MORE (emit ty (wcs (sb_chars sb1)) r1))
      else read_string_loop ty (strbuf_append sb c) False r1)"
  by pat_completeness auto
termination
  by (relation "measure (\<lambda>(ty, sb, escape, r). pending r)")
     (auto dest!: sym [of _ "pop_char _"] pop_char_pending)

definition read_typed_string :: "clj_type \<Rightarrow> wstr \<Rightarrow> reader \<Rightarrow> clj_result outcome" where
  "read_typed_string ty pre r = read_string_loop ty (strbuf_appends (strbuf_init 80) pre) False r"

function read_token_loop ::
  "clj_type \<Rightarrow> (wint \<Rightarrow> bool) \<Rightarrow> strbuf \<Rightarrow> reader \<Rightarrow> clj_result outcome" where
  "read_token_loop ty terminates sb r =
     (let (c, r1) = pop_char r in
      if c = WEOF \<or> is_clj_whitespace c \<or> terminates c
      then bindR (push_char c r1) (\<lambda>_ r2. Ret (ok_read c) (emit ty (wcs (sb_chars sb)) r2))
      else read_token_loop ty terminates (strbuf_append sb c) r1)"
  by pat_completeness auto
termination
  by (relation "measure (\<lambda>(ty, terminates, sb, r). pending r)")
     (auto dest!: sym [of _ "pop_char _"] pop_char_pending)

definition read_token ::
  "clj_type \<Rightarrow> wint \<Rightarrow> nat \<Rightarrow> (wint \<Rightarrow> bool) \<Rightarrow> reader \<Rightarrow> clj_result outcome" where
  "read_token ty initch initial_capacity terminates r =
     read_token_loop ty terminates (strbuf_append (strbuf_init initial_capacity) initch) r"

function read_comment :: "reader \<Rightarrow> clj_result outcome" where
  "read_comment r =
     (let (c, r1) = pop_char r in
      if \<not> ends_line c \<and> c \<noteq> WEOF then read_comment r1 else Ret (ok_read c) r1)"
  by pat_completeness auto
termination
  by (relation "measure pending") (auto dest!: sym [of _ "pop_char _"] pop_char_pending)

declare skip_whitespace.simps [simp del] read_string_loop.simps [simp del]
  read_token_loop.simps [simp del] read_comment.simps [simp del]

section \<open>Dispatch tables\<close>

text \<open>The function pointers \<open>form_reader\<close> are the constructors of a datatype.\<close>

datatype form_reader =
    Read_string | Read_keyword | Read_comment | Read_quote | Read_deref | Read_meta
  | Read_syntax_quote | Read_unquote | Read_list | Read_unmatched_delimiter | Read_vector
  | Read_map | Read_char | Read_lambda_arg | Read_dispatch
  | Read_set | Read_unreadable | Read_regex | Read_discard

definition get_macro_reader :: "wint \<Rightarrow> form_reader option" where
  "get_macro_reader c =
     (if c = 34 then Some Read_string
      else if c = 58 then Some Read_keyword
      else if c = 59 then Some Read_comment
      else if c = 39 then Some Read_quote
      else if c = 64 then Some Read_deref
      else if c = 94 then Some Read_meta
      else if c = 96 then Some Read_syntax_quote
      else if c = 126 then Some Read_unquote
      else if c = 40 then Some Read_list
      else if c = 41 then Some Read_unmatched_delimiter
      else if c = 91 then Some Read_vector
      else if c = 93 then Some Read_unmatched_delimiter
      else if c = 123 then Some Read_map
      else if c = 125 then Some Read_unmatched_delimiter
      else if c = 92 then Some Read_char
      else if c = 37 then Some Read_lambda_arg
      else if c = 35 then Some Read_dispatch
      else None)"

definition get_dispatch_reader :: "wint \<Rightarrow> form_reader option" where
  "get_dispatch_reader c =
     (if c = 123 then Some Read_set
      else if c = 60 then Some Read_unreadable
      else if c = 34 then Some Read_regex
      else if c = 33 then Some Read_comment
      else if c = 95 then Some Read_discard
      else None)"

definition is_macro_terminating :: "wint \<Rightarrow> bool" where
  "is_macro_terminating c = (c \<noteq> 35 \<and> c \<noteq> 39 \<and> c \<noteq> 58 \<and> get_macro_reader c \<noteq> None)"

definition read_string :: "reader \<Rightarrow> clj_result outcome" where
  "read_string r = read_typed_string CLJ_STRING [34] r"

definition read_regex :: "reader \<Rightarrow> clj_result outcome" where
  "read_regex r = read_typed_string CLJ_REGEX [35, 34] r"

definition read_keyword :: "wint \<Rightarrow> reader \<Rightarrow> clj_result outcome" where
  "read_keyword initch r = read_token CLJ_KEYWORD initch 25 is_macro_terminating r"

definition read_symbol :: "wint \<Rightarrow> reader \<Rightarrow> clj_result outcome" where
  "read_symbol initch r = read_token CLJ_SYMBOL initch 40 is_macro_terminating r"

definition read_number :: "wint \<Rightarrow> reader \<Rightarrow> clj_result outcome" where
  "read_number initch r = read_token CLJ_NUMBER initch 20 (\<lambda>c. get_macro_reader c \<noteq> None) r"

definition read_char :: "wint \<Rightarrow> reader \<Rightarrow> clj_result outcome" where
  "read_char initch r = read_token CLJ_CHARACTER initch 10 is_macro_terminating r"

definition not_implemented :: "string \<Rightarrow> reader \<Rightarrow> clj_result outcome" where
  "not_implemented func r =
     Fail CLJ_NOT_IMPLEMENTED (r\<lparr>rlog := rlog r @ [func @ '' not implemented'']\<rparr>)"

section \<open>The recursive readers\<close>

definition quote_sym :: wstr where
  "quote_sym = [113, 117, 111, 116, 101]"

definition deref_sym :: wstr where
  "deref_sym = [100, 101, 114, 101, 102]"

text \<open>
  Every call spends one unit of fuel. The whitespace loop at the head of \<open>read_form\<close> is
  \<open>skip_whitespace\<close>: it stops at the first character that is not whitespace, and WEOF is not.
\<close>

function (sequential) read_form :: "nat \<Rightarrow> reader \<Rightarrow> clj_result outcome"
  and call_reader :: "nat \<Rightarrow> form_reader \<Rightarrow> wint \<Rightarrow> reader \<Rightarrow> clj_result outcome"
  and read_wrapped :: "nat \<Rightarrow> wstr \<Rightarrow> reader \<Rightarrow> clj_result outcome"
  and read_discard :: "nat \<Rightarrow> reader \<Rightarrow> clj_result outcome"
  and read_delimited :: "nat \<Rightarrow> clj_type \<Rightarrow> wstr \<Rightarrow> wint \<Rightarrow> reader \<Rightarrow> clj_result outcome"
  and delimited_loop :: "nat \<Rightarrow> clj_type \<Rightarrow> wint \<Rightarrow> reader \<Rightarrow> clj_result outcome"
where
  "read_form 0 r = NoFuel"
| "read_form (Suc n) r =
     (let (c, r1) = skip_whitespace r in
      if c = WEOF then
        (if rdepth r1 > 0 then Fail CLJ_UNEXPECTED_EOF r1 else Ret CLJ_EOF r1)
      else (case get_macro_reader c of
          Some m \<Rightarrow> call_reader n m c r1
        | None \<Rightarrow> bindR (at_number c r1)
            (\<lambda>num r2. if num then read_number c r2 else read_symbol c r2)))"
| "call_reader 0 m initch r = NoFuel"
| "call_reader (Suc n) m initch r = (case m of
      Read_string \<Rightarrow> read_string r
    | Read_keyword \<Rightarrow> read_keyword initch r
    | Read_comment \<Rightarrow> read_comment r
    | Read_quote \<Rightarrow> read_wrapped n quote_sym r
    | Read_deref \<Rightarrow> read_wrapped n deref_sym r
    | Read_meta \<Rightarrow> read_discard n r
    | Read_syntax_quote \<Rightarrow> not_implemented ''read_syntax_quote'' r
    | Read_unquote \<Rightarrow> not_implemented ''read_unquote'' r
    | Read_list \<Rightarrow> read_delimited n CLJ_LIST [40] 41 r
    | Read_unmatched_delimiter \<Rightarrow> Fail CLJ_UNMATCHED_DELIMITER r
    | Read_vector \<Rightarrow> read_delimited n CLJ_VECTOR [91] 93 r
    | Read_map \<Rightarrow> read_delimited n CLJ_MAP [123] 125 r
    | Read_char \<Rightarrow> read_char initch r
    | Read_lambda_arg \<Rightarrow> not_implemented ''read_lambda_arg'' r
    | Read_dispatch \<Rightarrow>
        (let (c, r1) = pop_char r in
         case get_dispatch_reader c of
           Some d \<Rightarrow> call_reader n d c r1
         | None \<Rightarrow> Abort Assert_dispatch)
    | Read_set \<Rightarrow> read_delimited n CLJ_SET [35, 123] 125 r
    | Read_unreadable \<Rightarrow> Fail CLJ_UNREADABLE r
    | Read_regex \<Rightarrow> read_regex r
    | Read_discard \<Rightarrow> read_discard n r)"
| "read_wrapped 0 s r = NoFuel"
| "read_wrapped (Suc n) s r =
     bindR (read_form n (emit CLJ_SYMBOL s (emit CLJ_LIST [40] r)))
       (\<lambda>result r1. Ret result (emit (CLJ_LIST OR CLJ_END) [41] r1))"
| "read_discard 0 r = NoFuel"
| "read_discard (Suc n) r =
     bindR (read_form n (r\<lparr>rdiscard := rdiscard r + 1\<rparr>))
       (\<lambda>result r1. Ret result (r1\<lparr>rdiscard := rdiscard r1 - 1\<rparr>))"
| "read_delimited 0 ty begn terminator r = NoFuel"
| "read_delimited (Suc n) ty begn terminator r =
     (let r1 = emit ty begn r
      in delimited_loop n ty terminator (r1\<lparr>rdepth := rdepth r1 + 1\<rparr>))"
| "delimited_loop 0 ty terminator r = NoFuel"
| "delimited_loop (Suc n) ty terminator r =
     (let (c, r1) = skip_whitespace r in
      if c = terminator then
        Ret CLJ_MORE (emit (ty OR CLJ_END) [terminator] (r1\<lparr>rdepth := rdepth r1 - 1\<rparr>))
      else (case get_macro_reader c of
          Some m \<Rightarrow> bindR (call_reader n m c r1) (\<lambda>_ r2. delimited_loop n ty terminator r2)
        | None \<Rightarrow>
            if c = WEOF then Fail CLJ_UNEXPECTED_EOF r1
            else bindR (push_char c r1)
              (\<lambda>_ r2. bindR (read_form n r2) (\<lambda>_ r3. delimited_loop n ty terminator r3))))"
  by pat_completeness auto
termination
  by (relation "measure (\<lambda>x. case x of
         Inl (Inl (n, _)) \<Rightarrow> n | Inl (Inr (Inl (n, _))) \<Rightarrow> n | Inl (Inr (Inr (n, _))) \<Rightarrow> n
       | Inr (Inl (n, _)) \<Rightarrow> n | Inr (Inr (Inl (n, _))) \<Rightarrow> n | Inr (Inr (Inr (n, _))) \<Rightarrow> n)") auto

text \<open>
  \<open>clj_read\<close> resets the position and the pushback and runs \<open>read_form\<close>; the value that
  \<open>setjmp\<close> returns after a \<open>longjmp\<close> becomes the result. \<open>3 * pending + 3\<close> units of fuel are
  enough (\<open>clj_read_total\<close>).
\<close>

definition read_fuel :: "reader \<Rightarrow> nat" where
  "read_fuel r = 3 * pending r + 3"

definition clj_read_start :: "reader \<Rightarrow> reader" where
  "clj_read_start r = r\<lparr>rline := 1, rcolumn := 0, rdepth := 0, rdiscard := 0, readback := 0\<rparr>"

definition clj_read :: "reader \<Rightarrow> clj_result outcome" where
  "clj_read r =
     (let r1 = clj_read_start r in
      case read_form (read_fuel r1) r1 of
        Ret result r2 \<Rightarrow> Ret result r2
      | Fail error r2 \<Rightarrow> Ret error r2
      | Abort a \<Rightarrow> Abort a
      | NoFuel \<Rightarrow> NoFuel)"

fun result_message :: "clj_result \<Rightarrow> string" where
  "result_message CLJ_UNEXPECTED_EOF = ''unexpected end of file''"
| "result_message CLJ_UNMATCHED_DELIMITER = ''unmatched delimiter''"
| "result_message CLJ_NOT_IMPLEMENTED = ''unsupported form''"
| "result_message CLJ_UNREADABLE = ''unreadable form''"
| "result_message CLJ_EOF = ''unexpected error''"
| "result_message CLJ_MORE = ''unexpected error''"

definition clj_read_error :: "reader \<Rightarrow> clj_result \<Rightarrow> string" where
  "clj_read_error r result =
     result_message result @ '' at line '' @ show_int (rline r) @ '', column '' @ show_int (rcolumn r)"

section \<open>The pushback assertion\<close>

text \<open>\<open>push_char\<close> asserts that nothing is pushed back yet. It is only called after a pop.\<close>

lemma push_char_Ret:
  assumes "readback r = 0"
  obtains r' where "push_char c r = Ret () r'"
  using assms by (auto simp: push_char_def Let_def)

lemma skip_whitespace_readback: "skip_whitespace r = (c, r1) \<Longrightarrow> readback r1 = 0"
proof (induction r rule: skip_whitespace.induct)
  case (1 r)
  then show ?case
    by (subst (asm) (2) skip_whitespace.simps)
       (auto simp: Let_def split: prod.splits if_splits dest: pop_char_readback)
qed

lemma bindR_Abort_iff:
  "bindR m f = Abort a \<longleftrightarrow> m = Abort a \<or> (\<exists>x r. m = Ret x r \<and> f x r = Abort a)"
  by (cases m) auto

lemma at_number_no_abort [simp]: "at_number c r \<noteq> Abort a"
  by (auto simp: at_number_def peek_char_def bindR_Abort_iff dest: pop_char_readback
      split: prod.splits)

lemma read_string_loop_no_abort [simp]: "read_string_loop ty sb e r \<noteq> Abort a"
proof (induction ty sb e r rule: read_string_loop.induct)
  case (1 ty sb e r)
  then show ?case
    by (subst read_string_loop.simps) (auto simp: Let_def split: prod.splits)
qed

lemma read_token_loop_no_abort [simp]: "read_token_loop ty t sb r \<noteq> Abort a"
proof (induction ty t sb r rule: read_token_loop.induct)
  case (1 ty t sb r)
  then show ?case
    by (subst read_token_loop.simps)
       (auto simp: Let_def bindR_Abort_iff dest: pop_char_readback split: prod.splits)
qed

lemma read_comment_no_abort [simp]: "read_comment r \<noteq> Abort a"
proof (induction r rule: read_comment.induct)
  case (1 r)
  then show ?case
    by (subst read_comment.simps) (auto simp: Let_def split: prod.splits)
qed

lemmas token_reader_defs = read_string_def read_regex_def read_typed_string_def read_keyword_def
  read_symbol_def read_number_def read_char_def read_token_def not_implemented_def

lemmas reader_induct =
  read_form_call_reader_read_wrapped_read_discard_read_delimited_delimited_loop.induct

lemma reader_no_pushback_abort:
  "read_form n r \<noteq> Abort Assert_readback"
  "call_reader n m c r \<noteq> Abort Assert_readback"
  "read_wrapped n s r \<noteq> Abort Assert_readback"
  "read_discard n r \<noteq> Abort Assert_readback"
  "read_delimited n ty b t r \<noteq> Abort Assert_readback"
  "delimited_loop n ty t r \<noteq> Abort Assert_readback"
proof (induction n r and n m c r and n s r and n r and n ty b t r and n ty t r
    rule: reader_induct)
qed (auto simp: Let_def bindR_Abort_iff token_reader_defs dest: skip_whitespace_readback
    split: prod.splits option.splits form_reader.splits)

section \<open>Postconditions\<close>

text \<open>\<open>post P Q m\<close>: if \<open>m\<close> returns, \<open>P\<close> holds of the reader; if it fails by \<open>longjmp\<close>, \<open>Q\<close>.\<close>

fun post :: "(reader \<Rightarrow> bool) \<Rightarrow> (reader \<Rightarrow> bool) \<Rightarrow> 'a outcome \<Rightarrow> bool" where
  "post P Q (Ret x r) = P r"
| "post P Q (Fail e r) = Q r"
| "post P Q (Abort a) = True"
| "post P Q NoFuel = True"

lemma post_bindR:
  assumes "post P Q m" "\<And>x r. m = Ret x r \<Longrightarrow> P r \<Longrightarrow> post P' Q (f x r)"
  shows "post P' Q (bindR m f)"
  using assms by (cases m) auto

lemma post_mono: "post P Q m \<Longrightarrow> (\<And>r. P r \<Longrightarrow> P' r) \<Longrightarrow> (\<And>r. Q r \<Longrightarrow> Q' r) \<Longrightarrow> post P' Q' m"
  by (cases m) auto

text \<open>
  A preorder on readers that popping, pushing back what was popped, and emitting an atom
  respect is respected by all the leaf readers.
\<close>

locale reader_preorder =
  fixes le :: "reader \<Rightarrow> reader \<Rightarrow> bool"
  assumes le_refl: "le r r"
    and le_trans: "le r s \<Longrightarrow> le s t \<Longrightarrow> le r t"
    and le_pop: "pop_char r = (c, r1) \<Longrightarrow> le r r1"
    and le_pop_push: "pop_char r = (c, r1) \<Longrightarrow> push_char c r1 = Ret () r2 \<Longrightarrow> le r r2"
    and le_atom: "\<not> clj_is_begin ty \<Longrightarrow> \<not> clj_is_end ty \<Longrightarrow> le r (emit ty v r)"
    and le_log: "le r (r\<lparr>rlog := l\<rparr>)"
begin

lemma le_skip: "skip_whitespace r = (c, r1) \<Longrightarrow> le r r1"
proof (induction r rule: skip_whitespace.induct)
  case (1 r)
  obtain d s where p: "pop_char r = (d, s)" by (cases "pop_char r")
  with 1(2) have "if is_clj_whitespace d then skip_whitespace s = (c, r1) else s = r1"
    by (subst (asm) skip_whitespace.simps) (auto split: if_splits)
  then show ?case using 1(1) [OF p [symmetric]] le_pop [OF p] le_trans
    by (auto split: if_splits)
qed

lemma le_skip_push:
  "skip_whitespace r = (c, r1) \<Longrightarrow> push_char c r1 = Ret () r2 \<Longrightarrow> le r r2"
proof (induction r rule: skip_whitespace.induct)
  case (1 r)
  obtain d s where p: "pop_char r = (d, s)" by (cases "pop_char r")
  with "1.prems" have "if is_clj_whitespace d then skip_whitespace s = (c, r1) else c = d \<and> s = r1"
    by (subst (asm) skip_whitespace.simps) (auto split: if_splits)
  then show ?case
    using "1.IH" [OF p [symmetric]] "1.prems" le_pop [OF p] le_pop_push [OF p] le_trans
    by (auto split: if_splits)
qed

lemma le_peek: "post (le r) (le r) (peek_char r)"
proof -
  obtain c r1 where p: "pop_char r = (c, r1)" by (cases "pop_char r")
  obtain r2 where q: "push_char c r1 = Ret () r2"
    using push_char_Ret [OF pop_char_readback [OF p]] by metis
  show ?thesis by (simp add: peek_char_def p q le_pop_push [OF p q])
qed

lemma le_at_number: "post (le r) (le r) (at_number c r)"
  unfolding at_number_def
  by (auto simp: le_refl intro!: post_bindR [OF le_peek])

lemma le_read_string_loop:
  "\<not> clj_is_begin ty \<Longrightarrow> \<not> clj_is_end ty \<Longrightarrow>
   le q r \<Longrightarrow> post (le q) (le q) (read_string_loop ty sb e r)"
proof (induction ty sb e r rule: read_string_loop.induct)
  case (1 ty sb e r)
  obtain c r1 where p: "pop_char r = (c, r1)" by (cases "pop_char r")
  have le1: "le q r1" using le_trans [OF 1(6) le_pop [OF p]] .
  have le2: "le q (emit ty v r1)" for v using le_trans [OF le1 le_atom [OF 1(4,5)]] .
  show ?case using 1(1-3) [OF p [symmetric]] 1(4,5) p le1 le2
    by (subst read_string_loop.simps) (auto simp: Let_def)
qed

lemma le_read_token_loop:
  "\<not> clj_is_begin ty \<Longrightarrow> \<not> clj_is_end ty \<Longrightarrow>
   le q r \<Longrightarrow> post (le q) (le q) (read_token_loop ty t sb r)"
proof (induction ty t sb r rule: read_token_loop.induct)
  case (1 ty t sb r)
  obtain c r1 where p: "pop_char r = (c, r1)" by (cases "pop_char r")
  obtain r2 where u: "push_char c r1 = Ret () r2"
    using push_char_Ret [OF pop_char_readback [OF p]] by metis
  have le1: "le q r1" using le_trans [OF 1(4) le_pop [OF p]] .
  have "le q r2" using le_trans [OF 1(4) le_pop_push [OF p u]] .
  then have le2: "le q (emit ty v r2)" for v using le_trans le_atom [OF 1(2,3)] by blast
  show ?case using 1(1) [OF p [symmetric]] 1(2,3) p u le1 le2
    by (subst read_token_loop.simps) auto
qed

lemma le_read_comment: "le q r \<Longrightarrow> post (le q) (le q) (read_comment r)"
proof (induction r rule: read_comment.induct)
  case (1 r)
  obtain c r1 where p: "pop_char r = (c, r1)" by (cases "pop_char r")
  have le1: "le q r1" using le_trans [OF 1(2) le_pop [OF p]] .
  show ?case using 1(1) [OF p [symmetric]] p le1
    by (subst read_comment.simps) auto
qed

lemmas le_leaves = le_at_number le_read_comment [OF le_refl]
  le_read_string_loop [OF _ _ le_refl] le_read_token_loop [OF _ _ le_refl]

end

lemma atom_types [simp]:
  "\<not> clj_is_begin CLJ_STRING" "\<not> clj_is_end CLJ_STRING"
  "\<not> clj_is_begin CLJ_REGEX" "\<not> clj_is_end CLJ_REGEX"
  "\<not> clj_is_begin CLJ_KEYWORD" "\<not> clj_is_end CLJ_KEYWORD"
  "\<not> clj_is_begin CLJ_SYMBOL" "\<not> clj_is_end CLJ_SYMBOL"
  "\<not> clj_is_begin CLJ_NUMBER" "\<not> clj_is_end CLJ_NUMBER"
  "\<not> clj_is_begin CLJ_CHARACTER" "\<not> clj_is_end CLJ_CHARACTER"
  by (simp_all add: clj_is_begin_def clj_is_end_def clj_is_composite_def clj_type_defs)

text \<open>
  A preorder that emitting any node and changing the depth and the discard counter respect
  as well is respected by the whole reader.
\<close>

locale reader_frame = reader_preorder +
  assumes le_emit: "le r (emit ty v r)"
    and le_depth: "le r (r\<lparr>rdepth := d\<rparr>)"
    and le_discard: "le r (r\<lparr>rdiscard := d\<rparr>)"
begin

lemma le_bind:
  assumes "post (le q) (le q) m" "\<And>x r. m = Ret x r \<Longrightarrow> le q r \<Longrightarrow> post (le q) (le q) (f x r)"
  shows "post (le q) (le q) (bindR m f)"
  using assms by (rule post_bindR)

lemma post_le_trans: "le q r \<Longrightarrow> post (le r) (le r) m \<Longrightarrow> post (le q) (le q) m"
  by (erule post_mono) (blast intro: le_trans)+

lemma le_recursive_aux:
  "le q r \<Longrightarrow> post (le q) (le q) (read_form n r)"
  "le q r \<Longrightarrow> post (le q) (le q) (call_reader n m c r)"
  "le q r \<Longrightarrow> post (le q) (le q) (read_wrapped n s r)"
  "le q r \<Longrightarrow> post (le q) (le q) (read_discard n r)"
  "le q r \<Longrightarrow> post (le q) (le q) (read_delimited n ty b t r)"
  "le q r \<Longrightarrow> post (le q) (le q) (delimited_loop n ty t r)"
proof (induction n r and n m c r and n s r and n r and n ty b t r and n ty t r
    arbitrary: q and q and q and q and q and q rule: reader_induct)
  case (2 n r)
  obtain c r1 where p: "skip_whitespace r = (c, r1)" by (cases "skip_whitespace r")
  have le1: "le q r1" using le_trans [OF "2.prems" le_skip [OF p]] .
  show ?case
    using "2.IH" [OF p [symmetric] refl] le1 p
    by (auto simp: token_reader_defs split: option.splits
        intro!: le_bind post_le_trans [OF le1 le_at_number] le_read_token_loop)
next
  case (4 n m c r)
  obtain d r1 where p: "pop_char r = (d, r1)" by (cases "pop_char r")
  have le1: "le q r1" using le_trans [OF "4.prems" le_pop [OF p]] .
  show ?case
    using "4.IH" "4.prems" le1 p
    by (cases m) (auto simp: token_reader_defs le_read_comment
        intro: le_trans [OF _ le_log] le_read_string_loop le_read_token_loop
        split: option.splits)
next
  case (6 n s r)
  then show ?case
    by (auto intro!: le_bind intro: le_trans [OF _ le_emit])
next
  case (8 n r)
  then show ?case
    by (auto intro!: le_bind intro: le_trans [OF _ le_discard])
next
  case (10 n ty b t r)
  then show ?case
    by (auto simp: Let_def intro: le_trans [OF _ le_emit] le_trans [OF _ le_depth])
next
  case (12 n ty t r)
  obtain c r1 where p: "skip_whitespace r = (c, r1)" by (cases "skip_whitespace r")
  have le1: "le q r1" using le_trans [OF "12.prems" le_skip [OF p]] .
  obtain r2 where u: "push_char c r1 = Ret () r2"
    using push_char_Ret [OF skip_whitespace_readback [OF p]] by metis
  have le2: "le q r2" using le_trans [OF "12.prems" le_skip_push [OF p u]] .
  have le3: "le q (emit (ty OR CLJ_END) [t] (r1\<lparr>rdepth := rdepth r1 - 1\<rparr>))"
    by (rule le_trans [OF le_trans [OF le1 le_depth] le_emit])
  show ?case using "12.IH" [OF p [symmetric] refl] p u le1 le2 le3
    by (auto split: option.splits intro!: le_bind)
qed auto

end

section \<open>Consumption and position\<close>

definition pending_le :: "reader \<Rightarrow> reader \<Rightarrow> bool" where
  "pending_le r r' = (pending r' \<le> pending r)"

lemma pop_char_facts:
  assumes "pop_char r = (c, r1)"
  shows "stream r = c # stream r1 \<or> stream r = [] \<and> stream r1 = [] \<and> c = WEOF"
    and "rline r1 = rline r + (if ends_line c then 1 else 0)"
    and "remitted r1 = remitted r" "rdepth r1 = rdepth r" "rdiscard r1 = rdiscard r"
    and "readback r1 = 0"
proof -
  note d = pop_char_def getwchar_def stream_def
  show "stream r = c # stream r1 \<or> stream r = [] \<and> stream r1 = [] \<and> c = WEOF"
    using assms by (cases "readback r = 0"; cases "rsrc r") (auto simp: d split: if_splits)
  show "rline r1 = rline r + (if ends_line c then 1 else 0)"
    using assms by (cases "readback r = 0"; cases "rsrc r") (auto simp: d split: if_splits)
  have "remitted r1 = remitted r \<and> rdepth r1 = rdepth r \<and> rdiscard r1 = rdiscard r \<and> readback r1 = 0"
    using assms by (cases "readback r = 0"; cases "rsrc r") (auto simp: d split: if_splits)
  then show "remitted r1 = remitted r" "rdepth r1 = rdepth r" "rdiscard r1 = rdiscard r"
    "readback r1 = 0" by simp_all
qed

lemma push_char_facts:
  assumes "push_char c r1 = Ret u r2"
  shows "stream r2 = (if c = 0 then stream r1 else c # stream r1)"
    and "rline r2 = rline r1 - (if ends_line c then 1 else 0)"
    and "remitted r2 = remitted r1" "rdepth r2 = rdepth r1" "rdiscard r2 = rdiscard r1"
  using assms by (auto simp: push_char_def stream_def Let_def ends_line_def split: if_splits)

lemma pop_push_pending:
  "pop_char r = (c, r1) \<Longrightarrow> push_char c r1 = Ret () r2 \<Longrightarrow> pending r2 \<le> pending r"
  by (frule pop_char_facts(1), drule push_char_facts(1)) (auto simp: pending_def)

lemma pending_cong [simp]:
  "pending (emit ty v r) = pending r"
  "pending (r\<lparr>rlog := l\<rparr>) = pending r"
  "pending (r\<lparr>rdepth := d\<rparr>) = pending r"
  "pending (r\<lparr>rdiscard := d\<rparr>) = pending r"
  by (simp_all add: pending_def stream_def emit_def)

interpretation pf: reader_frame pending_le
  by unfold_locales
    (auto simp: pending_le_def dest: pop_push_pending pop_char_pending_le)

text \<open>
  Where the input holds no NUL character, the characters consumed are a prefix of the input
  and the line number has advanced by the line ends among them.
\<close>

definition noeof :: "wstr \<Rightarrow> wstr" where
  "noeof s = filter (\<lambda>c. c \<noteq> WEOF) s"

definition line_ends :: "wstr \<Rightarrow> int" where
  "line_ends s = int (length (filter ends_line s))"

definition line_le :: "reader \<Rightarrow> reader \<Rightarrow> bool" where
  "line_le r r' \<longleftrightarrow>
     (0 \<notin> set (stream r) \<longrightarrow> 0 \<notin> set (stream r') \<and>
       (\<exists>p. noeof (stream r) = p @ noeof (stream r') \<and> rline r' = rline r + line_ends p))"

lemma line_ends_simps [simp]:
  "line_ends [] = 0"
  "line_ends (c # s) = (if ends_line c then 1 else 0) + line_ends s"
  "line_ends (s @ t) = line_ends s + line_ends t"
  by (simp_all add: line_ends_def)

lemma noeof_simps [simp]:
  "noeof [] = []"
  "noeof (c # s) = (if c = WEOF then noeof s else c # noeof s)"
  by (simp_all add: noeof_def)

lemma line_le_refl: "line_le r r"
  by (simp add: line_le_def)

lemma line_le_trans:
  assumes "line_le r s" "line_le s t"
  shows "line_le r t"
  unfolding line_le_def
proof (intro impI)
  assume nz: "0 \<notin> set (stream r)"
  from assms(1) nz obtain p where s: "0 \<notin> set (stream s)"
    "noeof (stream r) = p @ noeof (stream s)" "rline s = rline r + line_ends p"
    unfolding line_le_def by blast
  from assms(2) s(1) obtain q where t: "0 \<notin> set (stream t)"
    "noeof (stream s) = q @ noeof (stream t)" "rline t = rline s + line_ends q"
    unfolding line_le_def by blast
  show "0 \<notin> set (stream t) \<and>
    (\<exists>p. noeof (stream r) = p @ noeof (stream t) \<and> rline t = rline r + line_ends p)"
    by (intro conjI exI [of _ "p @ q"]) (simp_all add: s t)
qed

lemma line_le_pop:
  assumes "pop_char r = (c, r1)"
  shows "line_le r r1"
proof -
  have "\<exists>p. noeof (stream r) = p @ noeof (stream r1) \<and> rline r1 = rline r + line_ends p"
    using pop_char_facts(1,2) [OF assms]
    by (intro exI [of _ "if c = WEOF then [] else [c]"]) (auto simp: ends_line_def)
  then show ?thesis using pop_char_facts(1) [OF assms] by (auto simp: line_le_def)
qed

lemma line_le_pop_push:
  assumes "pop_char r = (c, r1)" "push_char c r1 = Ret () r2"
  shows "line_le r r2"
proof -
  have "0 \<notin> set (stream r) \<Longrightarrow> c \<noteq> 0" using pop_char_facts(1) [OF assms(1)] by auto
  moreover have "rline r2 = rline r"
    using pop_char_facts(2) [OF assms(1)] push_char_facts(2) [OF assms(2)] by simp
  ultimately show ?thesis
    using pop_char_facts(1) [OF assms(1)] push_char_facts(1) [OF assms(2)]
    by (auto simp: line_le_def intro: exI [of _ "[]"])
qed

lemma line_le_same: "stream r' = stream r \<Longrightarrow> rline r' = rline r \<Longrightarrow> line_le r r'"
  by (simp add: line_le_def)

interpretation lf: reader_frame line_le
  by unfold_locales
    (auto intro: line_le_refl line_le_pop line_le_pop_push line_le_same line_le_trans
      simp: emit_def stream_def)

section \<open>Termination\<close>

text \<open>
  Every call of the recursive readers that does not consume a character is followed, within
  two calls, by one that does: \<open>3 * pending + 3\<close> units of fuel are never used up.
\<close>

lemma bindR_NoFuel_iff:
  "bindR m f = NoFuel \<longleftrightarrow> m = NoFuel \<or> (\<exists>x r. m = Ret x r \<and> f x r = NoFuel)"
  by (cases m) auto

lemma push_char_fuel [simp]: "push_char c r \<noteq> NoFuel"
  by (simp add: push_char_def Let_def)

lemma at_number_fuel [simp]: "at_number c r \<noteq> NoFuel"
  by (auto simp: at_number_def peek_char_def bindR_NoFuel_iff split: prod.splits)

lemma read_string_loop_fuel [simp]: "read_string_loop ty sb e r \<noteq> NoFuel"
proof (induction ty sb e r rule: read_string_loop.induct)
  case (1 ty sb e r)
  then show ?case
    by (subst read_string_loop.simps) (auto simp: Let_def split: prod.splits)
qed

lemma read_token_loop_fuel [simp]: "read_token_loop ty t sb r \<noteq> NoFuel"
proof (induction ty t sb r rule: read_token_loop.induct)
  case (1 ty t sb r)
  then show ?case
    by (subst read_token_loop.simps) (auto simp: Let_def bindR_NoFuel_iff split: prod.splits)
qed

lemma read_comment_fuel [simp]: "read_comment r \<noteq> NoFuel"
proof (induction r rule: read_comment.induct)
  case (1 r)
  then show ?case
    by (subst read_comment.simps) (auto simp: Let_def split: prod.splits)
qed

lemma skip_whitespace_facts:
  "skip_whitespace r = (c, r1) \<Longrightarrow>
   \<not> is_clj_whitespace c \<and> (c \<noteq> WEOF \<longrightarrow> Suc (pending r1) \<le> pending r)"
proof (induction r rule: skip_whitespace.induct)
  case (1 r)
  obtain d s where p: "pop_char r = (d, s)" by (cases "pop_char r")
  with "1.prems" have "if is_clj_whitespace d then skip_whitespace s = (c, r1) else c = d \<and> s = r1"
    by (subst (asm) skip_whitespace.simps) (auto split: if_splits)
  then show ?case
    using "1.IH" [OF p [symmetric]] pop_char_pending [OF p] pop_char_pending_le [OF p]
    by (auto split: if_splits)
qed

lemma skip_whitespace_nonblank:
  assumes "stream r = c # s" "\<not> is_clj_whitespace c"
  shows "\<exists>r1. skip_whitespace r = (c, r1) \<and> stream r1 = s"
proof -
  obtain d r1 where p: "pop_char r = (d, r1)" by (cases "pop_char r")
  with pop_char_facts(1) [OF p] assms(1) have "d = c" "stream r1 = s" by auto
  with p assms(2) show ?thesis by (subst skip_whitespace.simps) simp
qed

lemma read_form_token:
  assumes "skip_whitespace r = (c, r1)" "c \<noteq> WEOF" "get_macro_reader c = None"
  shows "read_form (Suc n) r \<noteq> NoFuel"
    and "read_form (Suc n) r = Ret x r' \<Longrightarrow> pending r' \<le> pending r1"
proof -
  have eq: "read_form (Suc n) r =
      bindR (at_number c r1) (\<lambda>num r2. if num then read_number c r2 else read_symbol c r2)"
    using assms by simp
  show "read_form (Suc n) r \<noteq> NoFuel"
    unfolding eq by (auto simp: bindR_NoFuel_iff token_reader_defs)
  have "post (pending_le r1) (pending_le r1) (read_form (Suc n) r)"
    unfolding eq
    by (rule pf.le_bind [OF pf.le_at_number])
       (auto simp: token_reader_defs intro: pf.le_read_token_loop)
  then show "read_form (Suc n) r = Ret x r' \<Longrightarrow> pending r' \<le> pending r1"
    by (simp add: pending_le_def)
qed

lemma dispatch_not_eof: "get_dispatch_reader WEOF = None" "get_macro_reader WEOF = None"
  by (simp_all add: get_dispatch_reader_def get_macro_reader_def)

lemma call_reader_pending: "call_reader n m c r = Ret x r' \<Longrightarrow> pending r' \<le> pending r"
  using pf.le_recursive_aux(2) [of r r n m c] by (simp add: pending_le_def)

lemma read_form_pending: "read_form n r = Ret x r' \<Longrightarrow> pending r' \<le> pending r"
  using pf.le_recursive_aux(1) [of r r n] by (simp add: pending_le_def)

lemma reader_enough_fuel:
  "3 * pending r + 1 \<le> n \<Longrightarrow> read_form n r \<noteq> NoFuel"
  "3 * pending r + 3 \<le> n \<Longrightarrow> call_reader n m c r \<noteq> NoFuel"
  "3 * pending r + 2 \<le> n \<Longrightarrow> read_wrapped n s r \<noteq> NoFuel"
  "3 * pending r + 2 \<le> n \<Longrightarrow> read_discard n r \<noteq> NoFuel"
  "3 * pending r + 2 \<le> n \<Longrightarrow> read_delimited n ty b t r \<noteq> NoFuel"
  "3 * pending r + 1 \<le> n \<Longrightarrow> delimited_loop n ty t r \<noteq> NoFuel"
proof (induction n r and n m c r and n s r and n r and n ty b t r and n ty t r
    rule: reader_induct)
  case (2 n r)
  obtain c r1 where p: "skip_whitespace r = (c, r1)" by (cases "skip_whitespace r")
  show ?case
    using "2.IH" [OF p [symmetric] refl] "2.prems" p skip_whitespace_facts [OF p]
    by (auto simp: bindR_NoFuel_iff token_reader_defs split: option.splits)
next
  case (4 n m c r)
  obtain d r1 where p: "pop_char r = (d, r1)" by (cases "pop_char r")
  have "get_dispatch_reader d = Some e \<Longrightarrow> Suc (pending r1) = pending r" for e
    using pop_char_pending [OF p] by (cases "d = WEOF") (auto simp: dispatch_not_eof)
  then show ?case
    using "4.IH" "4.prems" p
    by (cases m) (auto simp: token_reader_defs split: option.splits)
next
  case (12 n ty t r)
  obtain c r1 where p: "skip_whitespace r = (c, r1)" by (cases "skip_whitespace r")
  note f = skip_whitespace_facts [OF p]
  note IH = "12.IH" [OF p [symmetric] refl]
  consider "c = t" | m where "c \<noteq> t" "get_macro_reader c = Some m"
    | "c \<noteq> t" "get_macro_reader c = None" "c = WEOF"
    | "c \<noteq> t" "get_macro_reader c = None" "c \<noteq> WEOF"
    by fastforce
  then show ?case
  proof cases
    case (2 m)
    have "c \<noteq> WEOF" using 2(2) by (auto simp: dispatch_not_eof)
    with f have le: "Suc (pending r1) \<le> pending r" by simp
    have "delimited_loop n ty t r2 \<noteq> NoFuel" if "call_reader n m c r1 = Ret x r2" for x r2
      using IH(4) [OF 2] call_reader_pending [OF that] le "12.prems" by auto
    with 2 p IH(3) [OF 2] le "12.prems" show ?thesis by (auto simp: bindR_NoFuel_iff)
  next
    case 4
    with f have le: "Suc (pending r1) \<le> pending r" by simp
    obtain r2 where u: "push_char c r1 = Ret () r2"
      using push_char_Ret [OF skip_whitespace_readback [OF p]] by metis
    obtain k where n: "n = Suc k" using "12.prems" le by (cases n) auto
    have form: "read_form n r2 \<noteq> NoFuel \<and>
        (\<forall>x r3. read_form n r2 = Ret x r3 \<longrightarrow> pending r3 \<le> pending r1)"
    proof (cases "c = 0")
      case True
      with push_char_facts(1) [OF u] have "pending r2 = pending r1" by (simp add: pending_def)
      then show ?thesis using IH(1) [OF 4] le "12.prems"
        by (auto dest: read_form_pending)
    next
      case False
      with push_char_facts(1) [OF u] have "stream r2 = c # stream r1" by simp
      then obtain r1' where q: "skip_whitespace r2 = (c, r1')" "stream r1' = stream r1"
        using skip_whitespace_nonblank f by blast
      then have "pending r1' = pending r1" by (simp add: pending_def)
      with read_form_token [OF q(1) 4(3,2)] n show ?thesis by auto
    qed
    have "delimited_loop n ty t r3 \<noteq> NoFuel" if "read_form n r2 = Ret x r3" for x r3
      using IH(2) [OF 4] form that le "12.prems" by auto
    with 4 p u form show ?thesis by (auto simp: bindR_NoFuel_iff)
  qed (use p in auto)
qed (auto simp: bindR_NoFuel_iff Let_def)

section \<open>Nesting of the emitted nodes\<close>

text \<open>
  A stack machine over the emitted nodes: a begin node pushes its type, an end node must carry
  the type on top with the \<open>CLJ_END\<close> flag. A node list is balanced when it runs from any
  stack back to the same stack, and open when it runs to a stack on top of it.
\<close>

fun nest :: "clj_node list \<Rightarrow> clj_type list \<Rightarrow> clj_type list option" where
  "nest [] st = Some st"
| "nest (nd # nds) st =
     (if clj_is_begin (ntype nd) then nest nds (ntype nd # st)
      else if clj_is_end (ntype nd) then
        (case st of [] \<Rightarrow> None
         | ty # st' \<Rightarrow> if ntype nd = (ty OR CLJ_END) then nest nds st' else None)
      else nest nds st)"

lemma nest_append: "nest (xs @ ys) st = Option.bind (nest xs st) (nest ys)"
  by (induction xs st rule: nest.induct) (auto split: list.splits)

definition balanced :: "reader \<Rightarrow> reader \<Rightarrow> bool" where
  "balanced r r' \<longleftrightarrow> rdepth r' = rdepth r \<and> rdiscard r' = rdiscard r \<and>
     (\<exists>es. remitted r' = remitted r @ es \<and> (\<forall>st. nest es st = Some st) \<and>
        (0 < rdiscard r \<longrightarrow> es = []))"

definition open_nest :: "reader \<Rightarrow> reader \<Rightarrow> bool" where
  "open_nest r r' \<longleftrightarrow>
     (\<exists>es st'. remitted r' = remitted r @ es \<and> (\<forall>st. nest es st = Some (st' @ st)))"

lemma balanced_same:
  "rdepth r' = rdepth r \<Longrightarrow> rdiscard r' = rdiscard r \<Longrightarrow> remitted r' = remitted r \<Longrightarrow> balanced r r'"
  by (simp add: balanced_def)

lemma balanced_trans: "balanced r s \<Longrightarrow> balanced s t \<Longrightarrow> balanced r t"
  unfolding balanced_def by (elim conjE exE) (auto simp: nest_append)

lemma balanced_open: "balanced r s \<Longrightarrow> open_nest r s"
  unfolding balanced_def open_nest_def
  by (elim conjE exE, rule exI, rule exI [of _ "[]"]) auto

lemma open_same: "remitted r' = remitted r \<Longrightarrow> open_nest r r'"
  by (auto simp: open_nest_def intro: exI [of _ "[]"])

lemma open_update [simp]:
  "open_nest (r\<lparr>rdiscard := d\<rparr>) = open_nest r"
  "open_nest (r\<lparr>rdepth := d\<rparr>) = open_nest r"
  by (simp_all add: open_nest_def fun_eq_iff)

lemma open_trans: "open_nest r s \<Longrightarrow> open_nest s t \<Longrightarrow> open_nest r t"
proof -
  assume "open_nest r s" "open_nest s t"
  then obtain es st' fs st'' where
    "remitted s = remitted r @ es" "\<forall>st. nest es st = Some (st' @ st)"
    "remitted t = remitted s @ fs" "\<forall>st. nest fs st = Some (st'' @ st)"
    by (auto simp: open_nest_def)
  then show ?thesis
    unfolding open_nest_def
    by (intro exI [of _ "es @ fs"] exI [of _ "st'' @ st'"]) (simp add: nest_append)
qed

lemma balanced_emit_atom:
  "\<not> clj_is_begin ty \<Longrightarrow> \<not> clj_is_end ty \<Longrightarrow> balanced r (emit ty v r)"
  by (auto simp: balanced_def emit_def)

interpretation bf: reader_preorder balanced
  by unfold_locales
    (auto intro: balanced_trans balanced_same balanced_emit_atom
      simp: pop_char_facts push_char_facts)

definition composite :: "clj_type \<Rightarrow> bool" where
  "composite ty = (ty \<in> {CLJ_MAP, CLJ_LIST, CLJ_SET, CLJ_VECTOR})"

lemma composite_flags:
  assumes "composite ty"
  shows "clj_is_begin ty" "clj_is_end (ty OR CLJ_END)" "\<not> clj_is_begin (ty OR CLJ_END)"
  using assms by (auto simp: composite_def clj_is_begin_def clj_is_end_def
      clj_is_composite_def clj_type_defs)

lemma emit_fields [simp]:
  "rdepth (emit ty v r) = rdepth r" "rdiscard (emit ty v r) = rdiscard r"
  "remitted (emit ty v r) =
     remitted r @ (if rdiscard r = 0 then [\<lparr>ntype = ty, nvalue = v\<rparr>] else [])"
  by (simp_all add: emit_def)

lemma open_begin: "composite ty \<Longrightarrow> open_nest r (emit ty v r)"
  unfolding open_nest_def
  by (intro exI [of _ "if rdiscard r = 0 then [\<lparr>ntype = ty, nvalue = v\<rparr>] else []"]
      exI [of _ "if rdiscard r = 0 then [ty] else []"]) (auto simp: composite_flags)

text \<open>What is emitted between a begin node and the matching end node is balanced as a whole.\<close>

lemma balanced_bracket:
  assumes "composite ty" and "balanced (emit ty v r) s"
  shows "balanced r (emit (ty OR CLJ_END) w s)"
proof -
  from assms(2) obtain es where es: "rdepth s = rdepth r" "rdiscard s = rdiscard r"
    "remitted s = remitted (emit ty v r) @ es" "\<forall>st. nest es st = Some st"
    "0 < rdiscard r \<longrightarrow> es = []"
    by (auto simp: balanced_def)
  let ?es = "(if rdiscard r = 0 then [\<lparr>ntype = ty, nvalue = v\<rparr>] else []) @ es @
             (if rdiscard r = 0 then [\<lparr>ntype = ty OR CLJ_END, nvalue = w\<rparr>] else [])"
  have "remitted (emit (ty OR CLJ_END) w s) = remitted r @ ?es"
    using es(2,3) by simp
  moreover have "nest ?es st = Some st" for st
    using es(4) composite_flags [OF assms(1)] by (simp add: nest_append)
  moreover have "0 < rdiscard r \<longrightarrow> ?es = []" using es(5) by simp
  ultimately show ?thesis using es(1,2) unfolding balanced_def by (metis emit_fields(1,2))
qed

lemma balanced_depth:
  "balanced r (s\<lparr>rdepth := d\<rparr>) \<longleftrightarrow> d = rdepth r \<and> balanced r (s\<lparr>rdepth := rdepth r\<rparr>)"
  by (auto simp: balanced_def)

lemma balanced_discarded:
  "balanced (r\<lparr>rdiscard := rdiscard r + 1\<rparr>) s \<Longrightarrow> 0 \<le> rdiscard r \<Longrightarrow>
   balanced r (s\<lparr>rdiscard := rdiscard s - 1\<rparr>)"
  by (auto simp: balanced_def)

abbreviation nested_post :: "reader \<Rightarrow> 'a outcome \<Rightarrow> bool" where
  "nested_post r \<equiv> post (balanced r) (open_nest r)"

lemma nested_leaf:
  "post (balanced r) (balanced r) m \<Longrightarrow> nested_post r m"
  by (erule post_mono) (auto intro: balanced_open)

lemma nested_bind:
  assumes "nested_post r m" "\<And>x s. m = Ret x s \<Longrightarrow> nested_post s (f x s)"
  shows "nested_post r (bindR m f)"
  by (rule post_bindR [OF assms(1)], rule post_mono [OF assms(2)])
     (auto intro: balanced_trans open_trans balanced_open)

lemma nested_trans: "balanced r s \<Longrightarrow> nested_post s m \<Longrightarrow> nested_post r m"
  by (erule post_mono) (auto intro: balanced_trans open_trans balanced_open)

text \<open>The end state of a delimited form whose begin node is already emitted.\<close>

definition closes :: "clj_type \<Rightarrow> reader \<Rightarrow> reader \<Rightarrow> bool" where
  "closes ty r r' \<longleftrightarrow>
     (\<exists>s w. balanced r s \<and> r' = emit (ty OR CLJ_END) w (s\<lparr>rdepth := rdepth s - 1\<rparr>))"

lemma closes_trans: "balanced r s \<Longrightarrow> closes ty s t \<Longrightarrow> closes ty r t"
  unfolding closes_def by (blast intro: balanced_trans)

lemma closes_bracket:
  assumes "composite ty"
    and "closes ty ((emit ty b r)\<lparr>rdepth := rdepth r + 1\<rparr>) r'"
  shows "balanced r r'"
proof -
  from assms(2) obtain s w where s: "balanced ((emit ty b r)\<lparr>rdepth := rdepth r + 1\<rparr>) s"
    and r': "r' = emit (ty OR CLJ_END) w (s\<lparr>rdepth := rdepth s - 1\<rparr>)"
    by (auto simp: closes_def)
  from s have "balanced (emit ty b r) (s\<lparr>rdepth := rdepth s - 1\<rparr>)"
    by (simp add: balanced_def)
  with assms(1) show ?thesis unfolding r' by (rule balanced_bracket)
qed

lemma post_bind_balanced:
  assumes "nested_post r m" "\<And>x s. m = Ret x s \<Longrightarrow> post (closes ty s) (open_nest s) (f x s)"
  shows "post (closes ty r) (open_nest r) (bindR m f)"
  by (rule post_bindR [OF assms(1)], rule post_mono [OF assms(2)])
     (auto intro: closes_trans open_trans balanced_open)

lemma reader_nested:
  "0 \<le> rdiscard r \<Longrightarrow> nested_post r (read_form n r)"
  "0 \<le> rdiscard r \<Longrightarrow> nested_post r (call_reader n m c r)"
  "0 \<le> rdiscard r \<Longrightarrow> nested_post r (read_wrapped n s r)"
  "0 \<le> rdiscard r \<Longrightarrow> nested_post r (read_discard n r)"
  "0 \<le> rdiscard r \<Longrightarrow> composite ty \<Longrightarrow> nested_post r (read_delimited n ty b t r)"
  "0 \<le> rdiscard r \<Longrightarrow> composite ty \<Longrightarrow> post (closes ty r) (open_nest r) (delimited_loop n ty t r)"
proof (induction n r and n m c r and n s r and n r and n ty b t r and n ty t r
    rule: reader_induct)
  case (2 n r)
  obtain c r1 where p: "skip_whitespace r = (c, r1)" by (cases "skip_whitespace r")
  note b = bf.le_skip [OF p]
  then have d: "0 \<le> rdiscard r1" using "2.prems" by (simp add: balanced_def)
  have tok: "nested_post r1
      (bindR (at_number c r1) (\<lambda>num r2. if num then read_number c r2 else read_symbol c r2))"
    by (rule nested_bind [OF nested_leaf [OF bf.le_at_number]])
       (simp add: token_reader_defs nested_leaf bf.le_leaves)
  have mac: "get_macro_reader c = Some m \<Longrightarrow> c \<noteq> WEOF \<Longrightarrow> nested_post r1 (call_reader n m c r1)" for m
    using "2.IH" [OF p [symmetric] refl] d by simp
  show ?case
    using p b nested_trans [OF b tok] nested_trans [OF b mac] balanced_open [OF b]
    by (simp split: option.splits)
next
  case (4 n m c r)
  obtain d r1 where p: "pop_char r = (d, r1)" by (cases "pop_char r")
  note b = bf.le_pop [OF p]
  then have d: "0 \<le> rdiscard r1" using "4.prems" by (simp add: balanced_def)
  have leaves: "nested_post r (read_string_loop ty sb e r)" "nested_post r (read_token_loop ty ch sb r)"
    "nested_post r (read_comment r)" if "\<not> clj_is_begin ty" "\<not> clj_is_end ty" for ty sb e ch
    using that by (simp_all add: nested_leaf bf.le_leaves)
  have disp: "nested_post r (call_reader n e d r1)"
    if "m = Read_dispatch" "get_dispatch_reader d = Some e" for e
    using "4.IH" that p d by (intro nested_trans [OF b]) auto
  have "composite CLJ_LIST" "composite CLJ_VECTOR" "composite CLJ_MAP" "composite CLJ_SET"
    by (simp_all add: composite_def)
  then show ?case
    using "4.IH" "4.prems" p disp leaves leaves(3) [OF atom_types(1,2)]
    by (cases m) (simp_all add: token_reader_defs open_same split: option.split)
next
  case (6 n s r)
  let ?r = "emit CLJ_SYMBOL s (emit CLJ_LIST [40] r)"
  have c: "composite CLJ_LIST" by (simp add: composite_def)
  have "nested_post (emit CLJ_LIST [40] r) (read_form n ?r)"
    by (rule nested_trans [OF balanced_emit_atom "6.IH"]) (use "6.prems" in simp_all)
  then show ?case
    by (cases "read_form n ?r")
       (auto intro: balanced_bracket [OF c] open_trans [OF open_begin [OF c]])
next
  case (8 n r)
  then have "nested_post (r\<lparr>rdiscard := rdiscard r + 1\<rparr>) (read_form n (r\<lparr>rdiscard := rdiscard r + 1\<rparr>))"
    by simp
  with "8.prems" show ?case
    by (cases "read_form n (r\<lparr>rdiscard := rdiscard r + 1\<rparr>)")
       (auto intro: balanced_discarded)
next
  case (10 n ty b t r)
  let ?r = "(emit ty b r)\<lparr>rdepth := rdepth r + 1\<rparr>"
  have "post (closes ty ?r) (open_nest ?r) (delimited_loop n ty t ?r)"
    using "10.IH" "10.prems" by simp
  then show ?case using "10.prems"
    by (cases "delimited_loop n ty t ?r")
       (auto intro: closes_bracket open_trans [OF open_begin])
next
  case (12 n ty t r)
  obtain c r1 where p: "skip_whitespace r = (c, r1)" by (cases "skip_whitespace r")
  note b = bf.le_skip [OF p]
  obtain r2 where u: "push_char c r1 = Ret () r2"
    using push_char_Ret [OF skip_whitespace_readback [OF p]] by metis
  note b2 = bf.le_skip_push [OF p u]
  have d: "0 \<le> rdiscard r1" "0 \<le> rdiscard r2" and ty: "composite ty"
    using b b2 "12.prems" by (simp_all add: balanced_def)
  note IH = "12.IH" [OF p [symmetric] refl]
  have rest: "post (closes ty q) (open_nest q)
      (bindR m (\<lambda>_ r3. delimited_loop n ty t r3))"
    if "nested_post q m" "0 \<le> rdiscard q"
      "\<And>s. 0 \<le> rdiscard s \<Longrightarrow> post (closes ty s) (open_nest s) (delimited_loop n ty t s)"
    for q :: reader and m :: "clj_result outcome"
    by (rule post_bind_balanced [OF that(1)], rule that(3))
       (use that(1,2) in \<open>auto simp: balanced_def\<close>)
  have lift: "post (closes ty r) (open_nest r) m"
    if "balanced r q" "post (closes ty q) (open_nest q) m" for q and m :: "clj_result outcome"
    using that(2) by (rule post_mono) (auto intro: closes_trans open_trans balanced_open that(1))
  consider "c = t" | m where "c \<noteq> t" "get_macro_reader c = Some m"
    | "c \<noteq> t" "get_macro_reader c = None" "c = WEOF"
    | "c \<noteq> t" "get_macro_reader c = None" "c \<noteq> WEOF"
    by fastforce
  then show ?case
  proof cases
    case 1
    with p b show ?thesis by (auto simp: closes_def)
  next
    case (2 m)
    have "post (closes ty r1) (open_nest r1)
        (bindR (call_reader n m c r1) (\<lambda>_ r2. delimited_loop n ty t r2))"
      by (rule rest) (use IH(3,4) [OF 2] d ty in auto)
    from lift [OF b this] 2 p show ?thesis by simp
  next
    case 3
    with p balanced_open [OF b] show ?thesis by simp
  next
    case 4
    have "post (closes ty r2) (open_nest r2)
        (bindR (read_form n r2) (\<lambda>_ r3. delimited_loop n ty t r3))"
      by (rule rest) (use IH(1,2) [OF 4] d ty in auto)
    from lift [OF b2 this] 4 p u show ?thesis by simp
  qed
qed auto

section \<open>More fuel changes nothing\<close>

lemma bindR_fuel_cong:
  assumes "bindR m f \<noteq> NoFuel" and "m \<noteq> NoFuel \<Longrightarrow> m' = m"
    and "\<And>x r. m = Ret x r \<Longrightarrow> f x r \<noteq> NoFuel \<Longrightarrow> f' x r = f x r"
  shows "bindR m' f' = bindR m f"
  using assms by (cases m) auto

declare read_form.simps [simp del] call_reader.simps [simp del] read_wrapped.simps [simp del]
  read_discard.simps [simp del] read_delimited.simps [simp del] delimited_loop.simps [simp del]

lemmas reader_zero [simp] = read_form.simps(1) call_reader.simps(1) read_wrapped.simps(1)
  read_discard.simps(1) read_delimited.simps(1) delimited_loop.simps(1)

lemma reader_fuel_Suc:
  "read_form n r \<noteq> NoFuel \<Longrightarrow> read_form (Suc n) r = read_form n r"
  "call_reader n m c r \<noteq> NoFuel \<Longrightarrow> call_reader (Suc n) m c r = call_reader n m c r"
  "read_wrapped n s r \<noteq> NoFuel \<Longrightarrow> read_wrapped (Suc n) s r = read_wrapped n s r"
  "read_discard n r \<noteq> NoFuel \<Longrightarrow> read_discard (Suc n) r = read_discard n r"
  "read_delimited n ty b t r \<noteq> NoFuel \<Longrightarrow> read_delimited (Suc n) ty b t r = read_delimited n ty b t r"
  "delimited_loop n ty t r \<noteq> NoFuel \<Longrightarrow> delimited_loop (Suc n) ty t r = delimited_loop n ty t r"
proof (induction n r and n m c r and n s r and n r and n ty b t r and n ty t r
    rule: reader_induct)
  case (2 n r)
  obtain c r1 where p: "skip_whitespace r = (c, r1)" by (cases "skip_whitespace r")
  show ?case using "2.IH" [OF p [symmetric] refl] "2.prems" p
    by (auto simp: read_form.simps(2) [of n] read_form.simps(2) [of "Suc n"] split: option.splits)
next
  case (4 n m c r)
  obtain d r1 where p: "pop_char r = (d, r1)" by (cases "pop_char r")
  show ?case using "4.IH" "4.prems" p
    by (cases m) (auto simp: call_reader.simps(2) [of n] call_reader.simps(2) [of "Suc n"]
        split: option.splits)
next
  case (6 n s r)
  then show ?case
    by (auto simp: read_wrapped.simps(2) intro!: bindR_fuel_cong)
next
  case (8 n r)
  then show ?case
    by (auto simp: read_discard.simps(2) intro!: bindR_fuel_cong)
next
  case (10 n ty b t r)
  then show ?case by (simp add: read_delimited.simps(2) Let_def)
next
  case (12 n ty t r)
  obtain c r1 where p: "skip_whitespace r = (c, r1)" by (cases "skip_whitespace r")
  note IH = "12.IH" [OF p [symmetric] refl]
  note u = delimited_loop.simps(2) [of n ty t r] delimited_loop.simps(2) [of "Suc n" ty t r]
  consider "c = t" | m where "c \<noteq> t" "get_macro_reader c = Some m"
    | "c \<noteq> t" "get_macro_reader c = None" "c = WEOF"
    | "c \<noteq> t" "get_macro_reader c = None" "c \<noteq> WEOF"
    by fastforce
  then show ?case
  proof cases
    case (2 m)
    have "bindR (call_reader (Suc n) m c r1) (\<lambda>_ r2. delimited_loop (Suc n) ty t r2) =
        bindR (call_reader n m c r1) (\<lambda>_ r2. delimited_loop n ty t r2)"
      using "12.prems" 2 p
      by (intro bindR_fuel_cong IH(3,4) [OF 2]) (auto simp: u)
    with 2 p show ?thesis by (simp add: u)
  next
    case 4
    have "bindR (push_char c r1)
            (\<lambda>_ r2. bindR (read_form (Suc n) r2) (\<lambda>_ r3. delimited_loop (Suc n) ty t r3)) =
          bindR (push_char c r1)
            (\<lambda>_ r2. bindR (read_form n r2) (\<lambda>_ r3. delimited_loop n ty t r3))"
      using "12.prems" 4 p
      by (intro bindR_fuel_cong IH(1,2) [OF 4]) (auto simp: u)
    with 4 p show ?thesis by (simp add: u)
  qed (use p in \<open>auto simp: u\<close>)
qed auto

lemma read_form_fuel_mono:
  "read_form n r \<noteq> NoFuel \<Longrightarrow> n \<le> k \<Longrightarrow> read_form k r = read_form n r"
proof (induction k)
  case (Suc k)
  then show ?case by (cases "n = Suc k") (auto simp: reader_fuel_Suc(1))
qed auto

text \<open>Any fuel with which \<open>read_form\<close> does not run out gives the result of \<open>clj_read\<close>.\<close>

lemma read_form_fuel_unique:
  assumes "read_form n r \<noteq> NoFuel"
  shows "read_form (read_fuel r) r = read_form n r"
proof -
  have "read_form (read_fuel r) r \<noteq> NoFuel"
    by (rule reader_enough_fuel(1)) (simp add: read_fuel_def)
  then show ?thesis
    using read_form_fuel_mono [of _ r "max n (read_fuel r)"] assms by (metis max.cobounded1 max.cobounded2)
qed

section \<open>Results\<close>

text \<open>A return carries \<open>CLJ_EOF\<close> or \<open>CLJ_MORE\<close>; a \<open>longjmp\<close> carries an error code.\<close>

fun res_ok :: "clj_result outcome \<Rightarrow> bool" where
  "res_ok (Ret x r) = (\<not> clj_is_error x)"
| "res_ok (Fail e r) = clj_is_error e"
| "res_ok (Abort a) = True"
| "res_ok NoFuel = True"

lemma clj_is_error_simps [simp]:
  "\<not> clj_is_error CLJ_EOF" "\<not> clj_is_error CLJ_MORE" "clj_is_error CLJ_UNEXPECTED_EOF"
  "clj_is_error CLJ_UNMATCHED_DELIMITER" "clj_is_error CLJ_NOT_IMPLEMENTED"
  "clj_is_error CLJ_UNREADABLE"
  by (simp_all add: clj_is_error_def)

lemma ok_read_not_error [simp]: "\<not> clj_is_error (ok_read c)"
  by (simp add: ok_read_def)

lemma res_ok_bind: "res_ok m \<Longrightarrow> (\<And>x r. m = Ret x r \<Longrightarrow> res_ok (f x r)) \<Longrightarrow> res_ok (bindR m f)"
  by (cases m) auto

lemma push_char_no_fail: "push_char c r \<noteq> Fail e s"
  by (simp add: push_char_def Let_def)

lemma at_number_no_fail: "at_number c r \<noteq> Fail e s"
  by (auto simp: at_number_def peek_char_def push_char_def Let_def split: prod.splits)

lemma res_ok_push: "(\<And>x r. res_ok (f x r)) \<Longrightarrow> res_ok (bindR (push_char c q) f)"
  by (cases "push_char c q") (auto simp: push_char_no_fail)

lemma res_ok_at_number: "(\<And>x r. res_ok (f x r)) \<Longrightarrow> res_ok (bindR (at_number c q) f)"
  by (cases "at_number c q") (auto simp: at_number_no_fail)

lemma res_ok_string [simp]: "res_ok (read_string_loop ty sb e r)"
proof (induction ty sb e r rule: read_string_loop.induct)
  case (1 ty sb e r)
  obtain c r1 where p: "pop_char r = (c, r1)" by (cases "pop_char r")
  show ?case using "1.IH" [OF p [symmetric]] p
    by (subst read_string_loop.simps) (auto simp: Let_def)
qed

lemma res_ok_token [simp]: "res_ok (read_token_loop ty t sb r)"
proof (induction ty t sb r rule: read_token_loop.induct)
  case (1 ty t sb r)
  obtain c r1 where p: "pop_char r = (c, r1)" by (cases "pop_char r")
  show ?case using "1.IH" [OF p [symmetric]] p
    by (subst read_token_loop.simps) (auto intro: res_ok_push)
qed

lemma res_ok_comment [simp]: "res_ok (read_comment r)"
proof (induction r rule: read_comment.induct)
  case (1 r)
  obtain c r1 where p: "pop_char r = (c, r1)" by (cases "pop_char r")
  show ?case using "1.IH" [OF p [symmetric]] p by (subst read_comment.simps) auto
qed

lemma reader_res_ok:
  "res_ok (read_form n r)" "res_ok (call_reader n m c r)" "res_ok (read_wrapped n s r)"
  "res_ok (read_discard n r)" "res_ok (read_delimited n ty b t r)" "res_ok (delimited_loop n ty t r)"
proof (induction n r and n m c r and n s r and n r and n ty b t r and n ty t r
    rule: reader_induct)
  case (2 n r)
  then show ?case
    by (auto simp: read_form.simps(2) token_reader_defs split: prod.splits option.splits
        intro!: res_ok_at_number)
next
  case (4 n m c r)
  then show ?case
    by (cases m) (auto simp: call_reader.simps(2) token_reader_defs split: prod.splits option.splits)
next
  case (6 n s r)
  then show ?case
    by (cases "read_form n (emit CLJ_SYMBOL s (emit CLJ_LIST [40] r))")
       (simp_all add: read_wrapped.simps(2))
next
  case (8 n r)
  then show ?case
    by (cases "read_form n (r\<lparr>rdiscard := rdiscard r + 1\<rparr>)") (simp_all add: read_discard.simps(2))
next
  case (12 n ty t r)
  then show ?case
    by (auto simp: delimited_loop.simps(2) split: prod.splits option.splits
        intro!: res_ok_bind res_ok_push)
qed (auto simp: read_delimited.simps(2) Let_def)

end
