(* ===== verification/Edn_Roundtrip.thy ===== *)
theory Edn_Roundtrip
  imports Edn
begin

text \<open>
  The reader inverts a printer: an EDN form written out and followed by a space is read back
  as the nodes of that form. Tokens are given by their characters, strings by the characters
  between the quotes (escapes included), collections by their elements, each followed by a
  space. The last theorem is about tokens that a delimiter follows directly: the delimiter,
  pushed back at the end of the token, is dropped by the next \<open>clj_read\<close>.
\<close>

section \<open>Forms, their text and their nodes\<close>

datatype coll = CList | CVector | CMap | CSet

datatype edn =
    EKeyword wstr | ESymbol wint wstr | ENumber wint wstr | EString wstr | EColl coll "edn list"

fun coll_open :: "coll \<Rightarrow> wstr" where
  "coll_open CList = [40]"
| "coll_open CVector = [91]"
| "coll_open CMap = [123]"
| "coll_open CSet = [35, 123]"

fun coll_close :: "coll \<Rightarrow> wint" where
  "coll_close CList = 41"
| "coll_close CVector = 93"
| "coll_close CMap = 125"
| "coll_close CSet = 125"

fun coll_type :: "coll \<Rightarrow> clj_type" where
  "coll_type CList = CLJ_LIST"
| "coll_type CVector = CLJ_VECTOR"
| "coll_type CMap = CLJ_MAP"
| "coll_type CSet = CLJ_SET"

fun print_edn :: "edn \<Rightarrow> wstr" where
  "print_edn (EKeyword s) = 58 # s"
| "print_edn (ESymbol c s) = c # s"
| "print_edn (ENumber c s) = c # s"
| "print_edn (EString s) = 34 # s @ [34]"
| "print_edn (EColl k fs) = coll_open k @ concat (map (\<lambda>f. print_edn f @ [32]) fs) @ [coll_close k]"

abbreviation nd :: "clj_type \<Rightarrow> wstr \<Rightarrow> clj_node" where
  "nd ty v \<equiv> \<lparr>ntype = ty, nvalue = v\<rparr>"

fun edn_nodes :: "edn \<Rightarrow> clj_node list" where
  "edn_nodes (EKeyword s) = [nd CLJ_KEYWORD (58 # s)]"
| "edn_nodes (ESymbol c s) = [nd CLJ_SYMBOL (c # s)]"
| "edn_nodes (ENumber c s) = [nd CLJ_NUMBER (c # s)]"
| "edn_nodes (EString s) = [nd CLJ_STRING (34 # s @ [34])]"
| "edn_nodes (EColl k fs) = nd (coll_type k) (coll_open k) # concat (map edn_nodes fs) @
     [nd (coll_type k OR CLJ_END) [coll_close k]]"

definition token_char :: "(wint \<Rightarrow> bool) \<Rightarrow> wint \<Rightarrow> bool" where
  "token_char terminates c \<longleftrightarrow> c \<noteq> 0 \<and> c \<noteq> WEOF \<and> \<not> is_clj_whitespace c \<and> \<not> terminates c"

fun string_ok :: "bool \<Rightarrow> wstr \<Rightarrow> bool" where
  "string_ok escape [] = (\<not> escape)"
| "string_ok escape (c # cs) =
     (c \<noteq> 0 \<and> c \<noteq> WEOF \<and>
      (if c = 92 then string_ok (\<not> escape) cs
       else if c = 34 then escape \<and> string_ok False cs else string_ok False cs))"

fun starts_digit :: "wstr \<Rightarrow> bool" where
  "starts_digit [] = False"
| "starts_digit (c # cs) = iswdigit c"

fun edn_ok :: "edn \<Rightarrow> bool" where
  "edn_ok (EKeyword s) = list_all (token_char is_macro_terminating) s"
| "edn_ok (ESymbol c s) =
     (token_char (\<lambda>c. get_macro_reader c \<noteq> None) c \<and> \<not> iswdigit c \<and>
      \<not> (is_sign c \<and> starts_digit s) \<and> list_all (token_char is_macro_terminating) s)"
| "edn_ok (ENumber c s) =
     ((iswdigit c \<or> is_sign c \<and> starts_digit s) \<and>
      list_all (token_char (\<lambda>c. get_macro_reader c \<noteq> None)) s)"
| "edn_ok (EString s) = string_ok False s"
| "edn_ok (EColl k fs) = list_all edn_ok fs"

section \<open>What a read gives\<close>

definition gives :: "reader \<Rightarrow> clj_result outcome \<Rightarrow> clj_node list \<Rightarrow> wstr \<Rightarrow> int \<Rightarrow> bool" where
  "gives r m ns s d \<longleftrightarrow> (\<exists>r'. m = Ret CLJ_MORE r' \<and> stream r' = s \<and>
     remitted r' = remitted r @ ns \<and> rdepth r' = rdepth r + d \<and> rdiscard r' = 0)"

definition moved :: "reader \<Rightarrow> reader \<Rightarrow> wstr \<Rightarrow> bool" where
  "moved r r' s \<longleftrightarrow> stream r' = s \<and> remitted r' = remitted r \<and> rdepth r' = rdepth r \<and>
     rdiscard r' = rdiscard r"

lemma pop_stream:
  assumes "stream r = c # s"
  obtains r1 where "pop_char r = (c, r1)" "moved r r1 s" "readback r1 = 0"
proof -
  obtain d r1 where p: "pop_char r = (d, r1)" by (cases "pop_char r")
  from pop_char_facts [OF p] assms have "d = c" "moved r r1 s" "readback r1 = 0"
    by (auto simp: moved_def)
  with p that show ?thesis by blast
qed

lemma push_stream:
  assumes "readback r = 0" "c \<noteq> 0"
  obtains r1 where "push_char c r = Ret () r1" "moved r r1 (c # stream r)" "readback r1 = c"
    "rsrc r1 = rsrc r"
  using assms by (auto simp: push_char_def Let_def moved_def stream_def)

lemma moved_trans: "moved r s u \<Longrightarrow> moved s t v \<Longrightarrow> moved r t v"
  by (simp add: moved_def)

lemma gives_moved: "moved r s u \<Longrightarrow> gives s m ns v d \<Longrightarrow> gives r m ns v d"
  by (simp add: gives_def moved_def)

lemma skip_stream:
  assumes "stream r = w @ c # s" "list_all is_clj_whitespace w" "\<not> is_clj_whitespace c"
  shows "\<exists>r1. skip_whitespace r = (c, r1) \<and> moved r r1 s \<and> readback r1 = 0"
  using assms
proof (induction w arbitrary: r)
  case Nil
  obtain r1 where "pop_char r = (c, r1)" "moved r r1 s" "readback r1 = 0"
    by (rule pop_stream) (use Nil in simp)
  with Nil show ?case by (subst skip_whitespace.simps) simp
next
  case (Cons x w)
  obtain r1 where p: "pop_char r = (x, r1)" "moved r r1 (w @ c # s)" "readback r1 = 0"
    by (rule pop_stream) (use Cons.prems in simp)
  with Cons.IH [of r1] Cons.prems obtain r2
    where "skip_whitespace r1 = (c, r2)" "moved r1 r2 s" "readback r2 = 0"
    by (auto simp: moved_def)
  with p Cons.prems show ?case by (subst skip_whitespace.simps) (auto intro: moved_trans)
qed

section \<open>Leaves\<close>

lemma token_stream:
  assumes "stream r = s @ d # rest" "list_all (token_char t) s" "strbuf_ok sb"
    "0 \<notin> set (strbuf_str sb)" "d \<noteq> 0" "d \<noteq> WEOF" "is_clj_whitespace d \<or> t d"
  shows "\<exists>r'. read_token_loop ty t sb r = Ret CLJ_MORE (emit ty (strbuf_str sb @ s) r') \<and>
    moved r r' (d # rest) \<and> readback r' = d \<and> rsrc r' = rest"
  using assms
proof (induction s arbitrary: r sb)
  case Nil
  obtain r1 where p: "pop_char r = (d, r1)" "moved r r1 rest" "readback r1 = 0"
    by (rule pop_stream) (use Nil in simp)
  obtain r2 where u: "push_char d r1 = Ret () r2" "moved r1 r2 (d # stream r1)" "readback r2 = d"
    "rsrc r2 = rsrc r1"
    by (rule push_stream [OF p(3)]) (use Nil in simp)
  have "rsrc r1 = rest" using p(2,3) by (simp add: moved_def stream_def)
  then show ?case using p u Nil strbuf_wcs [of sb]
    by (intro exI [of _ r2])
       (subst read_token_loop.simps, auto simp: ok_read_def moved_def stream_def)
next
  case (Cons x s)
  obtain r1 where p: "pop_char r = (x, r1)" "moved r r1 (s @ d # rest)" "readback r1 = 0"
    by (rule pop_stream) (use Cons.prems in simp)
  have x: "x \<noteq> 0" "x \<noteq> WEOF" "\<not> is_clj_whitespace x" "\<not> t x"
    using Cons.prems by (simp_all add: token_char_def)
  have "\<exists>r'. read_token_loop ty t (strbuf_append sb x) r1 =
      Ret CLJ_MORE (emit ty (strbuf_str (strbuf_append sb x) @ s) r') \<and>
      moved r1 r' (d # rest) \<and> readback r' = d \<and> rsrc r' = rest"
    by (rule Cons.IH)
       (use Cons.prems p x in \<open>auto simp: moved_def strbuf_append_ok strbuf_append_str\<close>)
  then show ?case using p x Cons.prems(3)
    by (subst read_token_loop.simps) (auto simp: strbuf_append_str intro: moved_trans)
qed

lemma token_init: "0 < n \<Longrightarrow> strbuf_ok (strbuf_append (strbuf_init n) c)"
  "0 < n \<Longrightarrow> strbuf_str (strbuf_append (strbuf_init n) c) = [c]"
  by (simp_all add: strbuf_append_ok strbuf_append_str strbuf_init_ok)

lemma read_token_stream:
  assumes "stream r = s @ d # rest" "list_all (token_char t) s" "c \<noteq> 0" "0 < n"
    "d \<noteq> 0" "d \<noteq> WEOF" "is_clj_whitespace d \<or> t d"
  shows "\<exists>r'. read_token ty c n t r = Ret CLJ_MORE (emit ty (c # s) r') \<and>
    moved r r' (d # rest) \<and> readback r' = d \<and> rsrc r' = rest"
  using token_stream [OF assms(1,2) token_init(1) [OF assms(4)], of c ty] assms
  by (simp add: token_init read_token_def)

lemma stream_emit [simp]: "stream (emit ty v r) = stream r"
  by (simp add: emit_def stream_def)

lemma gives_emit:
  "moved r r' s \<Longrightarrow> rdiscard r = 0 \<Longrightarrow> gives r (Ret CLJ_MORE (emit ty v r')) [nd ty v] s 0"
  by (auto simp: gives_def moved_def)

lemma string_stream:
  assumes "stream r = s @ 34 # rest" "string_ok escape s" "strbuf_ok sb"
    "0 \<notin> set (strbuf_str sb)"
  shows "\<exists>r'. read_string_loop ty sb escape r = Ret CLJ_MORE (emit ty (strbuf_str sb @ s @ [34]) r') \<and>
    moved r r' rest"
  using assms
proof (induction s arbitrary: r sb escape)
  case Nil
  obtain r1 where p: "pop_char r = (34, r1)" "moved r r1 rest" "readback r1 = 0"
    by (rule pop_stream) (use Nil in simp)
  have "wcs (sb_chars (strbuf_append sb 34)) = strbuf_str sb @ [34]"
    using Nil by (subst strbuf_wcs) (auto simp: strbuf_append_ok strbuf_append_str)
  with p Nil show ?case by (subst read_string_loop.simps) auto
next
  case (Cons x s)
  obtain r1 where p: "pop_char r = (x, r1)" "moved r r1 (s @ 34 # rest)" "readback r1 = 0"
    by (rule pop_stream) (use Cons.prems in simp)
  have x: "x \<noteq> 0" "x \<noteq> WEOF" using Cons.prems by simp_all
  have IH: "\<exists>r'. read_string_loop ty (strbuf_append sb x) e r1 =
      Ret CLJ_MORE (emit ty (strbuf_str sb @ x # s @ [34]) r') \<and> moved r1 r' rest"
    if "string_ok e s" for e
    using Cons.IH [of r1 e "strbuf_append sb x"] Cons.prems p x that
    by (auto simp: moved_def strbuf_append_ok strbuf_append_str)
  consider "x = 92" "string_ok (\<not> escape) s" | "x = 34" "escape" "string_ok False s"
    | "x \<noteq> 92" "x \<noteq> 34" "string_ok False s"
    using Cons.prems(2) by (auto split: if_splits)
  then have "\<exists>e. string_ok e s \<and>
      read_string_loop ty sb escape r = read_string_loop ty (strbuf_append sb x) e r1"
    by cases (use p x in \<open>auto simp: read_string_loop.simps [of ty sb _ r]\<close>)
  then obtain e where e: "string_ok e s"
      "read_string_loop ty sb escape r = read_string_loop ty (strbuf_append sb x) e r1"
    by blast
  with IH [OF e(1)] p(2) show ?case by (auto intro: moved_trans)
qed


lemmas gives_emit_moved = gives_emit [OF moved_trans]

section \<open>Forms\<close>

lemma recursive_mono:
  "read_form n r \<noteq> NoFuel \<Longrightarrow> n \<le> k \<Longrightarrow> read_form k r = read_form n r"
  "call_reader n m c r \<noteq> NoFuel \<Longrightarrow> n \<le> k \<Longrightarrow> call_reader k m c r = call_reader n m c r"
  "delimited_loop n ty t r \<noteq> NoFuel \<Longrightarrow> n \<le> k \<Longrightarrow> delimited_loop k ty t r = delimited_loop n ty t r"
proof (induction k)
  case (Suc k)
  { case 1 with Suc(1) show ?case by (cases "n = Suc k") (auto simp: reader_fuel_Suc(1)) }
  { case 2 with Suc(2) show ?case by (cases "n = Suc k") (auto simp: reader_fuel_Suc(2)) }
  { case 3 with Suc(3) show ?case by (cases "n = Suc k") (auto simp: reader_fuel_Suc(6)) }
qed auto

lemma gives_no_fuel: "gives r m ns s d \<Longrightarrow> m \<noteq> NoFuel"
  by (auto simp: gives_def)

text \<open>\<open>reads f\<close>: \<open>f\<close> followed by a space is read, whatever whitespace stands before it.\<close>

definition reads :: "edn \<Rightarrow> bool" where
  "reads f \<longleftrightarrow> (\<forall>r w rest. stream r = w @ print_edn f @ 32 # rest \<longrightarrow>
     list_all is_clj_whitespace w \<longrightarrow> rdiscard r = 0 \<longrightarrow>
     (\<exists>n. gives r (read_form n r) (edn_nodes f) (32 # rest) 0))"

lemma loop_close:
  assumes "stream r = w @ t # rest" "list_all is_clj_whitespace w" "\<not> is_clj_whitespace t"
    "rdiscard r = 0"
  shows "gives r (delimited_loop (Suc n) ty t r) [nd (ty OR CLJ_END) [t]] rest (- 1)"
proof -
  obtain r1 where "skip_whitespace r = (t, r1)" "moved r r1 rest"
    using skip_stream [OF assms(1-3)] by blast
  with assms(4) show ?thesis
    by (auto simp: delimited_loop.simps(2) gives_def moved_def emit_def stream_def)
qed

text \<open>How a form starts decides how the loop of a collection gets to it.\<close>

lemma macro_closers: "get_macro_reader 41 \<noteq> None" "get_macro_reader 93 \<noteq> None"
  "get_macro_reader 125 \<noteq> None"
  by (simp_all add: get_macro_reader_def)

lemma first_char:
  assumes "edn_ok f"
  shows "\<exists>c s. print_edn f = c # s \<and> c \<notin> {9, 10, 11, 12, 13, 32, 44, WEOF, 0, 41, 93, 125}"
proof (cases f)
  case (ESymbol c s)
  with assms macro_closers show ?thesis
    by (auto simp: token_char_def is_clj_whitespace_def iswspace_def)
next
  case (ENumber c s)
  with assms show ?thesis by (auto simp: iswdigit_def is_sign_def)
next
  case (EColl k fs)
  then show ?thesis by (cases k) auto
qed auto

lemma print_edn_start:
  assumes "edn_ok f"
  obtains c s where "print_edn f = c # s" "\<not> is_clj_whitespace c" "c \<noteq> WEOF" "c \<noteq> 0"
    "c \<noteq> coll_close k"
proof -
  obtain c s where c: "print_edn f = c # s"
      "c \<notin> {9, 10, 11, 12, 13, 32, 44, WEOF, 0, 41, 93, 125}"
    using first_char [OF assms] by blast
  moreover have "coll_close k \<in> {41, 93, 125}" by (cases k) auto
  ultimately show ?thesis
    by (intro that [of c s]) (auto simp: is_clj_whitespace_def iswspace_def)
qed

lemma readsD:
  "reads f \<Longrightarrow> stream r = w @ print_edn f @ 32 # rest \<Longrightarrow> list_all is_clj_whitespace w \<Longrightarrow>
   rdiscard r = 0 \<Longrightarrow> \<exists>n. gives r (read_form n r) (edn_nodes f) (32 # rest) 0"
  unfolding reads_def by blast

lemma loop_step:
  assumes "reads f" "edn_ok f" "stream r = w @ print_edn f @ 32 # rest"
    "list_all is_clj_whitespace w" "rdiscard r = 0"
    and loop: "\<And>r'. stream r' = 32 # rest \<Longrightarrow> rdiscard r' = 0 \<Longrightarrow>
      \<exists>n. gives r' (delimited_loop n ty (coll_close k) r') ns out (- 1)"
  shows "\<exists>n. gives r (delimited_loop n ty (coll_close k) r) (edn_nodes f @ ns) out (- 1)"
proof -
  obtain c s where c: "print_edn f = c # s" "\<not> is_clj_whitespace c" "c \<noteq> WEOF" "c \<noteq> 0"
      "c \<noteq> coll_close k"
    using print_edn_start [OF assms(2)] by metis
  obtain r1 where r1: "skip_whitespace r = (c, r1)" "moved r r1 (s @ 32 # rest)" "readback r1 = 0"
    using skip_stream [of r w c "s @ 32 # rest"] assms(3,4) c by auto
  have finish: ?thesis
    if body: "gives r body (edn_nodes f) (32 # rest) 0"
      and eq: "\<And>k'. delimited_loop (Suc (max n k')) ty (coll_close k) r =
        bindR body (\<lambda>_ r3. delimited_loop (max n k') ty (coll_close k) r3)"
    for body n
  proof -
    obtain r3 where r3: "body = Ret CLJ_MORE r3" "stream r3 = 32 # rest" "rdiscard r3 = 0"
        "remitted r3 = remitted r @ edn_nodes f" "rdepth r3 = rdepth r"
      using body by (auto simp: gives_def)
    obtain j where j: "gives r3 (delimited_loop j ty (coll_close k) r3) ns out (- 1)"
      using loop [OF r3(2,3)] by blast
    then have "delimited_loop (max n j) ty (coll_close k) r3 = delimited_loop j ty (coll_close k) r3"
      by (intro recursive_mono(3) gives_no_fuel) auto
    with j r3 have "gives r (delimited_loop (Suc (max n j)) ty (coll_close k) r)
        (edn_nodes f @ ns) out (- 1)"
      by (auto simp: eq gives_def)
    then show ?thesis by blast
  qed
  show ?thesis
  proof (cases "get_macro_reader c")
    case (Some m)
    obtain n where n: "gives r (read_form n r) (edn_nodes f) (32 # rest) 0"
      using readsD [OF assms(1,3,4,5)] by blast
    then obtain n' where n': "n = Suc n'" by (cases n) (auto simp: gives_def)
    with n r1 c Some have body: "gives r (call_reader n' m c r1) (edn_nodes f) (32 # rest) 0"
      by (simp add: read_form.simps(2))
    show ?thesis
    proof (rule finish [OF body])
      fix k'
      have "call_reader (max n' k') m c r1 = call_reader n' m c r1"
        using gives_no_fuel [OF body] by (intro recursive_mono(2)) auto
      then show "delimited_loop (Suc (max n' k')) ty (coll_close k) r =
          bindR (call_reader n' m c r1) (\<lambda>_ r3. delimited_loop (max n' k') ty (coll_close k) r3)"
        using r1 c Some by (simp add: delimited_loop.simps(2))
    qed
  next
    case None
    obtain r2 where r2: "push_char c r1 = Ret () r2" "moved r1 r2 (c # stream r1)"
      by (rule push_stream [OF r1(3) c(4)])
    have m: "moved r r2 (c # s @ 32 # rest)" using r1 r2 by (simp add: moved_def)
    then obtain n where n: "gives r2 (read_form n r2) (edn_nodes f) (32 # rest) 0"
      using readsD [OF assms(1), of r2 "[]" rest] assms(5) c by (auto simp: moved_def)
    note body = gives_moved [OF m n]
    show ?thesis
    proof (rule finish [OF body])
      fix k'
      have "read_form (max n k') r2 = read_form n r2"
        using gives_no_fuel [OF body] by (intro recursive_mono(1)) auto
      then show "delimited_loop (Suc (max n k')) ty (coll_close k) r =
          bindR (read_form n r2) (\<lambda>_ r3. delimited_loop (max n k') ty (coll_close k) r3)"
        using r1 r2 c None by (simp add: delimited_loop.simps(2))
    qed
  qed
qed

lemma loop_reads:
  assumes "list_all (\<lambda>f. reads f \<and> edn_ok f) fs"
    "stream r = w @ concat (map (\<lambda>f. print_edn f @ [32]) fs) @ coll_close k # rest"
    "list_all is_clj_whitespace w" "rdiscard r = 0"
  shows "\<exists>n. gives r (delimited_loop n ty (coll_close k) r)
    (concat (map edn_nodes fs) @ [nd (ty OR CLJ_END) [coll_close k]]) rest (- 1)"
  using assms
proof (induction fs arbitrary: r w)
  case Nil
  have "\<not> is_clj_whitespace (coll_close k)" by (cases k) (simp_all add: char_class_defs)
  with Nil show ?case by (auto intro!: exI [of _ "Suc 0"] loop_close)
next
  case (Cons f fs)
  have "\<exists>n. gives r' (delimited_loop n ty (coll_close k) r')
      (concat (map edn_nodes fs) @ [nd (ty OR CLJ_END) [coll_close k]]) rest (- 1)"
    if "stream r' = 32 # concat (map (\<lambda>f. print_edn f @ [32]) fs) @ coll_close k # rest"
      "rdiscard r' = 0" for r'
    using Cons.IH [of r' "[32]"] Cons.prems that by (simp add: char_class_defs)
  with Cons.prems loop_step [of f r w
      "concat (map (\<lambda>f. print_edn f @ [32]) fs) @ coll_close k # rest" ty k]
  show ?case by auto
qed


lemma read_form_start:
  assumes "stream r = w @ c # s" "list_all is_clj_whitespace w" "\<not> is_clj_whitespace c" "c \<noteq> WEOF"
  obtains r1 where "moved r r1 s" "readback r1 = 0"
    "\<And>n. read_form (Suc n) r = (case get_macro_reader c of
        Some m \<Rightarrow> call_reader n m c r1
      | None \<Rightarrow> bindR (at_number c r1)
          (\<lambda>num r2. if num then read_number c r2 else read_symbol c r2))"
  using skip_stream [OF assms(1-3)] assms(4) by (force simp: read_form.simps(2))

lemma at_number_stream:
  assumes "stream r = s @ 32 # rest" "readback r = 0" "0 \<notin> set s"
  shows "\<exists>r'. at_number c r = Ret (iswdigit c \<or> is_sign c \<and> starts_digit s) r' \<and> moved r r' (stream r)"
proof (cases "iswdigit c \<or> \<not> is_sign c")
  case True
  then show ?thesis by (auto simp: at_number_def moved_def)
next
  case False
  obtain d t where d: "stream r = d # t" "d \<noteq> 0" "iswdigit d = starts_digit s"
    using assms by (cases s) (auto simp: iswdigit_def)
  obtain r1 where r1: "pop_char r = (d, r1)" "moved r r1 t" "readback r1 = 0"
    by (rule pop_stream [OF d(1)])
  obtain r2 where "push_char d r1 = Ret () r2" "moved r1 r2 (d # stream r1)"
    by (rule push_stream [OF r1(3) d(2)])
  with False d r1 show ?thesis by (auto simp: at_number_def peek_char_def moved_def)
qed

lemma token_chars_nonzero: "list_all (token_char t) s \<Longrightarrow> 0 \<notin> set s"
  by (auto simp: list_all_iff token_char_def)

lemma reads_token:
  assumes "get_macro_reader c = None" "c \<noteq> 0" "c \<noteq> WEOF" "\<not> is_clj_whitespace c"
    "list_all (token_char (if num then \<lambda>c. get_macro_reader c \<noteq> None else is_macro_terminating)) s"
    "num = (iswdigit c \<or> is_sign c \<and> starts_digit s)"
    "stream r = w @ c # s @ 32 # rest" "list_all is_clj_whitespace w" "rdiscard r = 0"
  shows "gives r (read_form (Suc n) r)
    [nd (if num then CLJ_NUMBER else CLJ_SYMBOL) (c # s)] (32 # rest) 0"
proof -
  obtain r1 where r1': "moved r r1 (s @ 32 # rest)" "readback r1 = 0"
      "\<And>n. read_form (Suc n) r = (case get_macro_reader c of
        Some m \<Rightarrow> call_reader n m c r1
      | None \<Rightarrow> bindR (at_number c r1)
          (\<lambda>num r2. if num then read_number c r2 else read_symbol c r2))"
    by (rule read_form_start [OF assms(7,8,4,3)]) (rule that)
  note r1 = r1'(1,2) r1'(3) [unfolded assms(1) option.case]
  have st: "stream r1 = s @ 32 # rest" using r1(1) by (simp add: moved_def)
  obtain r2 where r2': "at_number c r1 = Ret num r2" "moved r1 r2 (stream r1)"
    using at_number_stream [OF st r1(2) token_chars_nonzero [OF assms(5)], of c]
    unfolding assms(6) [symmetric] by blast
  have r2: "at_number c r1 = Ret num r2" "moved r r2 (s @ 32 # rest)"
    using r2' moved_trans [OF r1(1)] st by auto
  define t where "t = (if num then \<lambda>c. get_macro_reader c \<noteq> None else is_macro_terminating)"
  have tok: "\<exists>r'. read_token ty c k t r2 = Ret CLJ_MORE (emit ty (c # s) r') \<and>
      moved r2 r' (32 # rest) \<and> readback r' = 32 \<and> rsrc r' = rest" if "0 < k" for ty k
    by (rule read_token_stream) (use that r2 assms in \<open>simp_all add: moved_def t_def char_class_defs\<close>)
  show ?thesis
  proof (cases num)
    case True
    obtain r3 where "read_number c r2 = Ret CLJ_MORE (emit CLJ_NUMBER (c # s) r3)"
        "moved r2 r3 (32 # rest)"
      using tok [of 20] True by (auto simp: read_number_def t_def)
    with r1 r2 True show ?thesis using assms(9) by (auto intro: gives_emit_moved)
  next
    case False
    obtain r3 where "read_symbol c r2 = Ret CLJ_MORE (emit CLJ_SYMBOL (c # s) r3)"
        "moved r2 r3 (32 # rest)"
      using tok [of 40] False by (auto simp: read_symbol_def t_def)
    with r1 r2 False show ?thesis using assms(9) by (auto intro: gives_emit_moved)
  qed
qed

lemma reads_keyword:
  assumes "list_all (token_char is_macro_terminating) s" "rdiscard r = 0"
    "stream r = w @ 58 # s @ 32 # rest" "list_all is_clj_whitespace w"
  shows "gives r (read_form (Suc (Suc n)) r) [nd CLJ_KEYWORD (58 # s)] (32 # rest) 0"
proof -
  obtain r1 where r1: "moved r r1 (s @ 32 # rest)"
      "\<And>n. read_form (Suc n) r = call_reader n Read_keyword 58 r1"
    using read_form_start [OF assms(3,4)]
    by (auto simp: char_class_defs get_macro_reader_def)
  have "\<exists>r'. read_token CLJ_KEYWORD 58 25 is_macro_terminating r1 =
        Ret CLJ_MORE (emit CLJ_KEYWORD (58 # s) r') \<and>
      moved r1 r' (32 # rest) \<and> readback r' = 32 \<and> rsrc r' = rest"
    by (rule read_token_stream) (use r1 assms in \<open>simp_all add: moved_def char_class_defs\<close>)
  with r1 assms(2) show ?thesis
    by (auto simp: call_reader.simps(2) read_keyword_def intro: gives_emit_moved)
qed

lemma reads_string:
  assumes "string_ok False s" "rdiscard r = 0"
    "stream r = w @ 34 # s @ 34 # 32 # rest" "list_all is_clj_whitespace w"
  shows "gives r (read_form (Suc (Suc n)) r) [nd CLJ_STRING (34 # s @ [34])] (32 # rest) 0"
proof -
  obtain r1 where r1: "moved r r1 (s @ 34 # 32 # rest)"
      "\<And>n. read_form (Suc n) r = call_reader n Read_string 34 r1"
    using read_form_start [OF assms(3,4)]
    by (auto simp: char_class_defs get_macro_reader_def)
  have sb: "strbuf_appends (strbuf_init 80) [34] = strbuf_append (strbuf_init 80) 34"
    by (simp add: strbuf_appends_def)
  have "\<exists>r'. read_string_loop CLJ_STRING (strbuf_append (strbuf_init 80) 34) False r1 =
        Ret CLJ_MORE (emit CLJ_STRING (strbuf_str (strbuf_append (strbuf_init 80) 34) @ s @ [34]) r') \<and>
      moved r1 r' (32 # rest)"
    by (rule string_stream) (use r1 assms in \<open>simp_all add: moved_def token_init\<close>)
  with r1 assms(2) show ?thesis
    by (auto simp: call_reader.simps(2) read_string_def read_typed_string_def sb token_init
        intro: gives_emit_moved)
qed


lemma reads_coll:
  assumes "\<And>f. f \<in> set fs \<Longrightarrow> reads f" "list_all edn_ok fs"
  shows "reads (EColl k fs)"
  unfolding reads_def
proof (intro allI impI)
  fix r w rest
  let ?body = "concat (map (\<lambda>f. print_edn f @ [32]) fs) @ coll_close k # 32 # rest"
  let ?ns = "concat (map edn_nodes fs) @ [nd (coll_type k OR CLJ_END) [coll_close k]]"
  let ?open0 = "\<lambda>q. (emit (coll_type k) (coll_open k) q)\<lparr>rdepth := rdepth q + 1\<rparr>"
  assume st: "stream r = w @ print_edn (EColl k fs) @ 32 # rest"
    and w: "list_all is_clj_whitespace w" and d: "rdiscard r = 0"
  have "\<exists>r1. moved r r1 ?body \<and> (\<forall>n. read_form (Suc (Suc (Suc (Suc n)))) r =
      delimited_loop (if k = CSet then n else Suc n) (coll_type k) (coll_close k) (?open0 r1))"
  proof (cases "k = CSet")
    case True
    obtain r1 where r1: "moved r r1 (123 # ?body)"
        "\<And>n. read_form (Suc n) r = call_reader n Read_dispatch 35 r1"
      by (rule read_form_start [of r w 35 "123 # ?body"])
         (use st w True in \<open>simp_all add: char_class_defs get_macro_reader_def\<close>)
    obtain r2 where "pop_char r1 = (123, r2)" "moved r1 r2 ?body"
      by (rule pop_stream [of r1 123 ?body]) (use r1 in \<open>simp_all add: moved_def\<close>)
    with r1 True show ?thesis
      by (intro exI [of _ r2])
         (auto simp: call_reader.simps(2) read_delimited.simps(2) get_dispatch_reader_def
           intro: moved_trans)
  next
    case False
    then obtain m c where m: "coll_open k = [c]" "get_macro_reader c = Some m"
        "\<not> is_clj_whitespace c" "c \<noteq> WEOF"
        "\<And>n q. call_reader (Suc n) m c q = read_delimited n (coll_type k) [c] (coll_close k) q"
      by (cases k) (auto simp: get_macro_reader_def char_class_defs call_reader.simps(2))
    obtain r1 where r1: "moved r r1 ?body" "\<And>n. read_form (Suc n) r = call_reader n m c r1"
      by (rule read_form_start [of r w c ?body]) (use st w m in simp_all)
    with m False show ?thesis
      by (intro exI [of _ r1]) (simp add: read_delimited.simps(2))
  qed
  then obtain r1 where r1: "moved r r1 ?body" "\<And>n. read_form (Suc (Suc (Suc (Suc n)))) r =
      delimited_loop (if k = CSet then n else Suc n) (coll_type k) (coll_close k) (?open0 r1)"
    by blast
  have "\<exists>n. gives (?open0 r1) (delimited_loop n (coll_type k) (coll_close k) (?open0 r1)) ?ns
      (32 # rest) (- 1)"
    by (rule loop_reads [where w = "[]"])
       (use assms r1 d in \<open>auto simp: list_all_iff moved_def emit_def stream_def\<close>)
  then obtain n where n: "gives (?open0 r1)
      (delimited_loop n (coll_type k) (coll_close k) (?open0 r1)) ?ns (32 # rest) (- 1)" ..
  then have "gives (?open0 r1)
      (delimited_loop (if k = CSet then n else Suc n) (coll_type k) (coll_close k) (?open0 r1))
      ?ns (32 # rest) (- 1)"
    using recursive_mono(3) [OF gives_no_fuel [OF n], of "Suc n"] by auto
  with r1 d have "gives r (read_form (Suc (Suc (Suc (Suc n)))) r) (edn_nodes (EColl k fs)) (32 # rest) 0"
    by (auto simp: gives_def moved_def)
  then show "\<exists>n. gives r (read_form n r) (edn_nodes (EColl k fs)) (32 # rest) 0" ..
qed

lemma edn_reads: "edn_ok f \<Longrightarrow> reads f"
proof (induction f)
  case (EKeyword s)
  then show ?case unfolding reads_def by (auto intro: exI reads_keyword)
next
  case (ESymbol c s)
  show ?case unfolding reads_def
  proof (intro allI impI exI)
    fix r w rest
    assume "stream r = w @ print_edn (ESymbol c s) @ 32 # rest" "list_all is_clj_whitespace w"
      "rdiscard r = 0"
    with ESymbol reads_token [where num = False and c = c and s = s and r = r and w = w
        and rest = rest and n = 0]
    show "gives r (read_form (Suc 0) r) (edn_nodes (ESymbol c s)) (32 # rest) 0"
      by (auto simp: token_char_def)
  qed
next
  case (ENumber c s)
  have c: "get_macro_reader c = None" "c \<noteq> 0" "c \<noteq> WEOF" "\<not> is_clj_whitespace c"
    using ENumber by (auto simp: get_macro_reader_def char_class_defs)
  show ?case unfolding reads_def
  proof (intro allI impI exI)
    fix r w rest
    assume "stream r = w @ print_edn (ENumber c s) @ 32 # rest" "list_all is_clj_whitespace w"
      "rdiscard r = 0"
    with ENumber c reads_token [where num = True and c = c and s = s and r = r and w = w
        and rest = rest and n = 0]
    show "gives r (read_form (Suc 0) r) (edn_nodes (ENumber c s)) (32 # rest) 0"
      by auto
  qed
next
  case (EString s)
  then show ?case unfolding reads_def by (auto intro: exI reads_string)
next
  case (EColl k fs)
  then show ?case by (intro reads_coll) (auto simp: list_all_iff)
qed

end
