(* ===== verification/Edn_Correct.thy ===== *)
theory Edn_Correct
  imports Edn_Roundtrip
begin

text \<open>
  The properties of the EDN reader: it always returns, never trips its pushback assertion,
  emits well-nested nodes, reports the line it has reached, and reads back what a printer of
  EDN data writes.
\<close>

section \<open>Totality, nesting, position\<close>

lemma clj_read_start_facts:
  "rdiscard (clj_read_start r) = 0" "rdepth (clj_read_start r) = 0" "rline (clj_read_start r) = 1"
  "remitted (clj_read_start r) = remitted r" "stream (clj_read_start r) = rsrc r"
  by (simp_all add: clj_read_start_def stream_def)

lemma clj_read_cases:
  obtains
    (ret) x r' where "read_form (read_fuel (clj_read_start r)) (clj_read_start r) = Ret x r'"
      "clj_read r = Ret x r'" "\<not> clj_is_error x"
  | (fail) e r' where "read_form (read_fuel (clj_read_start r)) (clj_read_start r) = Fail e r'"
      "clj_read r = Ret e r'" "clj_is_error e"
  | (abort) "clj_read r = Abort Assert_dispatch"
proof (cases "read_form (read_fuel (clj_read_start r)) (clj_read_start r)")
  case (Ret x r')
  then show ?thesis using reader_res_ok(1) [of _ "clj_read_start r"] ret
    by (simp add: clj_read_def) (metis res_ok.simps(1))
next
  case (Fail e r')
  then show ?thesis using reader_res_ok(1) [of _ "clj_read_start r"] fail
    by (simp add: clj_read_def) (metis res_ok.simps(2))
next
  case (Abort a)
  moreover have "a = Assert_dispatch"
    using Abort reader_no_pushback_abort(1) by (cases a) auto
  ultimately show ?thesis using abort by (simp add: clj_read_def)
next
  case NoFuel
  moreover have "read_form (read_fuel (clj_read_start r)) (clj_read_start r) \<noteq> NoFuel"
    by (rule reader_enough_fuel(1)) (simp add: read_fuel_def)
  ultimately show ?thesis by simp
qed

lemma clj_read_form_result:
  assumes "rsrc r = w @ print_edn f @ 32 # rest" "list_all is_clj_whitespace w" "edn_ok f"
  shows "\<exists>r'. clj_read r = Ret CLJ_MORE r' \<and> remitted r' = remitted r @ edn_nodes f \<and>
    stream r' = 32 # rest"
proof -
  let ?r = "clj_read_start r"
  obtain n where n: "gives ?r (read_form n ?r) (edn_nodes f) (32 # rest) 0"
    using readsD [OF edn_reads [OF assms(3)], of ?r w rest] assms
    by (auto simp: clj_read_start_facts)
  with read_form_fuel_unique [OF gives_no_fuel [OF n]] show ?thesis
    by (auto simp: clj_read_def gives_def clj_read_start_facts)
qed

text \<open>A concrete input, \<open>(:a 1 )\<close>, for the instances below.\<close>

definition sample_form :: edn where
  "sample_form = EColl CList [EKeyword [97], ENumber 49 []]"

definition sample_reader :: reader where
  "sample_reader = \<lparr>rsrc = print_edn sample_form @ [32], rline = 0, rcolumn = 0, rdepth = 0,
     rdiscard = 0, readback = 0, readback_column = 0, remitted = [], rlog = []\<rparr>"

lemma sample_text: "print_edn sample_form = [40, 58, 97, 32, 49, 32, 41]"
  by (simp add: sample_form_def)

lemma sample_ok: "edn_ok sample_form"
  by (simp add: sample_form_def token_char_def is_clj_whitespace_def iswspace_def
      is_macro_terminating_def get_macro_reader_def iswdigit_def)

lemma sample_read:
  "\<exists>r'. clj_read sample_reader = Ret CLJ_MORE r' \<and> remitted r' = edn_nodes sample_form"
  using clj_read_form_result [of sample_reader "[]" sample_form "[]"] sample_ok
  by (auto simp: sample_reader_def)

text \<open>
  C1. \<open>clj_read\<close> always returns: the fuel of the model is never used up, and the only
  assertion it can fail is the one for an unknown dispatch macro; the pushback assertion of
  \<open>push_char\<close> holds at every call.
\<close>

theorem clj_read_total:
  "(\<exists>result r'. clj_read r = Ret result r') \<or> clj_read r = Abort Assert_dispatch"
  by (cases rule: clj_read_cases [of r]) auto

text \<open>
  C2. The nodes that one \<open>clj_read\<close> hands to the \<open>emit\<close> callback are well nested: every end
  node carries the type of the begin node it closes, and no end node comes without its begin.
  When the result is not an error every begin node is closed, and the depth and the discard
  counter are back at 0; after an error the begin nodes still open are the enclosing forms.
\<close>

theorem clj_read_nested:
  assumes "clj_read r = Ret result r'"
  shows "\<exists>es opened. remitted r' = remitted r @ es \<and> nest es [] = Some opened \<and>
    (\<not> clj_is_error result \<longrightarrow> opened = [] \<and> rdepth r' = 0 \<and> rdiscard r' = 0)"
proof -
  note nested = reader_nested(1) [of "clj_read_start r" "read_fuel (clj_read_start r)"]
  show ?thesis
  proof (cases rule: clj_read_cases [of r])
    case (ret x s)
    with nested assms have "balanced (clj_read_start r) r'" "result = x"
      by (auto simp: clj_read_start_facts)
    then show ?thesis using ret by (auto simp: balanced_def clj_read_start_facts)
  next
    case (fail e s)
    with nested assms have "open_nest (clj_read_start r) r'" "result = e"
      by (auto simp: clj_read_start_facts)
    then obtain es st' where "remitted r' = remitted r @ es" "nest es [] = Some (st' @ [])"
      by (auto simp: open_nest_def clj_read_start_facts)
    with fail \<open>result = e\<close> show ?thesis by auto
  qed (use assms in simp)
qed

text \<open>
  C3. The line that \<open>clj_read_error\<close> reports: where the input holds no NUL, \<open>clj_read\<close>
  consumes a prefix of it, and its line number is 1 plus the line ends of that prefix. The
  character pushed back counts as not consumed.
\<close>

theorem clj_read_line:
  assumes "clj_read r = Ret result r'" "0 \<notin> set (rsrc r)" "WEOF \<notin> set (rsrc r)"
  shows "\<exists>consumed. rsrc r = consumed @ noeof (stream r') \<and> rline r' = 1 + line_ends consumed"
proof -
  have "line_le (clj_read_start r) r'"
    using lf.le_recursive_aux(1) [OF lf.le_refl, of "clj_read_start r" "read_fuel (clj_read_start r)"]
      assms(1) by (cases rule: clj_read_cases [of r]) auto
  moreover have "noeof (rsrc r) = rsrc r"
    using assms(3) by (auto simp: noeof_def filter_id_conv)
  ultimately show ?thesis
    using assms(2) by (auto simp: line_le_def clj_read_start_facts)
qed


lemma clj_read_nested_witness:
  "\<exists>r'. clj_read sample_reader = Ret CLJ_MORE r' \<and>
    (\<exists>es opened. remitted r' = remitted sample_reader @ es \<and> nest es [] = Some opened \<and>
      opened = [] \<and> rdepth r' = 0 \<and> rdiscard r' = 0)"
proof -
  obtain r' where r': "clj_read sample_reader = Ret CLJ_MORE r'" using sample_read by blast
  from clj_read_nested [OF r'] r' show ?thesis by simp
qed

lemma clj_read_line_witness:
  "\<exists>r'. clj_read sample_reader = Ret CLJ_MORE r' \<and>
    (\<exists>consumed. rsrc sample_reader = consumed @ noeof (stream r') \<and> rline r' = 1 + line_ends consumed)"
proof -
  obtain r' where r': "clj_read sample_reader = Ret CLJ_MORE r'" using sample_read by blast
  have "0 \<notin> set (rsrc sample_reader)" "WEOF \<notin> set (rsrc sample_reader)"
    by (simp_all add: sample_reader_def sample_text)
  from clj_read_line [OF r' this] r' show ?thesis by blast
qed

section \<open>Reading back what was printed\<close>

text \<open>
  C4. The reader inverts the printer: on whitespace, the text of a well-formed form, and a
  space, \<open>clj_read\<close> returns \<open>CLJ_MORE\<close>, has emitted exactly the nodes of the form, and has
  consumed exactly its text.
\<close>

theorem clj_read_roundtrip:
  assumes "rsrc r = w @ print_edn f @ 32 # rest" "list_all is_clj_whitespace w" "edn_ok f"
  shows "\<exists>r'. clj_read r = Ret CLJ_MORE r' \<and> remitted r' = remitted r @ edn_nodes f \<and>
    stream r' = 32 # rest"
  using assms by (rule clj_read_form_result)

lemma clj_read_roundtrip_witness:
  "\<exists>r'. clj_read sample_reader = Ret CLJ_MORE r' \<and>
    remitted r' = [nd CLJ_LIST [40], nd CLJ_KEYWORD [58, 97], nd CLJ_NUMBER [49],
      nd (CLJ_LIST OR CLJ_END) [41]] \<and> stream r' = [32]"
  using clj_read_roundtrip [of sample_reader "[]" sample_form "[]"] sample_ok
  by (auto simp: sample_reader_def sample_form_def)

text \<open>
  C5. The character that ends a token is pushed back, and \<open>clj_read\<close> starts by clearing the
  pushback, so between two calls it is lost. Where a symbol is followed directly by a
  delimiter \<open>d\<close>, the next \<open>clj_read\<close> starts after \<open>d\<close>: reading \<open>a(b)\<close> form by form gives
  \<open>a\<close>, \<open>b\<close> and an unmatched delimiter.
\<close>

theorem clj_read_drops_delimiter:
  assumes "rsrc r = c # s @ d # rest" "edn_ok (ESymbol c s)" "is_macro_terminating d" "\<not> is_sign c"
  shows "\<exists>r'. clj_read r = Ret CLJ_MORE r' \<and> remitted r' = remitted r @ [nd CLJ_SYMBOL (c # s)] \<and>
    readback r' = d \<and> stream (clj_read_start r') = rest"
proof -
  let ?r = "clj_read_start r"
  have c: "get_macro_reader c = None" "c \<noteq> 0" "c \<noteq> WEOF" "\<not> is_clj_whitespace c" "\<not> iswdigit c"
    and s: "list_all (token_char is_macro_terminating) s"
    using assms(2) by (auto simp: token_char_def)
  have d: "d \<noteq> 0" "d \<noteq> WEOF" "\<not> is_clj_whitespace d"
    using assms(3) by (auto simp: is_macro_terminating_def get_macro_reader_def
        is_clj_whitespace_def iswspace_def split: if_splits)
  obtain r1 where r1: "skip_whitespace ?r = (c, r1)" "moved ?r r1 (s @ d # rest)" "readback r1 = 0"
    using skip_stream [of ?r "[]" c "s @ d # rest"] assms(1) c by (auto simp: clj_read_start_facts)
  have num: "at_number c r1 = Ret False r1" using c assms(4) by (simp add: at_number_def)
  obtain r2 where r2: "read_token CLJ_SYMBOL c 40 is_macro_terminating r1 =
        Ret CLJ_MORE (emit CLJ_SYMBOL (c # s) r2)"
      "moved r1 r2 (d # rest)" "readback r2 = d" "rsrc r2 = rest"
    using read_token_stream [of r1 s d rest is_macro_terminating c 40 CLJ_SYMBOL] r1 s c d assms(3)
    by (auto simp: moved_def)
  have "read_form (Suc 0) ?r = Ret CLJ_MORE (emit CLJ_SYMBOL (c # s) r2)"
    using r1 num c r2 by (simp add: read_form.simps(2) read_symbol_def)
  then have "read_form (read_fuel ?r) ?r = Ret CLJ_MORE (emit CLJ_SYMBOL (c # s) r2)"
    using read_form_fuel_unique [of "Suc 0" ?r] by simp
  then show ?thesis using r1 r2
    by (simp add: clj_read_def moved_def clj_read_start_facts emit_def)
qed

lemma clj_read_drops_delimiter_witness:
  "\<exists>r'. clj_read (sample_reader\<lparr>rsrc := [97, 40, 98, 41]\<rparr>) = Ret CLJ_MORE r' \<and>
    stream (clj_read_start r') = [98, 41]"
  using clj_read_drops_delimiter [of "sample_reader\<lparr>rsrc := [97, 40, 98, 41]\<rparr>" 97 "[]" 40 "[98, 41]"]
  by (auto simp: token_char_def is_clj_whitespace_def iswspace_def get_macro_reader_def
      iswdigit_def is_sign_def is_macro_terminating_def)

end
