(* ===== verification/Str.thy ===== *)
theory Str
  imports Planck_Prelude "HOL-Library.Sublist"
begin

text \<open>
  \<open>str.c\<close>: the three string helpers every other component calls. The predicates return 0
  for yes, \<open>-1\<close> when the string is too short and otherwise what \<open>strcmp\<close> or \<open>strncmp\<close>
  returned, as the C code does.
\<close>

definition str_has_suffix :: "string \<Rightarrow> string \<Rightarrow> int" where
  "str_has_suffix str suff =
     (let len = length str; suffix_len = length suff in
      if len < suffix_len then -1 else strcmp (drop (len - suffix_len) str) suff)"

definition str_has_prefix :: "string \<Rightarrow> string \<Rightarrow> int" where
  "str_has_prefix str pref =
     (let len = length str; prefix_len = length pref in
      if len < prefix_len then -1 else strncmp str pref prefix_len)"

definition str_concat :: "string \<Rightarrow> string \<Rightarrow> string" where
  "str_concat s1 s2 = s1 @ s2"

lemma str_has_suffix_0 [str_simps]: "str_has_suffix s t = 0 \<longleftrightarrow> suffix t s"
  by (auto simp: str_has_suffix_def Let_def suffix_def)
     (metis append_take_drop_id)

lemma str_has_prefix_0 [str_simps]: "str_has_prefix s t = 0 \<longleftrightarrow> prefix t s"
  by (auto simp: str_has_prefix_def Let_def prefix_def)
     (metis append_take_drop_id)

lemma length_str_concat [simp]: "length (str_concat a b) = length a + length b"
  by (simp add: str_concat_def)

end
