(* ===== verification/Keymap.thy ===== *)
theory Keymap
  imports Edn_Correct Str
begin

text \<open>
  \<open>keymap.c\<close>, and the key table of \<open>linenoise.c\<close> that it fills. The table maps each action
  (\<open>KM_...\<close>, an index) to the code of the key that triggers it. \<open>~/.planck_keymap\<close> is read
  with the EDN reader; its \<open>emit\<close> callback is a state machine over the nodes in which keywords
  alternate between an action and a key. A file that \<open>fopen\<close> cannot open is \<open>None\<close>.
\<close>

section \<open>The key table (linenoise.c)\<close>

abbreviation (input) KM_GO_TO_START_OF_LINE :: nat where "KM_GO_TO_START_OF_LINE \<equiv> 0"
abbreviation (input) KM_MOVE_LEFT :: nat where "KM_MOVE_LEFT \<equiv> 1"
abbreviation (input) KM_CANCEL :: nat where "KM_CANCEL \<equiv> 2"
abbreviation (input) KM_DELETE_RIGHT :: nat where "KM_DELETE_RIGHT \<equiv> 3"
abbreviation (input) KM_GO_TO_END_OF_LINE :: nat where "KM_GO_TO_END_OF_LINE \<equiv> 4"
abbreviation (input) KM_MOVE_RIGHT :: nat where "KM_MOVE_RIGHT \<equiv> 5"
abbreviation (input) KM_DELETE :: nat where "KM_DELETE \<equiv> 6"
abbreviation (input) KM_TAB :: nat where "KM_TAB \<equiv> 7"
abbreviation (input) KM_DELETE_TO_END_OF_LINE :: nat where "KM_DELETE_TO_END_OF_LINE \<equiv> 8"
abbreviation (input) KM_CLEAR_SCREEN :: nat where "KM_CLEAR_SCREEN \<equiv> 9"
abbreviation (input) KM_ENTER :: nat where "KM_ENTER \<equiv> 10"
abbreviation (input) KM_HISTORY_NEXT :: nat where "KM_HISTORY_NEXT \<equiv> 11"
abbreviation (input) KM_HISTORY_PREVIOUS :: nat where "KM_HISTORY_PREVIOUS \<equiv> 12"
abbreviation (input) KM_SWAP_CHARS :: nat where "KM_SWAP_CHARS \<equiv> 13"
abbreviation (input) KM_CLEAR_LINE :: nat where "KM_CLEAR_LINE \<equiv> 14"
abbreviation (input) KM_DELETE_PREVIOUS_WORD :: nat where "KM_DELETE_PREVIOUS_WORD \<equiv> 15"
abbreviation (input) KM_ESC :: nat where "KM_ESC \<equiv> 16"
abbreviation (input) KM_BACKSPACE :: nat where "KM_BACKSPACE \<equiv> 17"
abbreviation (input) KM_REVERSE_I_SEARCH :: nat where "KM_REVERSE_I_SEARCH \<equiv> 18"
abbreviation (input) KM_CANCEL_SEARCH :: nat where "KM_CANCEL_SEARCH \<equiv> 19"
abbreviation (input) KM_FINISH_SEARCH :: nat where "KM_FINISH_SEARCH \<equiv> 20"

definition keymap_default :: "int list" where
  "keymap_default =
     [1, 2, 3, 4, 5, 6, 8, 9, 11, 12, 13, 14, 16, 20, 21, 23, 27, 127, 18, 7, 10]"

text \<open>The loop that clears the first entry with the key.\<close>

fun clear_key :: "int \<Rightarrow> int list \<Rightarrow> int list" where
  "clear_key key [] = []"
| "clear_key key (k # ks) = (if k = key then 0 # ks else k # clear_key key ks)"

definition linenoiseSetKeymapEntry :: "int list \<Rightarrow> nat \<Rightarrow> int \<Rightarrow> int list option" where
  "linenoiseSetKeymapEntry keymap action key = wr (clear_key key keymap) action key"

text \<open>The action a key triggers: the first entry of the table with its code.\<close>

fun action_of :: "int list \<Rightarrow> int \<Rightarrow> nat option" where
  "action_of [] key = None"
| "action_of (k # ks) key = (if k = key then Some 0 else map_option Suc (action_of ks key))"

definition keymap_ok :: "int list \<Rightarrow> bool" where
  "keymap_ok keymap \<longleftrightarrow> length keymap = 21 \<and> distinct (filter (\<lambda>k. k \<noteq> 0) keymap)"

section \<open>Actions and keys\<close>

definition id_for_key_map_action :: "string \<Rightarrow> int" where
  "id_for_key_map_action action =
     (if action = '':go-to-beginning-of-line'' then int KM_GO_TO_START_OF_LINE
      else if action = '':go-back-one-space'' then int KM_MOVE_LEFT
      else if action = '':go-forward-one-space'' then int KM_MOVE_RIGHT
      else if action = '':delete-right'' then int KM_DELETE_RIGHT
      else if action = '':delete-backwards'' then int KM_DELETE
      else if action = '':delete-to-end-of-line'' then int KM_DELETE_TO_END_OF_LINE
      else if action = '':go-to-end-of-line'' then int KM_GO_TO_END_OF_LINE
      else if action = '':clear-screen'' then int KM_CLEAR_SCREEN
      else if action = '':next-line'' then int KM_HISTORY_NEXT
      else if action = '':previous-line'' then int KM_HISTORY_PREVIOUS
      else if action = '':transpose-characters'' then int KM_SWAP_CHARS
      else if action = '':undo-typing-on-line'' then int KM_CLEAR_LINE
      else if action = '':delete-previous-word'' then int KM_DELETE_PREVIOUS_WORD
      else if action = '':reverse-i-search'' then int KM_REVERSE_I_SEARCH
      else if action = '':cancel-search'' then int KM_CANCEL_SEARCH
      else if action = '':finish-search'' then int KM_FINISH_SEARCH
      else -1)"

definition key_code_for :: "string \<Rightarrow> int" where
  "key_code_for key_name =
     (if str_has_prefix key_name '':ctrl-'' = 0 \<and> length key_name = 7 then
        (let c = schar (key_name ! 6) in if 97 \<le> c \<and> c \<le> 122 then c - 97 + 1 else -1)
      else -1)"

section \<open>The emit callback\<close>

text \<open>
  The static variables of \<open>keymap.c\<close>, the key table, and what was written to stderr.
  \<open>km_buffer\<close> is the whole array of 1024 bytes.
\<close>

record keymap_state =
  last_id :: int
  km_buffer :: string
  in_map :: bool
  keymap_path :: string
  keymap :: "int list"
  km_stderr :: "string list"

text \<open>
  \<open>wcstombs\<close> in the C locale, into an array of \<open>n\<close> bytes: it writes until the NUL is
  written, the array is full, or a character has no multibyte form.
\<close>

definition wcstombs :: "string \<Rightarrow> wstr \<Rightarrow> nat \<Rightarrow> string" where
  "wcstombs buf src n =
     (let ok = takeWhile (\<lambda>c. c < 128) (wcs src);
          out = take n (map char_of ok @ (if ok = wcs src then [NUL] else []))
      in out @ drop (length out) buf)"

definition emit_keymap :: "keymap_state \<Rightarrow> clj_node \<Rightarrow> keymap_state option" where
  "emit_keymap ks n =
     (if ntype n = CLJ_MAP then Some (ks\<lparr>in_map := True\<rparr>)
      else if ntype n = CLJ_END then Some (ks\<lparr>in_map := False\<rparr>)
      else if ntype n = CLJ_KEYWORD then
        do {
          let ks1 = ks\<lparr>km_buffer := wcstombs (km_buffer ks) (nvalue n) 1024\<rparr>;
          s \<leftarrow> cstr_of (km_buffer ks1);
          if last_id ks1 = -2 then
            (let id = id_for_key_map_action s in
             Some (ks1\<lparr>last_id := id,
               km_stderr := km_stderr ks1 @
                 (if id = -1 then [keymap_path ks1 @ '': Unrecognized keymap key: '' @ s] else [])\<rparr>))
          else do {
            let key_code = key_code_for s;
            let ks2 = ks1\<lparr>km_stderr := km_stderr ks1 @
              (if key_code = -1 then [keymap_path ks1 @ '': Unrecognized keymap value: '' @ s] else [])\<rparr>;
            km \<leftarrow> (if last_id ks2 \<noteq> -1 \<and> key_code \<noteq> -1
                   then linenoiseSetKeymapEntry (keymap ks2) (nat (last_id ks2)) key_code
                   else Some (keymap ks2));
            Some (ks2\<lparr>keymap := km, last_id := -2\<rparr>)
          }
        }
      else Some ks)"

fun emit_all :: "keymap_state \<Rightarrow> clj_node list \<Rightarrow> keymap_state option" where
  "emit_all ks [] = Some ks"
| "emit_all ks (n # ns) = Option.bind (emit_keymap ks n) (\<lambda>ks'. emit_all ks' ns)"

section \<open>Loading the file\<close>

text \<open>
  The loop over \<open>clj_read\<close>. The callback runs as the nodes come; as it shares nothing with the
  reader, handing it the nodes of each call afterwards gives the same; what the reader itself
  prints comes with its failure, after all nodes of the call. \<open>Exit\<close> is a return
  with its status, \<open>Undef\<close> undefined behaviour or the failed assertion, \<open>Spin\<close> the end of the
  fuel.
\<close>

datatype load_result = Exit int keymap_state | Undef | Spin

fun load_loop :: "nat \<Rightarrow> reader \<Rightarrow> keymap_state \<Rightarrow> load_result" where
  "load_loop 0 r ks = Spin"
| "load_loop (Suc n) r ks =
     (case clj_read (r\<lparr>remitted := []\<rparr>) of
        Ret result r1 \<Rightarrow>
          (case emit_all ks (remitted r1) of
             None \<Rightarrow> Undef
           | Some ks0 \<Rightarrow>
               let ks1 = ks0\<lparr>km_stderr := km_stderr ks0 @ rlog r1\<rparr> in
               (if result = CLJ_MORE then load_loop n (r1\<lparr>rlog := []\<rparr>) ks1
                else if result = CLJ_EOF then Exit 0 ks1
                else Exit 1 (ks1\<lparr>km_stderr := km_stderr ks1 @ [clj_read_error r1 result]\<rparr>)))
      | Fail e r1 \<Rightarrow> Undef
      | Abort a \<Rightarrow> Undef
      | NoFuel \<Rightarrow> Spin)"

definition keymap_reader :: "wstr \<Rightarrow> reader" where
  "keymap_reader src = \<lparr>rsrc = src, rline = 0, rcolumn = 0, rdepth = 0, rdiscard = 0,
     readback = 0, readback_column = 0, remitted = [], rlog = []\<rparr>"

definition load_keymap :: "string \<Rightarrow> wstr option \<Rightarrow> keymap_state \<Rightarrow> load_result" where
  "load_keymap home file ks =
     (let ks1 = ks\<lparr>keymap_path := home @ ''/'' @ ''.planck_keymap''\<rparr> in
      case file of
        None \<Rightarrow> Exit 0 ks1
      | Some src \<Rightarrow> load_loop (length src + 1) (keymap_reader src) ks1)"

definition keymap_initial :: keymap_state where
  "keymap_initial = \<lparr>last_id = -2, km_buffer = replicate 1024 NUL, in_map = False,
     keymap_path = [], keymap = keymap_default, km_stderr = []\<rparr>"

section \<open>The key table\<close>

lemma option_eqI: "(\<And>a. x = Some a \<longleftrightarrow> y = Some a) \<Longrightarrow> x = y"
  by (metis not_Some_eq)

lemma length_clear_key [simp]: "length (clear_key key km) = length km"
  by (induction key km rule: clear_key.induct) auto

lemma clear_key_distinct:
  "distinct (filter (\<lambda>k. k \<noteq> 0) km) \<Longrightarrow>
   filter (\<lambda>k. k \<noteq> 0) (clear_key key km) = filter (\<lambda>k. k \<noteq> 0 \<and> k \<noteq> key) km"
proof (induction key km rule: clear_key.induct)
  case (2 key k ks)
  show ?case
  proof (cases "k = key")
    case True
    have "filter (\<lambda>k. k \<noteq> 0) ks = filter (\<lambda>k. k \<noteq> 0 \<and> k \<noteq> key) ks"
      using "2.prems" True by (intro filter_cong) (auto split: if_splits)
    with True show ?thesis by simp
  next
    case False
    with 2 show ?thesis by (cases "k = 0") simp_all
  qed
qed simp

lemma distinct_filter_nth:
  "distinct (filter P xs) \<Longrightarrow> i < length xs \<Longrightarrow> j < length xs \<Longrightarrow> xs ! i = xs ! j \<Longrightarrow>
   P (xs ! i) \<Longrightarrow> i = j"
proof (induction xs arbitrary: i j)
  case (Cons x xs)
  then show ?case by (cases i; cases j) (auto split: if_splits simp: in_set_conv_nth)
qed simp

lemma nth_clear_key:
  "distinct (filter (\<lambda>k. k \<noteq> 0) km) \<Longrightarrow> i < length km \<Longrightarrow>
   clear_key key km ! i = (if km ! i = key then 0 else km ! i)"
proof (induction key km arbitrary: i rule: clear_key.induct)
  case (2 key k ks)
  show ?case
  proof (cases i)
    case (Suc j)
    then show ?thesis using 2
      by (cases "k = key"; cases "k = 0") (auto simp: in_set_conv_nth)
  qed simp
qed simp

lemma action_of_nth: "action_of km key = Some a \<Longrightarrow> a < length km \<and> km ! a = key"
  by (induction km key arbitrary: a rule: action_of.induct) (auto split: if_splits)

lemma action_of_exists: "a < length km \<Longrightarrow> km ! a = key \<Longrightarrow> \<exists>b. action_of km key = Some b"
proof (induction km key arbitrary: a rule: action_of.induct)
  case (2 k ks key)
  then show ?case by (cases a) auto
qed simp

lemma action_of_iff:
  assumes "keymap_ok km" "key \<noteq> 0"
  shows "action_of km key = Some a \<longleftrightarrow> a < length km \<and> km ! a = key"
  using action_of_nth [of km key] action_of_exists [of _ km key] assms
    distinct_filter_nth [of "\<lambda>k. k \<noteq> 0" km]
  unfolding keymap_ok_def by metis

lemma distinct_filter_update:
  "distinct (filter P xs) \<Longrightarrow> y \<notin> set (filter P xs) \<Longrightarrow> distinct (filter P (xs[i := y]))"
proof (induction xs arbitrary: i)
  case (Cons x xs)
  show ?case
  proof (cases i)
    case (Suc j)
    with Cons have "distinct (filter P (xs[j := y]))" by (auto split: if_splits)
    moreover have "x \<notin> set (filter P (xs[j := y]))" if "P x"
      using that Cons.prems set_update_subset_insert [of xs j y] by auto
    ultimately show ?thesis using Suc by simp
  qed (use Cons in \<open>auto split: if_splits\<close>)
qed simp

lemma set_entry_Some:
  "action < length km \<Longrightarrow> linenoiseSetKeymapEntry km action key = Some ((clear_key key km)[action := key])"
  by (simp add: linenoiseSetKeymapEntry_def carr_simps)

lemma set_entry_ok:
  assumes "keymap_ok km" "linenoiseSetKeymapEntry km action key = Some km'"
  shows "keymap_ok km'"
proof -
  let ?P = "\<lambda>k :: int. k \<noteq> 0"
  have d: "distinct (filter ?P km)" using assms(1) by (simp add: keymap_ok_def)
  have eq: "filter ?P (clear_key key km) = filter (\<lambda>k. k \<noteq> key) (filter ?P km)"
    using clear_key_distinct [OF d, of key] by (simp add: conj_commute)
  have "distinct (filter ?P ((clear_key key km)[action := key]))"
    by (rule distinct_filter_update; unfold eq) (use distinct_filter [OF d] in auto)
  with assms show ?thesis
    by (auto simp: keymap_ok_def linenoiseSetKeymapEntry_def wr_def split: if_splits)
qed

lemma default_ok: "keymap_ok keymap_default"
  by (simp add: keymap_ok_def keymap_default_def)


text \<open>What setting an entry does to the keys: a map update that also unbinds the old key.\<close>

lemma action_of_set_entry:
  assumes "keymap_ok km" "key \<noteq> 0" "k \<noteq> 0"
    and set: "linenoiseSetKeymapEntry km action key = Some km'"
  shows "action_of km' k =
    (if k = key then Some action
     else if action_of km k = Some action then None else action_of km k)"
proof -
  have km': "km' = (clear_key key km)[action := key]" "action < length km"
    using set by (auto simp: linenoiseSetKeymapEntry_def wr_def split: if_splits)
  have ok': "keymap_ok km'" using assms(1) set by (rule set_entry_ok)
  have nth: "km' ! a = (if a = action then key else if km ! a = key then 0 else km ! a)"
    if "a < length km" for a
    using that km' assms(1) by (simp add: nth_clear_key keymap_ok_def nth_list_update)
  have iff: "action_of km' k = Some a \<longleftrightarrow> a < length km \<and>
      (if a = action then key else if km ! a = key then 0 else km ! a) = k" for a
    unfolding action_of_iff [OF ok' assms(3)] using nth [of a] km' by auto
  note old = action_of_iff [OF assms(1,3)]
  show ?thesis
  proof (cases "k = key")
    case True
    then show ?thesis using iff [of action] km'(2) by simp
  next
    case False
    have "action_of km' k = Some a \<longleftrightarrow> a \<noteq> action \<and> action_of km k = Some a" for a
      unfolding iff old using False assms(3) by auto
    then have "action_of km' k = (if action_of km k = Some action then None else action_of km k)"
      by (intro option_eqI) auto
    with False show ?thesis by simp
  qed
qed


section \<open>The emit callback\<close>

definition ks_ok :: "keymap_state \<Rightarrow> bool" where
  "ks_ok ks \<longleftrightarrow> keymap_ok (keymap ks) \<and> - 2 \<le> last_id ks \<and> last_id ks < 21 \<and>
     length (km_buffer ks) = 1024"

lemma length_wcstombs [simp]: "length buf = n \<Longrightarrow> length (wcstombs buf src n) = n"
  by (auto simp: wcstombs_def Let_def)

lemma id_range [simp]: "- 2 \<le> id_for_key_map_action s" "id_for_key_map_action s < 21"
  by (simp_all add: id_for_key_map_action_def)

lemma emit_keymap_ok:
  assumes "ks_ok ks" "emit_keymap ks n = Some ks'"
  shows "ks_ok ks'"
proof (cases "ntype n = CLJ_KEYWORD")
  case True
  then have t: "ntype n \<noteq> CLJ_MAP" "ntype n \<noteq> CLJ_END" by (simp_all add: clj_type_defs)
  show ?thesis
  proof (cases "last_id ks = -2")
    case True
    with assms t \<open>ntype n = CLJ_KEYWORD\<close> show ?thesis
      by (auto simp: emit_keymap_def ks_ok_def Let_def bind_eq_Some_conv)
  next
    case False
    with assms t \<open>ntype n = CLJ_KEYWORD\<close> show ?thesis
      by (auto simp: emit_keymap_def ks_ok_def Let_def bind_eq_Some_conv intro: set_entry_ok
          split: if_splits)
  qed
qed (use assms in \<open>auto simp: emit_keymap_def ks_ok_def split: if_splits\<close>)

lemma emit_all_ok: "ks_ok ks \<Longrightarrow> emit_all ks ns = Some ks' \<Longrightarrow> ks_ok ks'"
proof (induction ks ns rule: emit_all.induct)
  case (2 ks n ns)
  then show ?case by (auto simp: bind_eq_Some_conv dest: emit_keymap_ok)
qed simp

lemma emit_all_append: "emit_all ks (xs @ ys) = Option.bind (emit_all ks xs) (\<lambda>ks'. emit_all ks' ys)"
proof (induction ks xs rule: emit_all.induct)
  case (2 ks n ns)
  then show ?case by (cases "emit_keymap ks n") simp_all
qed simp

text \<open>A keyword that fits the buffer and has only ASCII characters is converted whole.\<close>

lemma wcstombs_fits:
  assumes "list_all (\<lambda>c. c < 128 \<and> c \<noteq> 0) w" "length w < n"
  shows "cstr_of (wcstombs buf w n) = Some (map char_of w)"
proof -
  have eqs: "wcs w = w" "takeWhile (\<lambda>c. c < 128) w = w"
    using assms(1) by (auto simp: wcs_def takeWhile_eq_all_conv list_all_iff)
  have "NUL \<notin> set (map char_of w)"
  proof
    assume "NUL \<in> set (map char_of w)"
    then obtain c where "c \<in> set w" "char_of c = NUL" by auto
    moreover from this have "c < 256" using assms(1) by (auto simp: list_all_iff)
    moreover have "of_char (char_of c :: char) = c" using \<open>c < 256\<close> by (simp add: of_char_of)
    ultimately have "c = 0" by simp
    then show False using assms(1) \<open>c \<in> set w\<close> by (auto simp: list_all_iff)
  qed
  moreover have "wcstombs buf w n = map char_of w @ NUL # drop (length w + 1) buf"
    unfolding wcstombs_def Let_def eqs using assms(2) by (simp add: take_Cons')
  ultimately show ?thesis by (simp add: cstr_of_append_NUL)
qed


section \<open>The loop returns\<close>

lemma read_form_more:
  assumes "read_form n r = Ret CLJ_MORE r'"
  shows "pending r' < pending r"
proof -
  obtain k where n: "n = Suc k" using assms by (cases n) auto
  obtain c r1 where p: "skip_whitespace r = (c, r1)" by (cases "skip_whitespace r")
  from assms n p have c: "c \<noteq> WEOF" by (auto simp: read_form.simps(2) split: if_splits)
  with skip_whitespace_facts [OF p] have "Suc (pending r1) \<le> pending r" by simp
  moreover have "pending r' \<le> pending r1"
  proof (cases "get_macro_reader c")
    case None
    with read_form_token(2) [OF p c None] assms n show ?thesis by simp
  next
    case (Some m)
    with assms n p c show ?thesis by (auto simp: read_form.simps(2) dest: call_reader_pending)
  qed
  ultimately show ?thesis by simp
qed

lemma clj_read_more:
  assumes "clj_read r = Ret CLJ_MORE r'"
  shows "pending (clj_read_start r') < pending (clj_read_start r)"
proof -
  have "read_form (read_fuel (clj_read_start r)) (clj_read_start r) = Ret CLJ_MORE r'"
    using assms by (cases rule: clj_read_cases [of r]) auto
  moreover have "pending (clj_read_start r') \<le> pending r'"
    by (simp add: pending_def clj_read_start_def stream_def)
  ultimately show ?thesis using read_form_more by fastforce
qed

lemma start_cong [simp]: "pending (clj_read_start (r\<lparr>remitted := e\<rparr>)) = pending (clj_read_start r)"
  "pending (clj_read_start (r\<lparr>rlog := l\<rparr>)) = pending (clj_read_start r)"
  by (simp_all add: pending_def clj_read_start_def stream_def)

lemma load_loop_result:
  "pending (clj_read_start r) < n \<Longrightarrow> ks_ok ks \<Longrightarrow>
   load_loop n r ks = Undef \<or>
   (\<exists>status ks'. load_loop n r ks = Exit status ks' \<and> status \<in> {0, 1} \<and> ks_ok ks')"
proof (induction n arbitrary: r ks)
  case (Suc n)
  let ?r = "r\<lparr>remitted := []\<rparr>"
  show ?case
  proof (cases rule: clj_read_cases [of ?r])
    case (ret x r1)
    show ?thesis
    proof (cases "emit_all ks (remitted r1)")
      case (Some ks0)
      let ?ks1 = "ks0\<lparr>km_stderr := km_stderr ks0 @ rlog r1\<rparr>"
      from emit_all_ok [OF Suc.prems(2) Some] have ok: "ks_ok ?ks1" by (simp add: ks_ok_def)
      consider "x = CLJ_MORE" | "x = CLJ_EOF" using ret(3) by (cases x) auto
      then show ?thesis
      proof cases
        case 1
        with clj_read_more [of ?r r1] ret Suc.prems(1) have "pending (clj_read_start r1) < n" by simp
        with Suc.IH [of "r1\<lparr>rlog := []\<rparr>" ?ks1] ok 1 ret Some show ?thesis by (simp add: Let_def)
      qed (use ret Some ok in \<open>auto simp: Let_def\<close>)
    qed (use ret in simp)
  next
    case (fail e r1)
    have "e \<noteq> CLJ_MORE" "e \<noteq> CLJ_EOF" using fail(3) by auto
    moreover have "ks_ok ks1" if "emit_all ks (remitted r1) = Some ks1" for ks1
      by (rule emit_all_ok [OF Suc.prems(2) that])
    ultimately show ?thesis using fail
      by (auto simp: ks_ok_def Let_def split: option.splits)
  qed auto
qed simp

lemma load_keymap_result:
  assumes "ks_ok ks"
  shows "load_keymap home contents ks = Undef \<or>
   (\<exists>status ks'. load_keymap home contents ks = Exit status ks' \<and> status \<in> {0, 1} \<and> ks_ok ks')"
proof (cases contents)
  case (Some src)
  have "pending (clj_read_start (keymap_reader src)) < length src + 1"
    by (simp add: pending_def clj_read_start_def stream_def keymap_reader_def
        less_Suc_eq_le)
  from load_loop_result [OF this] assms Some show ?thesis
    by (simp add: load_keymap_def ks_ok_def Let_def)
qed (use assms in \<open>simp add: load_keymap_def ks_ok_def\<close>)

section \<open>A keymap file takes effect\<close>

definition wide :: "string \<Rightarrow> wstr" where
  "wide s = map of_char s"

definition pair_forms :: "(string \<times> string) list \<Rightarrow> edn list" where
  "pair_forms ps = concat (map (\<lambda>(a, k). [EKeyword (wide (tl a)), EKeyword (wide (tl k))]) ps)"

text \<open>The text of a file \<open>{:action :key ...}\<close>.\<close>

definition keymap_text :: "(string \<times> string) list \<Rightarrow> wstr" where
  "keymap_text ps = print_edn (EColl CMap (pair_forms ps)) @ [32]"

fun bind_keys :: "int list \<Rightarrow> (string \<times> string) list \<Rightarrow> int list option" where
  "bind_keys km [] = Some km"
| "bind_keys km ((a, k) # ps) =
     Option.bind (linenoiseSetKeymapEntry km (nat (id_for_key_map_action a)) (key_code_for k))
       (\<lambda>km'. bind_keys km' ps)"

definition keyword_ok :: "string \<Rightarrow> bool" where
  "keyword_ok s \<longleftrightarrow> s \<noteq> [] \<and> hd s = CHR '':'' \<and> length s < 1024 \<and>
     list_all (token_char is_macro_terminating) (wide (tl s)) \<and>
     list_all (\<lambda>c. c < 128 \<and> c \<noteq> 0) (wide s)"

lemma wide_back: "map char_of (wide s) = s"
  by (simp add: wide_def comp_def)

lemmas keyword_simps = keyword_ok_def wide_def token_char_def is_clj_whitespace_def iswspace_def
  is_macro_terminating_def get_macro_reader_def

lemma action_keyword_ok: "id_for_key_map_action a \<noteq> -1 \<Longrightarrow> keyword_ok a"
  by (auto simp: id_for_key_map_action_def keyword_simps split: if_splits)


lemma key_code_form:
  assumes "key_code_for k \<noteq> -1"
  obtains c where "k = '':ctrl-'' @ [c]" "97 \<le> (of_char c :: nat)" "(of_char c :: nat) \<le> 122"
    "key_code_for k = of_char c - 96"
proof -
  from assms have pre: "prefix '':ctrl-'' k" "length k = 7"
    and range: "97 \<le> schar (k ! 6)" "schar (k ! 6) \<le> 122"
    by (auto simp: key_code_for_def Let_def str_has_prefix_0 split: if_splits)
  from pre obtain t where t: "k = '':ctrl-'' @ t" "length t = 1" by (auto elim: prefixE)
  then obtain c where c: "k = '':ctrl-'' @ [c]" by (cases t) auto
  then have "k ! 6 = c" by simp
  have "(of_char c :: int) = int (of_char c)" by (rule of_nat_of_char [symmetric])
  moreover have "(of_char c :: nat) < 256" by simp
  ultimately have small: "(of_char c :: int) < 256" by linarith
  with range \<open>k ! 6 = c\<close> have r: "97 \<le> (of_char c :: int)" "(of_char c :: int) \<le> 122" "schar c = of_char c"
    by (auto simp: schar_def split: if_splits)
  have "97 \<le> (of_char c :: nat)" "(of_char c :: nat) \<le> 122"
    using r(1,2) \<open>(of_char c :: int) = int (of_char c)\<close> by linarith+
  moreover have "key_code_for k = of_char c - 96"
    using pre range r(3) \<open>k ! 6 = c\<close> by (simp add: key_code_for_def str_has_prefix_0)
  ultimately show ?thesis using c that by blast
qed

lemma key_keyword_ok:
  assumes "key_code_for k \<noteq> -1"
  shows "keyword_ok k"
proof -
  obtain c where c: "k = '':ctrl-'' @ [c]" "97 \<le> (of_char c :: nat)" "(of_char c :: nat) \<le> 122"
    by (rule key_code_form [OF assms]) (rule that)
  have "get_macro_reader (of_char c) = None" using c(2,3) by (auto simp: get_macro_reader_def)
  with c show ?thesis by (auto simp: keyword_simps)
qed

lemma emit_keyword_pair:
  assumes "last_id ks = -2" "keyword_ok a" "keyword_ok k"
    "id_for_key_map_action a \<noteq> -1" "id_for_key_map_action a \<noteq> -2" "key_code_for k \<noteq> -1"
    "linenoiseSetKeymapEntry (keymap ks) (nat (id_for_key_map_action a)) (key_code_for k) = Some km"
  shows "\<exists>ks'. emit_all ks [nd CLJ_KEYWORD (wide a), nd CLJ_KEYWORD (wide k)] = Some ks' \<and>
    keymap ks' = km \<and> last_id ks' = -2"
proof -
  have conv: "cstr_of (wcstombs b (wide s) 1024) = Some s" if "keyword_ok s" for b s
    using wcstombs_fits [of "wide s" 1024 b] that by (simp add: keyword_ok_def wide_back)
      (simp add: wide_def)
  have t: "CLJ_KEYWORD \<noteq> CLJ_MAP" "CLJ_KEYWORD \<noteq> CLJ_END" by (simp_all add: clj_type_defs)
  from assms t conv show ?thesis by (simp add: emit_keymap_def Let_def)
qed

definition pair_ok :: "string \<times> string \<Rightarrow> bool" where
  "pair_ok p \<longleftrightarrow> id_for_key_map_action (fst p) \<noteq> -1 \<and> key_code_for (snd p) \<noteq> -1"

lemma wide_keyword: "keyword_ok a \<Longrightarrow> 58 # wide (tl a) = wide a"
  by (cases a) (auto simp: keyword_ok_def wide_def)

lemma emit_pairs:
  "last_id ks = -2 \<Longrightarrow> length (keymap ks) = 21 \<Longrightarrow> list_all pair_ok ps \<Longrightarrow>
   \<exists>ks'. emit_all ks (concat (map edn_nodes (pair_forms ps))) = Some ks' \<and>
     bind_keys (keymap ks) ps = Some (keymap ks') \<and> last_id ks' = -2"
proof (induction ps arbitrary: ks)
  case (Cons p ps)
  obtain a k where p: "p = (a, k)" by (cases p)
  with Cons.prems have ids: "id_for_key_map_action a \<noteq> -1" "key_code_for k \<noteq> -1"
    by (simp_all add: pair_ok_def)
  note kw = action_keyword_ok [OF ids(1)] key_keyword_ok [OF ids(2)]
  have id2: "id_for_key_map_action a \<noteq> -2" by (simp add: id_for_key_map_action_def)
  have range: "nat (id_for_key_map_action a) < 21" using id_range(2) [of a] by arith
  obtain km where km: "linenoiseSetKeymapEntry (keymap ks) (nat (id_for_key_map_action a))
      (key_code_for k) = Some km" "length km = 21"
    using set_entry_Some [of "nat (id_for_key_map_action a)" "keymap ks"] range Cons.prems(2) by simp
  obtain ks1 where ks1: "emit_all ks [nd CLJ_KEYWORD (wide a), nd CLJ_KEYWORD (wide k)] = Some ks1"
      "keymap ks1 = km" "last_id ks1 = -2"
    using emit_keyword_pair [OF Cons.prems(1) kw ids(1) id2 ids(2) km(1)] by blast
  obtain ks2 where "emit_all ks1 (concat (map edn_nodes (pair_forms ps))) = Some ks2"
      "bind_keys km ps = Some (keymap ks2)" "last_id ks2 = -2"
    using Cons.IH [of ks1] ks1 km Cons.prems(3) by auto
  moreover have "emit_all ks (concat (map edn_nodes (pair_forms (p # ps)))) =
      Option.bind (emit_all ks [nd CLJ_KEYWORD (wide a), nd CLJ_KEYWORD (wide k)])
        (\<lambda>ks'. emit_all ks' (concat (map edn_nodes (pair_forms ps))))"
    unfolding emit_all_append [symmetric] using kw by (simp add: p pair_forms_def wide_keyword)
  ultimately show ?case using km p unfolding ks1(1) by simp
qed (simp add: pair_forms_def)

lemma clj_read_blank:
  assumes "list_all is_clj_whitespace (rsrc r)"
  shows "\<exists>r'. clj_read r = Ret CLJ_EOF r' \<and> remitted r' = remitted r"
proof -
  have skip: "list_all is_clj_whitespace (stream q) \<Longrightarrow>
      \<exists>q'. skip_whitespace q = (WEOF, q') \<and> moved q q' []" for q
  proof (induction "stream q" arbitrary: q)
    case Nil
    obtain c q' where p: "pop_char q = (c, q')" by (cases "pop_char q")
    with pop_char_facts [OF p] Nil show ?case
      by (subst skip_whitespace.simps)
         (auto simp: moved_def is_clj_whitespace_def iswspace_def)
  next
    case (Cons c s)
    obtain q1 where p: "pop_char q = (c, q1)" "moved q q1 s"
      by (rule pop_stream [OF Cons(2) [symmetric]])
    have "\<exists>q'. skip_whitespace q1 = (WEOF, q') \<and> moved q1 q' []"
      by (rule Cons(1)) (use p(2) Cons(2,3) in \<open>auto simp: moved_def simp flip: Cons(2)\<close>)
    moreover have "is_clj_whitespace c" using Cons(3) by (simp flip: Cons(2))
    ultimately show ?case using p
      by (subst skip_whitespace.simps) (auto intro: moved_trans)
  qed
  obtain r1 where r1: "skip_whitespace (clj_read_start r) = (WEOF, r1)"
      "moved (clj_read_start r) r1 []"
    using skip [of "clj_read_start r"] assms by (auto simp: clj_read_start_facts)
  then have f: "read_form (Suc 0) (clj_read_start r) = Ret CLJ_EOF r1"
    by (simp add: read_form.simps(2) moved_def clj_read_start_facts)
  with read_form_fuel_unique [of "Suc 0" "clj_read_start r"] r1 show ?thesis
    by (simp add: clj_read_def moved_def clj_read_start_facts)
qed

lemma pair_forms_ok: "list_all pair_ok ps \<Longrightarrow> list_all edn_ok (pair_forms ps)"
proof (induction ps)
  case (Cons p ps)
  then have "keyword_ok (fst p)" "keyword_ok (snd p)"
    by (simp_all add: pair_ok_def action_keyword_ok key_keyword_ok)
  with Cons show ?case by (cases p) (simp add: pair_forms_def keyword_ok_def)
qed (simp add: pair_forms_def)

lemma load_keymap_pairs:
  assumes "keymap_ok (keymap ks)" "last_id ks = -2" "list_all pair_ok ps"
  shows "\<exists>ks'. load_keymap home (Some (keymap_text ps)) ks = Exit 0 ks' \<and>
    bind_keys (keymap ks) ps = Some (keymap ks')"
proof -
  let ?f = "EColl CMap (pair_forms ps)" and ?r = "keymap_reader (keymap_text ps)"
  have ok: "edn_ok ?f" using pair_forms_ok [OF assms(3)] by simp
  obtain r1 where r1: "clj_read ?r = Ret CLJ_MORE r1" "remitted r1 = edn_nodes ?f" "stream r1 = [32]"
    using clj_read_form_result [of ?r "[]" ?f "[]"] ok
    by (auto simp: keymap_reader_def keymap_text_def)
  have blank: "list_all is_clj_whitespace (rsrc r1)"
    using r1(3) by (auto simp: stream_def is_clj_whitespace_def iswspace_def split: if_splits)
  obtain r2 where r2: "clj_read (r1\<lparr>rlog := [], remitted := []\<rparr>) = Ret CLJ_EOF r2"
      "remitted r2 = []"
    using clj_read_blank [of "r1\<lparr>rlog := [], remitted := []\<rparr>"] blank by auto
  define ks0 where "ks0 = ks\<lparr>keymap_path := home @ ''/'' @ ''.planck_keymap'', in_map := True\<rparr>"
  obtain ks2 where ks2: "emit_all ks0 (concat (map edn_nodes (pair_forms ps))) = Some ks2"
      "bind_keys (keymap ks) ps = Some (keymap ks2)"
    using emit_pairs [of ks0 ps] assms by (auto simp: ks0_def keymap_ok_def)
  have close: "emit_keymap q (nd (CLJ_MAP OR CLJ_END) v) = Some q" for q v
    by (simp add: emit_keymap_def clj_type_defs)
  have emits: "emit_all (ks\<lparr>keymap_path := home @ ''/'' @ ''.planck_keymap''\<rparr>) (remitted r1) = Some ks2"
    using ks2(1) unfolding r1(2)
    by (simp add: emit_keymap_def [of _ "nd CLJ_MAP _"] emit_all_append close ks0_def)
  obtain m where "length (keymap_text ps) = Suc m"
    by (cases "length (keymap_text ps)") (simp_all add: keymap_text_def)
  then have n: "length (keymap_text ps) + 1 = Suc (Suc m)" by simp
  show ?thesis
    unfolding load_keymap_def Let_def option.case n
    using r1(1) r2 emits ks2(2) by (simp add: keymap_reader_def)
qed


section \<open>Properties\<close>

text \<open>
  C6. Loading a keymap file always comes to an end, and unless it dies on the reader's
  assertion or on a keyword that fills the conversion buffer, it returns 0 or 1 with a key
  table in which no key triggers two actions.
\<close>

theorem load_keymap_total:
  assumes "ks_ok ks"
  shows "load_keymap home contents ks = Undef \<or>
    (\<exists>status ks'. load_keymap home contents ks = Exit status ks' \<and> status \<in> {0, 1} \<and>
      keymap_ok (keymap ks'))"
  using load_keymap_result [OF assms] by (auto simp: ks_ok_def)

lemma load_keymap_total_witness:
  "ks_ok keymap_initial \<and>
   (load_keymap ''/home/u'' (Some [123]) keymap_initial = Undef \<or>
    (\<exists>status ks'. load_keymap ''/home/u'' (Some [123]) keymap_initial = Exit status ks' \<and>
      status \<in> {0, 1} \<and> keymap_ok (keymap ks')))"
proof -
  have "ks_ok keymap_initial"
    using default_ok by (simp add: ks_ok_def keymap_initial_def)
  with load_keymap_total [OF this] show ?thesis by blast
qed

text \<open>
  C7. A keymap file that holds a map from known actions to known keys takes effect: it is
  accepted and the key table becomes the one that binding the pairs in their order gives,
  whatever table was there before.
\<close>

theorem load_keymap_binds:
  assumes "keymap_ok (keymap ks)" "last_id ks = -2" "list_all pair_ok ps"
  shows "\<exists>ks'. load_keymap home (Some (keymap_text ps)) ks = Exit 0 ks' \<and>
    bind_keys (keymap ks) ps = Some (keymap ks')"
  by (rule load_keymap_pairs [OF assms])

lemma load_keymap_binds_witness:
  "\<exists>ks'. load_keymap ''/h'' (Some (keymap_text [('':delete-right'', '':ctrl-a'')])) keymap_initial =
      Exit 0 ks' \<and>
    keymap ks' = [0, 2, 3, 1, 5, 6, 8, 9, 11, 12, 13, 14, 16, 20, 21, 23, 27, 127, 18, 7, 10]"
proof -
  have p: "list_all pair_ok [('':delete-right'', '':ctrl-a'')]"
    by (simp add: pair_ok_def id_for_key_map_action_def key_code_for_def schar_def
        str_has_prefix_def)
  from load_keymap_binds [of keymap_initial "[('':delete-right'', '':ctrl-a'')]" "''/h''"] p default_ok
  show ?thesis
    by (auto simp: keymap_initial_def keymap_default_def linenoiseSetKeymapEntry_def wr_def
        id_for_key_map_action_def key_code_for_def schar_def str_has_prefix_def)
qed

text \<open>
  Setting an entry of the key table rebinds exactly one key: the new key triggers the
  action, the key that triggered it before triggers nothing, and every other key triggers
  what it did. An action outside the table is an access outside the array.
\<close>

lemma set_entry_rebinds:
  assumes "keymap_ok km" "action < 21" "key \<noteq> 0"
  shows "\<exists>km'. linenoiseSetKeymapEntry km action key = Some km' \<and> keymap_ok km' \<and>
    (\<forall>k. k \<noteq> 0 \<longrightarrow> action_of km' k =
      (if k = key then Some action
       else if action_of km k = Some action then None else action_of km k))"
proof -
  obtain km' where km': "linenoiseSetKeymapEntry km action key = Some km'"
    using set_entry_Some [of action km key] assms by (auto simp: keymap_ok_def)
  with set_entry_ok [OF assms(1) km'] action_of_set_entry [OF assms(1,3) _ km'] show ?thesis
    by blast
qed

text \<open>
  The map flag is never cleared: \<open>emit\<close> compares a node's type with \<open>CLJ_END\<close>, but an end
  node carries \<open>CLJ_END\<close> as a bit beside its collection type.
\<close>

lemma emit_never_leaves_map:
  assumes "in_map ks" "emit_all ks ns = Some ks'" "list_all (\<lambda>n. ntype n \<noteq> CLJ_END) ns"
  shows "in_map ks'"
  using assms
proof (induction ks ns rule: emit_all.induct)
  case (2 ks n ns)
  have "in_map ks1" if "emit_keymap ks n = Some ks1" for ks1
    using that 2 by (auto simp: emit_keymap_def bind_eq_Some_conv Let_def split: if_splits)
  with 2 show ?case by (auto simp: bind_eq_Some_conv)
qed simp

end
