(* ===== verification/Line_State.thy ===== *)
theory Line_State
  imports Keymap "HOL-Library.While_Combinator"
begin

text \<open>
  The state of the line editor of \<open>linenoise.c\<close> and the functions that write to the terminal.

  \<open>ed\<close> holds the fields of \<open>struct linenoiseState\<close> (\<open>l_\<close>), the static variables of the file
  (\<open>s_\<close>; the history is the list of its entries, so \<open>history_len\<close> is the length of the list)
  and what stands for the outside (\<open>e_\<close>): the bytes still to be read from the terminal, the
  window size that \<open>ioctl\<close> reports, the clock, the registered callbacks, and the trace of
  everything written. An input \<open>None\<close> is a \<open>read\<close> that fails; at the end of the list \<open>read\<close>
  returns 0. \<open>e_junk\<close> is the value of a \<open>char\<close> variable that nothing was stored in. All
  functions return an \<open>option\<close>: \<open>None\<close> is an access outside an array, a division by zero, or a
  loop that does not end.
\<close>

section \<open>State\<close>

datatype event =
    Tty string          \<comment> \<open>\<open>write\<close> to the terminal\<close>
  | Stdio string        \<comment> \<open>\<open>printf\<close>\<close>
  | Beep
  | Highlight string nat
  | HighlightCancel
  | Errno_again
  | Errno_notty
  | Errno_reset
  | Note string         \<comment> \<open>stderr\<close>

record ed =
  l_buf :: string
  l_buflen :: nat
  l_prompt :: string
  l_plen :: nat
  l_pos :: nat
  l_oldpos :: nat
  l_len :: nat
  l_cols :: nat
  l_maxrows :: nat
  l_hindex :: int
  s_mlmode :: bool
  s_history :: "string list"
  s_hmax :: nat
  s_keymap :: "int list"
  s_lastread :: nat
  s_pasting :: bool
  s_ansi :: string
  s_active :: bool
  e_input :: "char option list"
  e_winsize :: nat
  e_clock :: "nat \<Rightarrow> nat"
  e_tick :: nat
  e_write_ok :: bool
  e_junk :: char
  e_complete :: "(string \<Rightarrow> string list) option"
  e_hl :: bool
  e_hlcancel :: bool
  e_trace :: "event list"

abbreviation LINENOISE_MAX_LINE :: nat where
  "LINENOISE_MAX_LINE \<equiv> 4096"

definition emit_ev :: "event \<Rightarrow> ed \<Rightarrow> ed" where
  "emit_ev v e = e\<lparr>e_trace := e_trace e @ [v]\<rparr>"

text \<open>\<open>write\<close>: whether it succeeded, and the state.\<close>

definition tty_write :: "string \<Rightarrow> ed \<Rightarrow> bool \<times> ed" where
  "tty_write s e = (if e_write_ok e then (True, emit_ev (Tty s) e) else (False, e))"

text \<open>\<open>read\<close> of one byte into a variable that holds \<open>c\<close>: the result, the byte, the state.\<close>

definition tty_read :: "char \<Rightarrow> ed \<Rightarrow> int \<times> char \<times> ed" where
  "tty_read c e =
     (case e_input e of
        [] \<Rightarrow> (0, c, e)
      | None # xs \<Rightarrow> (-1, c, e\<lparr>e_input := xs\<rparr>)
      | Some d # xs \<Rightarrow> (1, d, e\<lparr>e_input := xs\<rparr>))"

definition system_time :: "ed \<Rightarrow> nat \<times> ed" where
  "system_time e = (e_clock e (e_tick e), e\<lparr>e_tick := e_tick e + 1\<rparr>)"

definition key :: "ed \<Rightarrow> nat \<Rightarrow> int" where
  "key e k = s_keymap e ! k"

section \<open>Escape sequences and the append buffer\<close>

abbreviation ESC :: char where
  "ESC \<equiv> CHR 0x1B"

definition csi :: "nat \<Rightarrow> char \<Rightarrow> string" where
  "csi n c = [ESC, CHR ''[''] @ show_nat n @ [c]"

definition erase_right :: string where
  "erase_right = [ESC] @ ''[0K''"

definition reset_color :: string where
  "reset_color = [ESC] @ ''[m''"

type_synonym abuf = string

definition abInit :: abuf where
  "abInit = []"

definition abAppend :: "abuf \<Rightarrow> string \<Rightarrow> abuf" where
  "abAppend ab s = ab @ s"

section \<open>Terminal size\<close>

text \<open>\<open>sscanf\<close> of one \<open>%d\<close>: white space, a sign, at least one digit.\<close>

definition scan_int :: "string \<Rightarrow> (int \<times> string) option" where
  "scan_int s =
     (let t = dropWhile isspace s;
          (neg, u) = (case t of [] \<Rightarrow> (False, []) | c # cs \<Rightarrow>
                        if c = CHR ''-'' then (True, cs)
                        else if c = CHR ''+'' then (False, cs) else (False, t));
          (n, v) = read_digits 0 u
      in if length v = length u then None else Some (if neg then - int n else int n, v))"

text \<open>The loop that reads the response, up to \<open>R\<close> or 31 bytes.\<close>

fun read_response :: "nat \<Rightarrow> ed \<Rightarrow> string \<times> ed" where
  "read_response 0 e = ([], e)"
| "read_response (Suc n) e =
     (let (nread, c, e1) = tty_read (e_junk e) e in
      if nread \<noteq> 1 then ([], e1)
      else if c = CHR ''R'' then ([], e1)
      else (let (s, e2) = read_response n e1 in (c # s, e2)))"

definition getCursorPosition :: "ed \<Rightarrow> int \<times> ed" where
  "getCursorPosition e =
     (let (ok, e1) = tty_write ([ESC] @ ''[6n'') e in
      if \<not> ok then (-1, e1)
      else (let (s, e2) = read_response 31 e1;
                b = s @ [NUL] in
        if schar (b ! 0) \<noteq> key e KM_ESC \<or> length s < 2 \<or> b ! 1 \<noteq> CHR ''['' then (-1, e2)
        else (case scan_int (drop 2 s) of
            None \<Rightarrow> (-1, e2)
          | Some (rows, t) \<Rightarrow>
              (case t of
                 [] \<Rightarrow> (-1, e2)
               | c # u \<Rightarrow>
                   if c \<noteq> CHR '';'' then (-1, e2)
                   else (case scan_int u of None \<Rightarrow> (-1, e2) | Some (cols, _) \<Rightarrow> (cols, e2))))))"

definition getColumns :: "ed \<Rightarrow> int \<times> ed" where
  "getColumns e =
     (if e_winsize e = 0 then
        (let (start, e1) = getCursorPosition e in
         if start = -1 then (80, e1)
         else (let (ok, e2) = tty_write ([ESC] @ ''[999C'') e1 in
           if \<not> ok then (80, e2)
           else (let (cols, e3) = getCursorPosition e2 in
             if cols = -1 then (80, e3)
             else (cols, if cols > start then snd (tty_write (csi (nat (cols - start)) CHR ''D'') e3)
                         else e3))))
      else (int (e_winsize e), e))"

definition linenoiseClearScreen :: "ed \<Rightarrow> ed" where
  "linenoiseClearScreen e = snd (tty_write ([ESC] @ ''[H'' @ [ESC] @ ''[2J'') e)"

definition linenoiseBeep :: "ed \<Rightarrow> ed" where
  "linenoiseBeep e = emit_ev Beep e"

section \<open>Refreshing the line\<close>

text \<open>
  The two scrolling loops of \<open>refreshSingleLine\<close> count down \<open>size_t\<close> variables; with a prompt
  as wide as the terminal they run through zero. \<open>while_option\<close> is \<open>None\<close> for a terminal of
  no columns, where the first loop does not end.
\<close>

definition scroll_to_cursor :: "nat \<Rightarrow> nat \<Rightarrow> nat \<times> nat \<times> nat \<Rightarrow> (nat \<times> nat \<times> nat) option" where
  "scroll_to_cursor cols plen s =
     while_option (\<lambda>(off, len, pos). cols \<le> (plen + pos) mod 2 ^ 64)
       (\<lambda>(off, len, pos). (off + 1, sz_sub len 1, sz_sub pos 1)) s"

definition trim_to_width :: "nat \<Rightarrow> nat \<Rightarrow> nat \<Rightarrow> nat option" where
  "trim_to_width cols plen n =
     while_option (\<lambda>n. cols < (plen + n) mod 2 ^ 64) (\<lambda>n. sz_sub n 1) n"

definition refreshSingleLine :: "ed \<Rightarrow> ed option" where
  "refreshSingleLine e =
     (let plen = length (l_prompt e) in
      do {
        (off, len, pos) \<leftarrow> scroll_to_cursor (l_cols e) plen (0, l_len e, l_pos e);
        len \<leftarrow> trim_to_width (l_cols e) plen len;
        text \<leftarrow> block_c (l_buf e) off len;
        let ab = abAppend abInit [CHR 0x0D];
        let ab = abAppend ab (s_ansi e);
        let ab = abAppend ab (l_prompt e);
        let ab = abAppend ab reset_color;
        let ab = abAppend ab text;
        let ab = abAppend ab erase_right;
        let ab = abAppend ab ([CHR 0x0D] @ csi (pos + plen) CHR ''C'');
        Some (snd (tty_write ab e))
      })"

definition refreshMultiLine :: "ed \<Rightarrow> ed option" where
  "refreshMultiLine e =
     (if l_cols e = 0 then None else
      (let plen = length (l_prompt e);
           rows = (plen + l_len e + l_cols e - 1) div l_cols e;
           rpos = (plen + l_oldpos e + l_cols e) div l_cols e;
           old_rows = l_maxrows e;
           maxrows = (if rows > l_maxrows e then rows else l_maxrows e);
           ab = (if int old_rows - int rpos > 0
                 then abAppend abInit (csi (old_rows - rpos) CHR ''B'') else abInit);
           ab = abAppend ab (concat (replicate (old_rows - 1)
                  ([CHR 0x0D] @ erase_right @ [ESC] @ ''[1A'')));
           ab = abAppend ab ([CHR 0x0D] @ erase_right);
           ab = abAppend ab (s_ansi e);
           ab = abAppend ab (l_prompt e);
           ab = abAppend ab reset_color
       in do {
         text \<leftarrow> block_c (l_buf e) 0 (l_len e);
         let ab = abAppend ab text;
         let wrapped = (l_pos e \<noteq> 0 \<and> l_pos e = l_len e \<and> (l_pos e + plen) mod l_cols e = 0);
         let ab = (if wrapped then abAppend (abAppend ab [CHR 0x0A]) [CHR 0x0D] else ab);
         let rows2 = (if wrapped then rows + 1 else rows);
         let maxrows2 = (if wrapped \<and> rows2 > maxrows then rows2 else maxrows);
         let rpos2 = (plen + l_pos e + l_cols e) div l_cols e;
         let ab = (if int rows2 - int rpos2 > 0 then abAppend ab (csi (rows2 - rpos2) CHR ''A'') else ab);
         let col = (plen + l_pos e) mod l_cols e;
         let ab = abAppend ab ([CHR 0x0D] @ (if col \<noteq> 0 then csi col CHR ''C'' else []));
         Some (snd (tty_write ab (e\<lparr>l_oldpos := l_pos e, l_maxrows := maxrows2\<rparr>)))
       }))"

definition refreshLine :: "ed \<Rightarrow> ed option" where
  "refreshLine e = (if s_mlmode e then refreshMultiLine e else refreshSingleLine e)"

section \<open>Invariant\<close>

text \<open>
  The buffer is the array of \<open>buflen + 1\<close> bytes that \<open>linenoiseEdit\<close> is given; \<open>len\<close> bytes of
  it are the line, and a NUL comes somewhere after them.
\<close>

definition ed_ok :: "ed \<Rightarrow> bool" where
  "ed_ok e \<longleftrightarrow> l_pos e \<le> l_len e \<and> l_len e \<le> l_buflen e \<and> length (l_buf e) = l_buflen e + 1 \<and>
     0 < l_buflen e \<and> NUL \<in> set (drop (l_len e) (l_buf e)) \<and> 0 < l_cols e \<and> s_mlmode e"

definition line :: "ed \<Rightarrow> string" where
  "line e = take (l_len e) (l_buf e)"

text \<open>The two sides of the cursor: what an editing operation is about.\<close>

definition sides :: "ed \<Rightarrow> string \<times> string" where
  "sides e = (take (l_pos e) (l_buf e), drop (l_pos e) (line e))"

definition terminated :: "ed \<Rightarrow> bool" where
  "terminated e \<longleftrightarrow> l_buf e ! l_len e = NUL"

text \<open>What writing to the terminal may change.\<close>

definition redrawn :: "ed \<Rightarrow> ed \<Rightarrow> bool" where
  "redrawn e e' \<longleftrightarrow>
     e\<lparr>l_oldpos := 0, l_maxrows := 0, e_trace := []\<rparr> = e'\<lparr>l_oldpos := 0, l_maxrows := 0, e_trace := []\<rparr> \<and>
     prefix (e_trace e) (e_trace e')"

lemma redrawn_refl [simp]: "redrawn e e"
  by (simp add: redrawn_def)

lemma redrawn_trans: "redrawn e f \<Longrightarrow> redrawn f g \<Longrightarrow> redrawn e g"
  unfolding redrawn_def by (auto intro: prefix_order.trans)

lemma redrawn_emit [intro]: "redrawn e (emit_ev v e)"
  by (simp add: redrawn_def emit_ev_def)

lemma redrawn_write [intro]: "tty_write s e = (ok, e') \<Longrightarrow> redrawn e e'"
  by (auto simp: tty_write_def split: if_splits)

lemma redrawn_write_snd [simp]: "redrawn e (snd (tty_write s e))"
  by (auto simp: tty_write_def)

lemma redrawn_text:
  assumes "redrawn e e'"
  shows "l_buf e' = l_buf e" "l_pos e' = l_pos e" "l_len e' = l_len e" "l_buflen e' = l_buflen e"
    "l_cols e' = l_cols e" "s_mlmode e' = s_mlmode e" "s_history e' = s_history e"
    "l_hindex e' = l_hindex e" "e_input e' = e_input e" "s_keymap e' = s_keymap e"
    "l_prompt e' = l_prompt e"
  using assms by (cases e; cases e'; simp add: redrawn_def)+

lemma redrawn_ok: "redrawn e e' \<Longrightarrow> ed_ok e' = ed_ok e"
  by (simp add: redrawn_text ed_ok_def)

lemma redrawn_sides: "redrawn e e' \<Longrightarrow> line e' = line e" "redrawn e e' \<Longrightarrow> sides e' = sides e"
  "redrawn e e' \<Longrightarrow> terminated e' = terminated e"
  by (simp_all add: redrawn_text line_def sides_def terminated_def)

lemma redrawn_rows: "redrawn e (e\<lparr>l_oldpos := a, l_maxrows := b\<rparr>)"
  by (simp add: redrawn_def)

lemma refreshMultiLine_ok:
  assumes "0 < l_cols e" "l_len e \<le> length (l_buf e)"
  shows "\<exists>e'. refreshMultiLine e = Some e' \<and> redrawn e e'"
proof -
  have "\<exists>a b s. refreshMultiLine e = Some (snd (tty_write s (e\<lparr>l_oldpos := a, l_maxrows := b\<rparr>)))"
  proof -
    have cols: "(l_cols e = 0) = False" using assms by simp
    have blk: "block_c (l_buf e) 0 (l_len e) = Some (take (l_len e) (drop 0 (l_buf e)))"
      using assms by (intro block_Some) simp
    show ?thesis
      unfolding refreshMultiLine_def Let_def cols blk if_False bind.bind_lunit
      by (intro exI) (rule refl)
  qed
  then show ?thesis by (metis redrawn_rows redrawn_trans redrawn_write_snd)
qed

lemma refreshLine_ok:
  assumes "ed_ok e"
  obtains e' where "refreshLine e = Some e'" "redrawn e e'"
  using refreshMultiLine_ok [of e] assms by (auto simp: ed_ok_def refreshLine_def)

end
