(* ===== verification/Line_Ops.thy ===== *)
theory Line_Ops
  imports Line_State
begin

text \<open>
  The editing operations of \<open>linenoise.c\<close> and what they do to the line: each one is a function
  on the text before and after the cursor (\<open>sides\<close>). The locale \<open>line_op\<close> states that contract
  once; every operation that keeps it is an interpretation.
\<close>

section \<open>Scanning over the buffer\<close>

text \<open>\<open>while (pos < len && P buf[pos]) pos++\<close> and \<open>while (pos > 0 && P buf[pos-1]) pos--\<close>.\<close>

function scan_right :: "(char \<Rightarrow> bool) \<Rightarrow> string \<Rightarrow> nat \<Rightarrow> nat \<Rightarrow> nat option" where
  "scan_right P b len pos =
     (if pos < len then
        do { c \<leftarrow> rd b pos; if P c then scan_right P b len (pos + 1) else Some pos }
      else Some pos)"
  by pat_completeness auto
termination by (relation "measure (\<lambda>(P, b, len, pos). len - pos)") auto

fun scan_left :: "(char \<Rightarrow> bool) \<Rightarrow> string \<Rightarrow> nat \<Rightarrow> nat option" where
  "scan_left P b 0 = Some 0"
| "scan_left P b (Suc p) = do { c \<leftarrow> rd b p; if P c then scan_left P b p else Some (Suc p) }"

text \<open>\<open>while (pos > 0 && P buf[pos]) pos--\<close>\<close>

fun scan_left_at :: "(char \<Rightarrow> bool) \<Rightarrow> string \<Rightarrow> nat \<Rightarrow> nat option" where
  "scan_left_at P b 0 = Some 0"
| "scan_left_at P b (Suc p) =
     do { c \<leftarrow> rd b (Suc p); if P c then scan_left_at P b p else Some (Suc p) }"

declare scan_right.simps [simp del]

abbreviation SP :: char where
  "SP \<equiv> CHR '' ''"

definition strncpy :: "string \<Rightarrow> string \<Rightarrow> nat \<Rightarrow> string option" where
  "strncpy b s n =
     (if n \<le> length b then Some (take n s @ replicate (n - length s) NUL @ drop n b) else None)"

section \<open>Operations\<close>

definition linenoiseEditInsert :: "char \<Rightarrow> ed \<Rightarrow> (int \<times> ed) option" where
  "linenoiseEditInsert c e =
     (if l_len e < l_buflen e then
        do {
          (ret, e1) \<leftarrow>
            (if l_len e = l_pos e then
               do {
                 b \<leftarrow> wr (l_buf e) (l_pos e) c;
                 b \<leftarrow> wr b (l_len e + 1) NUL;
                 let e1 = e\<lparr>l_buf := b, l_pos := l_pos e + 1, l_len := l_len e + 1\<rparr>;
                 if \<not> s_mlmode e1 \<and> l_plen e1 + l_len e1 < l_cols e1 then
                   (let (ok, e2) = tty_write [c] e1 in Some (if ok then 0 else -1, e2))
                 else map_option (\<lambda>e2. (0, e2)) (refreshLine e1)
               }
             else
               do {
                 b \<leftarrow> memmove_c (l_buf e) (l_pos e + 1) (l_pos e) (sz_sub (l_len e) (l_pos e));
                 b \<leftarrow> wr b (l_pos e) c;
                 b \<leftarrow> wr b (l_len e + 1) NUL;
                 map_option (\<lambda>e2. (0, e2))
                   (refreshLine (e\<lparr>l_buf := b, l_pos := l_pos e + 1, l_len := l_len e + 1\<rparr>))
               });
          if ret \<noteq> 0 then Some (ret, e1)
          else if \<not> s_pasting e1 \<and> e_hl e1 then
            do { s \<leftarrow> cstr_of (l_buf e1); Some (0, emit_ev (Highlight s (l_pos e1 - 1)) e1) }
          else Some (0, e1)
        }
      else Some (0, e))"

definition linenoiseEditMoveLeft :: "ed \<Rightarrow> ed option" where
  "linenoiseEditMoveLeft e =
     (if l_pos e > 0 then refreshLine (e\<lparr>l_pos := l_pos e - 1\<rparr>) else Some e)"

definition linenoiseEditMoveRight :: "ed \<Rightarrow> ed option" where
  "linenoiseEditMoveRight e =
     (if l_pos e \<noteq> l_len e then refreshLine (e\<lparr>l_pos := l_pos e + 1\<rparr>) else Some e)"

definition linenoiseEditMoveWordEnd :: "ed \<Rightarrow> ed option" where
  "linenoiseEditMoveWordEnd e =
     (if l_len e = 0 \<or> l_len e \<le> l_pos e then Some e
      else do {
        c \<leftarrow> rd (l_buf e) (l_pos e);
        p \<leftarrow> (if c = SP then scan_right (\<lambda>c. c = SP) (l_buf e) (l_len e) (l_pos e)
              else Some (l_pos e));
        p \<leftarrow> scan_right (\<lambda>c. c \<noteq> SP) (l_buf e) (l_len e) p;
        refreshLine (e\<lparr>l_pos := p\<rparr>)
      })"

text \<open>At position 0 of a non-empty line this reads \<open>buf[-1]\<close>.\<close>

definition linenoiseEditMoveWordStart :: "ed \<Rightarrow> ed option" where
  "linenoiseEditMoveWordStart e =
     (if l_len e = 0 then Some e
      else do {
        c \<leftarrow> (if l_pos e = 0 then None else rd (l_buf e) (l_pos e - 1));
        let p = (if c = SP then l_pos e - 1 else l_pos e);
        d \<leftarrow> rd (l_buf e) p;
        p \<leftarrow> (if d = SP then scan_left_at (\<lambda>c. c = SP) (l_buf e) p else Some p);
        p \<leftarrow> scan_left (\<lambda>c. c \<noteq> SP) (l_buf e) p;
        refreshLine (e\<lparr>l_pos := p\<rparr>)
      })"

definition linenoiseEditMoveHome :: "ed \<Rightarrow> ed option" where
  "linenoiseEditMoveHome e = (if l_pos e \<noteq> 0 then refreshLine (e\<lparr>l_pos := 0\<rparr>) else Some e)"

definition linenoiseEditMoveEnd :: "ed \<Rightarrow> ed option" where
  "linenoiseEditMoveEnd e =
     (if l_pos e \<noteq> l_len e then refreshLine (e\<lparr>l_pos := l_len e\<rparr>) else Some e)"

definition linenoiseEditDelete :: "ed \<Rightarrow> ed option" where
  "linenoiseEditDelete e =
     (if l_len e > 0 \<and> l_pos e < l_len e then
        do {
          b \<leftarrow> memmove_c (l_buf e) (l_pos e) (l_pos e + 1) (l_len e - l_pos e - 1);
          b \<leftarrow> wr b (l_len e - 1) NUL;
          refreshLine (e\<lparr>l_buf := b, l_len := l_len e - 1\<rparr>)
        }
      else Some e)"

definition linenoiseEditBackspace :: "ed \<Rightarrow> ed option" where
  "linenoiseEditBackspace e =
     (if l_pos e > 0 \<and> l_len e > 0 then
        do {
          b \<leftarrow> memmove_c (l_buf e) (l_pos e - 1) (l_pos e) (sz_sub (l_len e) (l_pos e));
          b \<leftarrow> wr b (l_len e - 1) NUL;
          refreshLine (e\<lparr>l_buf := b, l_pos := l_pos e - 1, l_len := l_len e - 1\<rparr>)
        }
      else Some e)"

definition linenoiseEditDeletePrevWord :: "ed \<Rightarrow> ed option" where
  "linenoiseEditDeletePrevWord e =
     do {
       p \<leftarrow> scan_left (\<lambda>c. c = SP) (l_buf e) (l_pos e);
       p \<leftarrow> scan_left (\<lambda>c. c \<noteq> SP) (l_buf e) p;
       b \<leftarrow> memmove_c (l_buf e) p (l_pos e) (sz_sub (l_len e + 1) (l_pos e));
       refreshLine (e\<lparr>l_buf := b, l_pos := p, l_len := sz_sub (l_len e) (l_pos e - p)\<rparr>)
     }"

definition linenoiseEditDeleteNextWord :: "ed \<Rightarrow> ed option" where
  "linenoiseEditDeleteNextWord e =
     do {
       p \<leftarrow> scan_right (\<lambda>c. c = SP) (l_buf e) (l_len e) (l_pos e);
       p \<leftarrow> scan_right (\<lambda>c. c \<noteq> SP) (l_buf e) (l_len e) p;
       b \<leftarrow> memmove_c (l_buf e) (l_pos e) p (sz_sub (l_len e) p);
       refreshLine (e\<lparr>l_buf := b, l_len := l_len e - (p - l_pos e)\<rparr>)
     }"

text \<open>The operations that \<open>linenoiseEdit\<close> has in its own body.\<close>

definition swap_chars :: "ed \<Rightarrow> ed option" where
  "swap_chars e =
     (if l_pos e > 0 \<and> l_pos e < l_len e then
        do {
          aux \<leftarrow> rd (l_buf e) (l_pos e - 1);
          c \<leftarrow> rd (l_buf e) (l_pos e);
          b \<leftarrow> wr (l_buf e) (l_pos e - 1) c;
          b \<leftarrow> wr b (l_pos e) aux;
          refreshLine (e\<lparr>l_buf := b,
            l_pos := (if l_pos e \<noteq> l_len e - 1 then l_pos e + 1 else l_pos e)\<rparr>)
        }
      else Some e)"

definition clear_line :: "ed \<Rightarrow> ed option" where
  "clear_line e =
     do { b \<leftarrow> wr (l_buf e) 0 NUL; refreshLine (e\<lparr>l_buf := b, l_pos := 0, l_len := 0\<rparr>) }"

definition delete_to_end :: "ed \<Rightarrow> ed option" where
  "delete_to_end e =
     do { b \<leftarrow> wr (l_buf e) (l_pos e) NUL; refreshLine (e\<lparr>l_buf := b, l_len := l_pos e\<rparr>) }"

datatype history_dir = History_next | History_prev

definition linenoiseEditHistoryNext :: "history_dir \<Rightarrow> ed \<Rightarrow> ed option" where
  "linenoiseEditHistoryNext dir e =
     (let history_len = int (length (s_history e)) in
      if history_len > 1 then
        do {
          cur \<leftarrow> cstr_of (l_buf e);
          let i = history_len - 1 - l_hindex e;
          h \<leftarrow> (if 0 \<le> i then wr (s_history e) (nat i) cur else None);
          let e1 = e\<lparr>s_history := h\<rparr>;
          let index = l_hindex e + (if dir = History_prev then 1 else -1);
          if index < 0 then Some (e1\<lparr>l_hindex := 0\<rparr>)
          else if index \<ge> history_len then Some (e1\<lparr>l_hindex := history_len - 1\<rparr>)
          else do {
            s \<leftarrow> rd h (nat (history_len - 1 - index));
            b \<leftarrow> strncpy (l_buf e1) s (l_buflen e1);
            b \<leftarrow> wr b (l_buflen e1 - 1) NUL;
            n \<leftarrow> strlen_c b;
            refreshLine (e1\<lparr>l_hindex := index, l_buf := b, l_pos := n, l_len := n\<rparr>)
          }
        }
      else Some e)"

definition set_current :: "string \<Rightarrow> ed \<Rightarrow> ed option" where
  "set_current str e =
     do {
       b \<leftarrow> strncpy (l_buf e) str (l_buflen e);
       b \<leftarrow> wr b (l_buflen e - 1) NUL;
       n \<leftarrow> strlen_c b;
       Some (e\<lparr>l_buf := b, l_len := n\<rparr>)
     }"

section \<open>Scanning, described on strings\<close>

lemma scan_right_eq:
  "pos \<le> len \<Longrightarrow> len \<le> length b \<Longrightarrow>
   scan_right P b len pos = Some (pos + length (takeWhile P (drop pos (take len b))))"
proof (induction P b len pos rule: scan_right.induct)
  case (1 P b len pos)
  show ?case
  proof (cases "pos < len")
    case True
    then have "drop pos (take len b) = b ! pos # drop (pos + 1) (take len b)"
      using "1.prems" by (simp add: Cons_nth_drop_Suc [symmetric])
    with True 1 show ?thesis by (subst scan_right.simps) (simp add: rd_Some)
  qed (use "1.prems" in \<open>subst scan_right.simps, simp\<close>)
qed

lemma scan_left_eq:
  "pos \<le> length b \<Longrightarrow> scan_left P b pos = Some (pos - length (takeWhile P (rev (take pos b))))"
proof (induction P b pos rule: scan_left.induct)
  case (2 P b p)
  then have "rev (take (Suc p) b) = b ! p # rev (take p b)"
    by (simp add: take_Suc_conv_app_nth)
  with 2 show ?case by (simp add: rd_Some)
qed simp

text \<open>Trailing spaces and the word before them, or leading spaces and the word after them.\<close>

definition cut_word :: "string \<Rightarrow> string" where
  "cut_word l = rev (dropWhile (\<lambda>c. c \<noteq> SP) (dropWhile (\<lambda>c. c = SP) (rev l)))"

definition word_ahead :: "string \<Rightarrow> string" where
  "word_ahead r = takeWhile (\<lambda>c. c = SP) r @ takeWhile (\<lambda>c. c \<noteq> SP) (dropWhile (\<lambda>c. c = SP) r)"

definition cut_word_ahead :: "string \<Rightarrow> string" where
  "cut_word_ahead r = dropWhile (\<lambda>c. c \<noteq> SP) (dropWhile (\<lambda>c. c = SP) r)"

lemma word_ahead_append: "word_ahead r @ cut_word_ahead r = r"
  by (simp add: word_ahead_def cut_word_ahead_def)

lemma rev_takeWhile_split: "rev (dropWhile P (rev l)) @ rev (takeWhile P (rev l)) = l"
  by (metis rev_append rev_rev_ident takeWhile_dropWhile_id)

lemma take_strip: "take (length l - length (takeWhile P (rev l))) l = rev (dropWhile P (rev l))"
proof -
  have "length (rev (dropWhile P (rev l))) = length l - length (takeWhile P (rev l))"
    using arg_cong [OF rev_takeWhile_split [of P l], of length] by simp
  then show ?thesis using rev_takeWhile_split [of P l] by (metis append_eq_conv_conj)
qed

lemma scan_word_left:
  assumes "b = l @ s"
  shows "\<exists>p. scan_left (\<lambda>c. c = SP) b (length l) = Some p \<and> p \<le> length l \<and>
    scan_left (\<lambda>c. c \<noteq> SP) b p = Some (length (cut_word l))"
proof -
  let ?p = "length l - length (takeWhile (\<lambda>c. c = SP) (rev l))"
  let ?t = "rev (dropWhile (\<lambda>c. c = SP) (rev l))"
  have t: "take ?p b = ?t" using take_strip [of l "\<lambda>c. c = SP"] by (simp add: assms)
  have len: "length ?t = ?p"
    using arg_cong [OF rev_takeWhile_split [of "\<lambda>c. c = SP" l], of length] by simp
  have "scan_left (\<lambda>c. c \<noteq> SP) b ?p = Some (length ?t - length (takeWhile (\<lambda>c. c \<noteq> SP) (rev ?t)))"
    by (subst scan_left_eq) (simp_all only: t len, simp add: assms)
  moreover have "length (cut_word l) = length ?t - length (takeWhile (\<lambda>c. c \<noteq> SP) (rev ?t))"
    using take_strip [of ?t "\<lambda>c. c \<noteq> SP"] by (metis cut_word_def length_take min.absorb2
        diff_le_self rev_rev_ident)
  moreover have "scan_left (\<lambda>c. c = SP) b (length l) = Some ?p"
    by (subst scan_left_eq) (simp_all add: assms)
  ultimately show ?thesis by auto
qed

lemma cut_word_prefix: "\<exists>w. l = cut_word l @ w"
  unfolding cut_word_def
  by (metis (no_types, lifting) append.assoc rev_rev_ident rev_takeWhile_split)


section \<open>The contract of an operation\<close>

text \<open>An operation on the line leaves everything alone but the line and the screen.\<close>

definition kept :: "ed \<Rightarrow> ed \<Rightarrow> bool" where
  "kept e e' \<longleftrightarrow>
     e\<lparr>l_oldpos := 0, l_maxrows := 0, e_trace := [], l_buf := [], l_pos := 0, l_len := 0\<rparr> =
     e'\<lparr>l_oldpos := 0, l_maxrows := 0, e_trace := [], l_buf := [], l_pos := 0, l_len := 0\<rparr> \<and>
     prefix (e_trace e) (e_trace e')"

lemma kept_refl [simp]: "kept e e"
  by (simp add: kept_def)

lemma kept_trans: "kept e f \<Longrightarrow> kept f g \<Longrightarrow> kept e g"
  unfolding kept_def by (auto intro: prefix_order.trans)

lemma redrawn_kept:
  assumes "redrawn e e'"
  shows "kept e e'"
proof -
  have "e\<lparr>l_oldpos := 0, l_maxrows := 0, e_trace := []\<rparr> =
      e'\<lparr>l_oldpos := 0, l_maxrows := 0, e_trace := []\<rparr>"
    using assms by (simp add: redrawn_def)
  then have "e\<lparr>l_oldpos := 0, l_maxrows := 0, e_trace := [], l_buf := [], l_pos := 0, l_len := 0\<rparr> =
      e'\<lparr>l_oldpos := 0, l_maxrows := 0, e_trace := [], l_buf := [], l_pos := 0, l_len := 0\<rparr>"
    by (rule arg_cong [where f = "\<lambda>e. e\<lparr>l_buf := [], l_pos := 0, l_len := 0\<rparr>"])
  with assms show ?thesis by (simp add: kept_def redrawn_def)
qed

lemma kept_update [simp]:
  "kept e (e\<lparr>l_buf := b\<rparr>) " "kept e (e\<lparr>l_pos := p\<rparr>)" "kept e (e\<lparr>l_len := n\<rparr>)"
  "kept e (e\<lparr>l_buf := b, l_pos := p\<rparr>)" "kept e (e\<lparr>l_buf := b, l_len := n\<rparr>)"
  "kept e (e\<lparr>l_buf := b, l_pos := p, l_len := n\<rparr>)"
  by (simp_all add: kept_def)

lemma kept_fields:
  assumes "kept e e'"
  shows "l_buflen e' = l_buflen e" "l_cols e' = l_cols e" "s_mlmode e' = s_mlmode e"
    "s_history e' = s_history e" "l_hindex e' = l_hindex e" "e_input e' = e_input e"
    "s_keymap e' = s_keymap e" "l_prompt e' = l_prompt e" "s_pasting e' = s_pasting e"
    "e_hl e' = e_hl e" "e_complete e' = e_complete e" "e_junk e' = e_junk e"
    "s_lastread e' = s_lastread e" "s_hmax e' = s_hmax e" "e_winsize e' = e_winsize e"
    "e_write_ok e' = e_write_ok e"
  using assms by (cases e; cases e'; simp add: kept_def)+

definition edited :: "ed \<Rightarrow> string \<times> string \<Rightarrow> ed \<Rightarrow> bool" where
  "edited e s e' \<longleftrightarrow> ed_ok e' \<and> sides e' = s \<and> kept e e'"

lemma ed_split:
  assumes "ed_ok e"
  obtains l r c t where "l_buf e = l @ r @ c # t" "l_pos e = length l" "l_len e = length l + length r"
    "sides e = (l, r)" "length l + length r + length t = l_buflen e" "terminated e = (c = NUL)" "NUL \<in> set (c # t)"
proof -
  define l r t where "l = take (l_pos e) (l_buf e)" and "r = drop (l_pos e) (line e)"
    and "t = drop (l_len e) (l_buf e)"
  have "l = take (l_pos e) (line e)" using assms
    by (simp add: l_def line_def ed_ok_def min_absorb1)
  then have "l @ r = line e" by (simp add: r_def)
  moreover have "line e @ t = l_buf e" by (simp add: t_def line_def)
  ultimately have b: "l_buf e = l @ r @ t" by (metis append.assoc)
  have len: "l_pos e = length l" "l_len e = length l + length r"
    using assms by (simp_all add: l_def r_def line_def ed_ok_def)
  have "t \<noteq> []" using assms by (simp add: t_def ed_ok_def)
  then obtain c u where t: "t = c # u" by (cases t) auto
  moreover have "terminated e = (c = NUL)"
    using b len t by (simp add: terminated_def nth_append)
  moreover have "length l + length r + length u = l_buflen e"
    using assms arg_cong [OF b, of length] t by (simp add: ed_ok_def)
  moreover have "sides e = (l, r)" by (simp add: sides_def l_def r_def)
  moreover have "drop (l_len e) (l_buf e) = c # u" using t by (simp add: t_def)
  ultimately show ?thesis using that [of l r c u] b len assms by (simp add: ed_ok_def)
qed

lemma sides_eq:
  "l_buf e = l @ r @ t \<Longrightarrow> l_pos e = length l \<Longrightarrow> l_len e = length l + length r \<Longrightarrow>
   sides e = (l, r)"
  by (simp add: sides_def line_def)

text \<open>An operation ends by redrawing a state whose buffer is in the right shape.\<close>

lemma refresh_edited:
  assumes "ed_ok e" "kept e e1"
    and "l_buf e1 = l @ r @ c # t" "l_pos e1 = length l" "l_len e1 = length l + length r"
    and "length (l_buf e1) = l_buflen e + 1" "NUL \<in> set (c # t)"
  shows "\<exists>e'. refreshLine e1 = Some e' \<and> edited e (l, r) e' \<and> terminated e' = (c = NUL)"
proof -
  have ok: "ed_ok e1"
    using assms arg_cong [OF assms(3), of length] by (simp add: ed_ok_def kept_fields)
  obtain e' where e': "refreshLine e1 = Some e'" "redrawn e1 e'" by (rule refreshLine_ok [OF ok])
  have "terminated e1 = (c = NUL)" using assms(3-5) by (simp add: terminated_def nth_append)
  with e' ok assms(2) sides_eq [OF assms(3-5)] show ?thesis
    by (auto simp: edited_def redrawn_ok redrawn_sides intro: kept_trans redrawn_kept)
qed

locale line_op =
  fixes op :: "ed \<Rightarrow> ed option"
    and pre :: "ed \<Rightarrow> bool"
    and edit :: "string \<times> string \<Rightarrow> string \<times> string"
  assumes op_edits: "ed_ok e \<Longrightarrow> pre e \<Longrightarrow> \<exists>e'. op e = Some e' \<and> edited e (edit (sides e)) e'"
begin

lemma op_safe: "ed_ok e \<Longrightarrow> pre e \<Longrightarrow> op e \<noteq> None"
  using op_edits by force

lemma op_ok: "ed_ok e \<Longrightarrow> pre e \<Longrightarrow> op e = Some e' \<Longrightarrow> ed_ok e' \<and> kept e e'"
  using op_edits by (force simp: edited_def)

lemma op_sides: "ed_ok e \<Longrightarrow> pre e \<Longrightarrow> op e = Some e' \<Longrightarrow> sides e' = edit (sides e)"
  using op_edits by (force simp: edited_def)

end

text \<open>Most operations also leave the line terminated by a NUL.\<close>

locale nul_line_op = line_op +
  assumes op_terminated: "ed_ok e \<Longrightarrow> pre e \<Longrightarrow> op e = Some e' \<Longrightarrow> terminated e \<Longrightarrow> terminated e'"
begin

lemma op_cstr:
  assumes "ed_ok e" "pre e" "op e = Some e'" "terminated e" "NUL \<notin> set (line e')"
  shows "cstr_of (l_buf e') = Some (line e')"
proof -
  have ok: "ed_ok e'" and t: "terminated e'" using assms op_ok op_terminated by auto
  have "l_buf e' = line e' @ NUL # drop (l_len e' + 1) (l_buf e')"
    using ok t id_take_nth_drop [of "l_len e'" "l_buf e'"]
    by (simp add: line_def terminated_def ed_ok_def)
  then show ?thesis using cstr_of_append_NUL [OF assms(5)] by metis
qed

end

lemma nul_line_opI:
  assumes "\<And>e l r c t. ed_ok e \<Longrightarrow> pre e \<Longrightarrow> l_buf e = l @ r @ c # t \<Longrightarrow> l_pos e = length l \<Longrightarrow>
      l_len e = length l + length r \<Longrightarrow> sides e = (l, r) \<Longrightarrow>
      length l + length r + length t = l_buflen e \<Longrightarrow> terminated e = (c = NUL) \<Longrightarrow>
      NUL \<in> set (c # t) \<Longrightarrow>
      \<exists>e'. op e = Some e' \<and> edited e (edit (l, r)) e' \<and> (c = NUL \<longrightarrow> terminated e')"
  shows "nul_line_op op pre edit"
proof unfold_locales
  fix e
  assume e: "ed_ok e" "pre e"
  obtain l r c t where "l_buf e = l @ r @ c # t" "l_pos e = length l" "l_len e = length l + length r"
      "sides e = (l, r)" "length l + length r + length t = l_buflen e" "terminated e = (c = NUL)" "NUL \<in> set (c # t)"
    by (rule ed_split [OF e(1)])
  with assms [OF e this] show "\<exists>e'. op e = Some e' \<and> edited e (edit (sides e)) e'" by auto
next
  fix e e'
  assume e: "ed_ok e" "pre e" and op: "op e = Some e'" and t: "terminated e"
  obtain l r c t where "l_buf e = l @ r @ c # t" "l_pos e = length l" "l_len e = length l + length r"
      "sides e = (l, r)" "length l + length r + length t = l_buflen e" "terminated e = (c = NUL)" "NUL \<in> set (c # t)"
    by (rule ed_split [OF e(1)])
  with assms [OF e this] op t show "terminated e'" by auto
qed

lemma edited_same: "ed_ok e \<Longrightarrow> sides e = s \<Longrightarrow> edited e s e"
  by (simp add: edited_def)

end
