(* ===== verification/Line_Edits.thy ===== *)
theory Line_Edits
  imports Line_Ops
begin

text \<open>
  Each editing operation keeps the contract of \<open>line_op\<close>; the interpretations give its safety,
  its effect on the line and the preservation of the invariant.
\<close>

lemmas line_op_simps = carr_simps nth_append take_Cons' drop_Cons' kept_fields

lemma refresh_nul:
  assumes "m = refreshLine e1"
    and "ed_ok e" "kept e e1" "l_buf e1 = l @ r @ c # t" "l_pos e1 = length l"
    "l_len e1 = length l + length r" "length (l_buf e1) = l_buflen e + 1" "NUL \<in> set (c # t)" "b \<longrightarrow> c = NUL"
  shows "\<exists>e'. m = Some e' \<and> edited e (l, r) e' \<and> (b \<longrightarrow> terminated e')"
  using refresh_edited [OF assms(2-8)] assms(1,9) by auto

section \<open>Moving\<close>

fun left1 :: "string \<times> string \<Rightarrow> string \<times> string" where
  "left1 (l, r) = (butlast l, if l = [] then r else last l # r)"

fun right1 :: "string \<times> string \<Rightarrow> string \<times> string" where
  "right1 (l, []) = (l, [])"
| "right1 (l, x # r) = (l @ [x], r)"

interpretation move_left: nul_line_op linenoiseEditMoveLeft "\<lambda>_. True" left1
proof (rule nul_line_opI)
  fix e l r c t
  assume e: "ed_ok e" "l_buf e = l @ r @ c # t" "l_pos e = length l" "l_len e = length l + length r"
    "sides e = (l, r)" "length l + length r + length t = l_buflen e" "terminated e = (c = NUL)" "NUL \<in> set (c # t)"
  show "\<exists>e'. linenoiseEditMoveLeft e = Some e' \<and> edited e (left1 (l, r)) e' \<and> (c = NUL \<longrightarrow> terminated e')"
  proof (cases l rule: rev_cases)
    case Nil
    with e show ?thesis by (simp add: linenoiseEditMoveLeft_def edited_same)
  next
    case (snoc l' x)
    have op: "linenoiseEditMoveLeft e = refreshLine (e\<lparr>l_pos := length l'\<rparr>)"
      using e snoc by (simp add: linenoiseEditMoveLeft_def)
    have "left1 (l, r) = (l', x # r)" using snoc by simp
    then show ?thesis
      by (simp only:) (rule refresh_nul [OF op e(1), where c = c and t = t], use e snoc in simp_all)
  qed
qed

interpretation move_right: nul_line_op linenoiseEditMoveRight "\<lambda>_. True" right1
proof (rule nul_line_opI)
  fix e l r c t
  assume e: "ed_ok e" "l_buf e = l @ r @ c # t" "l_pos e = length l" "l_len e = length l + length r"
    "sides e = (l, r)" "length l + length r + length t = l_buflen e" "terminated e = (c = NUL)" "NUL \<in> set (c # t)"
  show "\<exists>e'. linenoiseEditMoveRight e = Some e' \<and> edited e (right1 (l, r)) e' \<and> (c = NUL \<longrightarrow> terminated e')"
  proof (cases r)
    case Nil
    with e show ?thesis by (simp add: linenoiseEditMoveRight_def edited_same)
  next
    case (Cons x r')
    have op: "linenoiseEditMoveRight e = refreshLine (e\<lparr>l_pos := length l + 1\<rparr>)"
      using e Cons by (simp add: linenoiseEditMoveRight_def)
    have "right1 (l, r) = (l @ [x], r')" using Cons by simp
    then show ?thesis
      by (simp only:) (rule refresh_nul [OF op e(1), where c = c and t = t], use e Cons in simp_all)
  qed
qed

interpretation move_home: nul_line_op linenoiseEditMoveHome "\<lambda>_. True" "\<lambda>(l, r). ([], l @ r)"
proof (rule nul_line_opI)
  fix e l r c t
  assume e: "ed_ok e" "l_buf e = l @ r @ c # t" "l_pos e = length l" "l_len e = length l + length r"
    "sides e = (l, r)" "length l + length r + length t = l_buflen e" "terminated e = (c = NUL)" "NUL \<in> set (c # t)"
  show "\<exists>e'. linenoiseEditMoveHome e = Some e' \<and> edited e (case (l, r) of (l, r) \<Rightarrow> ([], l @ r)) e' \<and>
      (c = NUL \<longrightarrow> terminated e')"
  proof (cases "l = []")
    case True
    with e show ?thesis by (simp add: linenoiseEditMoveHome_def edited_same)
  next
    case False
    have op: "linenoiseEditMoveHome e = refreshLine (e\<lparr>l_pos := 0\<rparr>)"
      using e False by (simp add: linenoiseEditMoveHome_def)
    show ?thesis unfolding prod.case
      by (rule refresh_nul [OF op e(1), where c = c and t = t]) (use e in simp_all)
  qed
qed

interpretation move_end: nul_line_op linenoiseEditMoveEnd "\<lambda>_. True" "\<lambda>(l, r). (l @ r, [])"
proof (rule nul_line_opI)
  fix e l r c t
  assume e: "ed_ok e" "l_buf e = l @ r @ c # t" "l_pos e = length l" "l_len e = length l + length r"
    "sides e = (l, r)" "length l + length r + length t = l_buflen e" "terminated e = (c = NUL)" "NUL \<in> set (c # t)"
  show "\<exists>e'. linenoiseEditMoveEnd e = Some e' \<and> edited e (case (l, r) of (l, r) \<Rightarrow> (l @ r, [])) e' \<and>
      (c = NUL \<longrightarrow> terminated e')"
  proof (cases "r = []")
    case True
    with e show ?thesis by (simp add: linenoiseEditMoveEnd_def edited_same)
  next
    case False
    have op: "linenoiseEditMoveEnd e = refreshLine (e\<lparr>l_pos := length l + length r\<rparr>)"
      using e False by (simp add: linenoiseEditMoveEnd_def)
    show ?thesis unfolding prod.case
      by (rule refresh_nul [OF op e(1), where c = c and t = t]) (use e in simp_all)
  qed
qed

definition word_right :: "string \<times> string \<Rightarrow> string \<times> string" where
  "word_right s = (fst s @ word_ahead (snd s), cut_word_ahead (snd s))"

lemma scan_word_right:
  assumes "b = l @ r @ t"
  shows "\<exists>p. scan_right (\<lambda>c. c = SP) b (length l + length r) (length l) = Some p \<and>
    p \<le> length l + length r \<and> length l \<le> p \<and>
    (r \<noteq> [] \<longrightarrow> hd r \<noteq> SP \<longrightarrow> p = length l) \<and>
    scan_right (\<lambda>c. c \<noteq> SP) b (length l + length r) p = Some (length l + length (word_ahead r))"
proof -
  let ?k = "length (takeWhile (\<lambda>c. c = SP) r)"
  have k: "?k \<le> length r" by (rule length_takeWhile_le)
  have "drop (length l + ?k) (take (length l + length r) b) = dropWhile (\<lambda>c. c = SP) r"
    by (simp add: assms dropWhile_eq_drop)
  then have "scan_right (\<lambda>c. c \<noteq> SP) b (length l + length r) (length l + ?k) =
      Some (length l + length (word_ahead r))"
    using k by (subst scan_right_eq) (auto simp: assms word_ahead_def)
  moreover have "scan_right (\<lambda>c. c = SP) b (length l + length r) (length l) = Some (length l + ?k)"
    by (subst scan_right_eq) (auto simp: assms)
  moreover have "?k = 0" if "r \<noteq> []" "hd r \<noteq> SP" using that by (cases r) auto
  ultimately show ?thesis using k by auto
qed

interpretation word_end: nul_line_op linenoiseEditMoveWordEnd "\<lambda>_. True" word_right
proof (rule nul_line_opI)
  fix e l r c t
  assume e: "ed_ok e" "l_buf e = l @ r @ c # t" "l_pos e = length l" "l_len e = length l + length r"
    "sides e = (l, r)" "length l + length r + length t = l_buflen e" "terminated e = (c = NUL)" "NUL \<in> set (c # t)"
  show "\<exists>e'. linenoiseEditMoveWordEnd e = Some e' \<and> edited e (word_right (l, r)) e' \<and>
      (c = NUL \<longrightarrow> terminated e')"
  proof (cases r)
    case Nil
    with e show ?thesis
      by (simp add: linenoiseEditMoveWordEnd_def edited_same word_right_def word_ahead_def
          cut_word_ahead_def)
  next
    case (Cons x r')
    obtain p where p: "scan_right (\<lambda>c. c = SP) (l_buf e) (length l + length r) (length l) = Some p"
        "r \<noteq> [] \<longrightarrow> hd r \<noteq> SP \<longrightarrow> p = length l"
        "scan_right (\<lambda>c. c \<noteq> SP) (l_buf e) (length l + length r) p =
           Some (length l + length (word_ahead r))"
      using scan_word_right [OF e(2)] by blast
    have "rd (l_buf e) (length l) = Some x" using e Cons by (simp add: rd_Some)
    then have op: "linenoiseEditMoveWordEnd e = refreshLine (e\<lparr>l_pos := length l + length (word_ahead r)\<rparr>)"
      using e(3,4) p Cons by (cases "x = SP") (simp_all add: linenoiseEditMoveWordEnd_def)
    have w: "l_buf e = (l @ word_ahead r) @ cut_word_ahead r @ c # t"
      using e(2) word_ahead_append [of r] by simp
    have len: "length r = length (word_ahead r) + length (cut_word_ahead r)"
      using arg_cong [OF word_ahead_append [of r], of length] by simp
    show ?thesis unfolding word_right_def fst_conv snd_conv
      by (rule refresh_nul [OF op e(1), where c = c and t = t]) (use e w len in simp_all)
  qed
qed

lemma scan_left_at_eq:
  assumes "p < length b"
  shows "scan_left_at (\<lambda>c. c = SP) b p =
    Some (length (rev (dropWhile (\<lambda>c. c = SP) (rev (take (p + 1) b)))) - 1)"
  using assms
proof (induction p)
  case 0
  then show ?case by (cases b) auto
next
  case (Suc p)
  have t: "take (Suc p + 1) b = take (p + 1) b @ [b ! Suc p]"
    using Suc.prems by (simp add: take_Suc_conv_app_nth)
  have len: "length (take (p + 1) b) = p + 1" using Suc.prems by simp
  show ?case
  proof (cases "b ! Suc p = SP")
    case True
    with Suc show ?thesis unfolding t by (simp add: rd_Some)
  next
    case False
    with Suc.prems len show ?thesis unfolding t by (simp add: rd_Some)
  qed
qed


definition strip_right :: "string \<Rightarrow> string" where
  "strip_right l = rev (dropWhile (\<lambda>c. c = SP) (rev l))"

lemma length_cut_word:
  "length (cut_word l) =
   length (strip_right l) - length (takeWhile (\<lambda>c. c \<noteq> SP) (rev (strip_right l)))"
  using take_strip [of "strip_right l" "\<lambda>c. c \<noteq> SP"]
  by (metis cut_word_def diff_le_self length_take min.absorb2 rev_rev_ident strip_right_def)

lemma strip_right_last: "strip_right l \<noteq> [] \<Longrightarrow> last (strip_right l) \<noteq> SP"
  using hd_dropWhile [of "\<lambda>c. c = SP" "rev l"] by (simp add: strip_right_def last_rev)

lemma strip_right_prefix: "\<exists>w. l = strip_right l @ w"
  unfolding strip_right_def by (metis rev_takeWhile_split)

lemma scan_left_inside:
  assumes "b = t @ s" "t = [] \<or> last t \<noteq> SP"
  shows "scan_left (\<lambda>c. c \<noteq> SP) b (length t - 1) =
    Some (length t - length (takeWhile (\<lambda>c. c \<noteq> SP) (rev t)))"
proof (cases t rule: rev_cases)
  case (snoc u x)
  with assms have "x \<noteq> SP" by simp
  with snoc assms(1) show ?thesis by (subst scan_left_eq) simp_all
qed simp

definition word_left :: "string \<times> string \<Rightarrow> string \<times> string" where
  "word_left s = (cut_word (fst s), drop (length (cut_word (fst s))) (fst s) @ snd s)"

lemma word_start_scan:
  assumes b: "b = l @ r @ c # t" and "l \<noteq> []"
  shows "\<exists>d p. rd b (if last l = SP then length l - 1 else length l) = Some d \<and>
    (if d = SP then scan_left_at (\<lambda>c. c = SP) b (if last l = SP then length l - 1 else length l)
     else Some (if last l = SP then length l - 1 else length l)) = Some p \<and>
    scan_left (\<lambda>c. c \<noteq> SP) b p = Some (length (cut_word l))"
proof (cases "last l = SP")
  case True
  obtain w where w: "l = strip_right l @ w" using strip_right_prefix by blast
  have "rd b (length l - 1) = Some SP"
    using True assms by (simp add: rd_Some nth_append last_conv_nth)
  moreover have "scan_left_at (\<lambda>c. c = SP) b (length l - 1) = Some (length (strip_right l) - 1)"
    using assms by (subst scan_left_at_eq) (auto simp: strip_right_def Suc_le_eq)
  moreover have "scan_left (\<lambda>c. c \<noteq> SP) b (length (strip_right l) - 1) = Some (length (cut_word l))"
    unfolding length_cut_word using w b strip_right_last [of l]
    by (intro scan_left_inside [where s = "w @ r @ c # t"]) (metis append.assoc, blast)
  ultimately show ?thesis using True by simp
next
  case False
  then have strip: "strip_right l = l" using assms(2) by (cases l rule: rev_cases) (auto simp: strip_right_def)
  define d where "d = hd (r @ [c])"
  have d: "rd b (length l) = Some d" "take (length l + 1) b = l @ [d]"
    using b by (cases r; simp add: d_def rd_Some)+
  show ?thesis
  proof (cases "d = SP")
    case True
    have "scan_left_at (\<lambda>c. c = SP) b (length l) = Some (length l - 1)"
      using b d(2) True False strip by (subst scan_left_at_eq) (auto simp: strip_right_def)
    moreover have "scan_left (\<lambda>c. c \<noteq> SP) b (length l - 1) = Some (length (cut_word l))"
      unfolding length_cut_word strip by (rule scan_left_inside [OF b]) (simp add: False)
    ultimately show ?thesis using d True False by simp
  next
    case nsp: False
    have "scan_left (\<lambda>c. c \<noteq> SP) b (length l) = Some (length (cut_word l))"
      unfolding length_cut_word strip using b by (subst scan_left_eq) simp_all
    then show ?thesis using d nsp False by simp
  qed
qed

interpretation word_start: nul_line_op linenoiseEditMoveWordStart "\<lambda>e. 0 < l_pos e" word_left
proof (rule nul_line_opI)
  fix e l r c t
  assume e: "ed_ok e" "0 < l_pos e" "l_buf e = l @ r @ c # t" "l_pos e = length l"
    "l_len e = length l + length r"
    "sides e = (l, r)" "length l + length r + length t = l_buflen e" "terminated e = (c = NUL)" "NUL \<in> set (c # t)"
  then have l: "l \<noteq> []" by auto
  obtain d p where p: "rd (l_buf e) (if last l = SP then length l - 1 else length l) = Some d"
      "(if d = SP then scan_left_at (\<lambda>c. c = SP) (l_buf e) (if last l = SP then length l - 1 else length l)
        else Some (if last l = SP then length l - 1 else length l)) = Some p"
      "scan_left (\<lambda>c. c \<noteq> SP) (l_buf e) p = Some (length (cut_word l))"
    using word_start_scan [OF e(3) l] by blast
  have "rd (l_buf e) (length l - 1) = Some (last l)"
    using e(3) l by (simp add: rd_Some nth_append last_conv_nth)
  then have op: "linenoiseEditMoveWordStart e = refreshLine (e\<lparr>l_pos := length (cut_word l)\<rparr>)"
    using e(2,4,5) p l
    by (cases "last l = SP"; cases "d = SP") (simp_all add: linenoiseEditMoveWordStart_def Let_def)
  obtain w where w: "l = cut_word l @ w" using cut_word_prefix by blast
  then have dr: "drop (length (cut_word l)) l = w" by (metis append_eq_conv_conj)
  have len: "length l = length (cut_word l) + length w" using w by (metis length_append)
  have b: "l_buf e = cut_word l @ (w @ r) @ c # t" using e(3) w by (metis append.assoc)
  show "\<exists>e'. linenoiseEditMoveWordStart e = Some e' \<and> edited e (word_left (l, r)) e' \<and>
      (c = NUL \<longrightarrow> terminated e')"
    unfolding word_left_def fst_conv snd_conv dr
    by (rule refresh_nul [OF op e(1), where c = c and t = t]) (use e(4-) b len in simp_all)
qed

text \<open>At the start of a non-empty line the operation reads the byte before the buffer.\<close>

lemma word_start_underflow:
  "l_len e \<noteq> 0 \<Longrightarrow> l_pos e = 0 \<Longrightarrow> linenoiseEditMoveWordStart e = None"
  by (simp add: linenoiseEditMoveWordStart_def)


section \<open>Deleting\<close>

lemma memmove_down:
  assumes "b = l @ x @ r @ t"
  shows "memmove_c b (length l) (length l + length x) (length r) =
    Some (l @ r @ drop (length r) (x @ r) @ t)"
proof -
  have "take (length r) (drop (length l + length x) b) = r"
    "drop (length l + length r) b = drop (length r) (x @ r) @ t"
    by (simp_all add: assms)
  then show ?thesis by (subst memmove_Some) (simp_all add: assms)
qed

fun delete_right :: "string \<times> string \<Rightarrow> string \<times> string" where
  "delete_right (l, r) = (l, tl r)"

fun delete_left :: "string \<times> string \<Rightarrow> string \<times> string" where
  "delete_left (l, r) = (butlast l, r)"

lemma drop_snoc_tail:
  assumes "x \<noteq> []"
  obtains y ys where "drop (length r) (x @ r) = y # ys"
proof -
  have "length (drop (length r) (x @ r)) = length x" by simp
  with assms that show ?thesis by (cases "drop (length r) (x @ r)") auto
qed

interpretation delete: nul_line_op linenoiseEditDelete "\<lambda>_. True" delete_right
proof (rule nul_line_opI)
  fix e l r c t
  assume e: "ed_ok e" "l_buf e = l @ r @ c # t" "l_pos e = length l" "l_len e = length l + length r"
    "sides e = (l, r)" "length l + length r + length t = l_buflen e" "terminated e = (c = NUL)" "NUL \<in> set (c # t)"
  show "\<exists>e'. linenoiseEditDelete e = Some e' \<and> edited e (delete_right (l, r)) e' \<and>
      (c = NUL \<longrightarrow> terminated e')"
  proof (cases r)
    case Nil
    with e show ?thesis by (simp add: linenoiseEditDelete_def edited_same)
  next
    case (Cons x r')
    obtain y ys where y: "drop (length r') ([x] @ r') = y # ys" using drop_snoc_tail [of "[x]"] by blast
    have ys: "length ys = 0" using arg_cong [OF y, of length] by simp
    have "memmove_c (l_buf e) (length l) (length l + 1) (length r') = Some (l @ r' @ [y] @ c # t)"
      using memmove_down [of "l_buf e" l "[x]" r' "c # t"] e(2) Cons y ys by simp
    then have op: "linenoiseEditDelete e =
        refreshLine (e\<lparr>l_buf := l @ r' @ NUL # c # t, l_len := length l + length r'\<rparr>)"
      using e(3,4) Cons by (simp add: linenoiseEditDelete_def wr_def list_update_append)
    show ?thesis unfolding Cons delete_right.simps list.sel
      by (rule refresh_nul [OF op e(1), where c = NUL and t = "c # t"]) (use e Cons in simp_all)
  qed
qed

interpretation backspace: nul_line_op linenoiseEditBackspace "\<lambda>_. True" delete_left
proof (rule nul_line_opI)
  fix e l r c t
  assume e: "ed_ok e" "l_buf e = l @ r @ c # t" "l_pos e = length l" "l_len e = length l + length r"
    "sides e = (l, r)" "length l + length r + length t = l_buflen e" "terminated e = (c = NUL)" "NUL \<in> set (c # t)"
  show "\<exists>e'. linenoiseEditBackspace e = Some e' \<and> edited e (delete_left (l, r)) e' \<and>
      (c = NUL \<longrightarrow> terminated e')"
  proof (cases l rule: rev_cases)
    case Nil
    with e show ?thesis by (simp add: linenoiseEditBackspace_def edited_same)
  next
    case (snoc l' x)
    obtain y ys where y: "drop (length r) ([x] @ r) = y # ys" using drop_snoc_tail [of "[x]"] by blast
    have ys: "length ys = 0" using arg_cong [OF y, of length] by simp
    have "memmove_c (l_buf e) (length l') (length l' + 1) (length r) = Some (l' @ r @ [y] @ c # t)"
      using memmove_down [of "l_buf e" l' "[x]" r "c # t"] e(2) snoc y ys by simp
    then have op: "linenoiseEditBackspace e =
        refreshLine (e\<lparr>l_buf := l' @ r @ NUL # c # t, l_pos := length l', l_len := length l' + length r\<rparr>)"
      using e(3,4) snoc by (simp add: linenoiseEditBackspace_def wr_def list_update_append)
    have "delete_left (l, r) = (l', r)" using snoc by simp
    then show ?thesis
      by (simp only:) (rule refresh_nul [OF op e(1), where c = NUL and t = "c # t"], use e snoc in simp_all)
  qed
qed

interpretation delete_prev_word:
  nul_line_op linenoiseEditDeletePrevWord "\<lambda>_. True" "\<lambda>(l, r). (cut_word l, r)"
proof (rule nul_line_opI)
  fix e l r c t
  assume e: "ed_ok e" "l_buf e = l @ r @ c # t" "l_pos e = length l" "l_len e = length l + length r"
    "sides e = (l, r)" "length l + length r + length t = l_buflen e" "terminated e = (c = NUL)" "NUL \<in> set (c # t)"
  obtain p where p: "scan_left (\<lambda>c. c = SP) (l_buf e) (length l) = Some p"
      "scan_left (\<lambda>c. c \<noteq> SP) (l_buf e) p = Some (length (cut_word l))"
    using scan_word_left [OF e(2)] by blast
  obtain w where w: "l = cut_word l @ w" using cut_word_prefix by blast
  define k where "k = cut_word l"
  have lk: "l = k @ w" "length l = length k + length w"
    using w by (simp_all add: k_def) (metis length_append)
  define u where "u = drop (length r + 1) (w @ r @ [c]) @ t"
  have mm: "memmove_c (l_buf e) (length k) (length k + length w) (length r + 1) = Some (k @ r @ c # u)"
    using memmove_down [of "l_buf e" k w "r @ [c]" t] e(2) lk by (simp add: u_def)
  have op: "linenoiseEditDeletePrevWord e =
      refreshLine (e\<lparr>l_buf := k @ r @ c # u, l_pos := length k, l_len := length k + length r\<rparr>)"
    using e(3,4) p [folded k_def] mm lk(2) by (simp add: linenoiseEditDeletePrevWord_def)
  have "length u = length w + length t" "NUL \<in> set t \<Longrightarrow> NUL \<in> set u" by (simp_all add: u_def)
  then show "\<exists>e'. linenoiseEditDeletePrevWord e = Some e' \<and>
      edited e (case (l, r) of (l, r) \<Rightarrow> (cut_word l, r)) e' \<and> (c = NUL \<longrightarrow> terminated e')"
    unfolding prod.case k_def [symmetric]
    by (intro refresh_nul [OF op e(1), where c = c and t = u]) (use e lk in auto)
qed


text \<open>
  Deleting the next word keeps the contract, but moves the rest of the line without its NUL:
  the C string at \<open>buf\<close> keeps a tail of the old line.
\<close>

lemma delete_next_word_op:
  assumes e: "ed_ok e" "l_buf e = l @ r @ c # t" "l_pos e = length l" "l_len e = length l + length r"
    "sides e = (l, r)" "length l + length r + length t = l_buflen e"
  obtains u where "linenoiseEditDeleteNextWord e = refreshLine (e\<lparr>l_buf := l @ cut_word_ahead r @ u @ c # t,
      l_len := length l + length (cut_word_ahead r)\<rparr>)"
    "length u = length (word_ahead r)" "u = drop (length (cut_word_ahead r)) r"
proof -
  obtain p where p: "scan_right (\<lambda>c. c = SP) (l_buf e) (length l + length r) (length l) = Some p"
      "scan_right (\<lambda>c. c \<noteq> SP) (l_buf e) (length l + length r) p =
         Some (length l + length (word_ahead r))"
    using scan_word_right [OF e(2)] by blast
  define w k where "w = word_ahead r" and "k = cut_word_ahead r"
  have r: "r = w @ k" by (simp add: w_def k_def word_ahead_append)
  define u where "u = drop (length k) (w @ k)"
  have mm: "memmove_c (l_buf e) (length l) (length l + length w) (length k) = Some (l @ k @ u @ c # t)"
    using memmove_down [of "l_buf e" l w k "c # t"] e(2) r by (simp add: u_def)
  have "linenoiseEditDeleteNextWord e = refreshLine (e\<lparr>l_buf := l @ k @ u @ c # t,
      l_len := length l + length k\<rparr>)"
    using e(3,4) p [folded w_def] mm arg_cong [OF r, of length]
    by (simp add: linenoiseEditDeleteNextWord_def)
  moreover have "length u = length w" "u = drop (length k) r" by (simp_all add: u_def r)
  ultimately show ?thesis unfolding w_def k_def by (rule that)
qed

interpretation delete_next_word:
  line_op linenoiseEditDeleteNextWord "\<lambda>_. True" "\<lambda>(l, r). (l, cut_word_ahead r)"
proof unfold_locales
  fix e
  assume ok: "ed_ok e"
  obtain l r c t where e: "l_buf e = l @ r @ c # t" "l_pos e = length l" "l_len e = length l + length r"
      "sides e = (l, r)" "length l + length r + length t = l_buflen e" "terminated e = (c = NUL)" "NUL \<in> set (c # t)"
    by (rule ed_split [OF ok])
  obtain u where op: "linenoiseEditDeleteNextWord e = refreshLine (e\<lparr>l_buf := l @ cut_word_ahead r @ u @ c # t,
      l_len := length l + length (cut_word_ahead r)\<rparr>)"
    and u: "length u = length (word_ahead r)"
    by (rule delete_next_word_op [OF ok e(1-5)])
  have len: "length r = length (word_ahead r) + length (cut_word_ahead r)"
    using arg_cong [OF word_ahead_append [of r], of length] by simp
  obtain y ys where y: "u @ c # t = y # ys" by (cases u) auto
  have nul: "NUL \<in> set (y # ys)" using e(7) unfolding y [symmetric] by auto
  have "length ys = length u + length t" using arg_cong [OF y, of length] by simp
  then have "\<exists>e'. linenoiseEditDeleteNextWord e = Some e' \<and> edited e (l, cut_word_ahead r) e' \<and>
      (False \<longrightarrow> terminated e')"
    by (intro refresh_nul [OF op [unfolded y] ok, where c = y and t = ys])
       (use e len u nul in simp_all)
  then show "\<exists>e'. linenoiseEditDeleteNextWord e = Some e' \<and>
      edited e (case sides e of (l, r) \<Rightarrow> (l, cut_word_ahead r)) e'"
    unfolding e(4) prod.case by blast
qed

lemma delete_next_word_tail:
  assumes "ed_ok e" "word_ahead (snd (sides e)) \<noteq> []" "NUL \<notin> set (line e)"
    "linenoiseEditDeleteNextWord e = Some e'"
  shows "\<not> terminated e'"
proof -
  obtain l r c t where e: "l_buf e = l @ r @ c # t" "l_pos e = length l" "l_len e = length l + length r"
      "sides e = (l, r)" "length l + length r + length t = l_buflen e" "terminated e = (c = NUL)" "NUL \<in> set (c # t)"
    by (rule ed_split [OF assms(1)])
  obtain u where op: "linenoiseEditDeleteNextWord e = refreshLine (e\<lparr>l_buf := l @ cut_word_ahead r @ u @ c # t,
      l_len := length l + length (cut_word_ahead r)\<rparr>)"
    and u: "length u = length (word_ahead r)" "u = drop (length (cut_word_ahead r)) r"
    by (rule delete_next_word_op [OF assms(1) e(1-5)])
  let ?e = "e\<lparr>l_buf := l @ cut_word_ahead r @ u @ c # t, l_len := length l + length (cut_word_ahead r)\<rparr>"
  have len: "length r = length (word_ahead r) + length (cut_word_ahead r)"
    using arg_cong [OF word_ahead_append [of r], of length] by simp
  obtain x xs where x: "u = x # xs" using u(1) assms(2) e(4) by (cases u) auto
  have "x \<in> set r" using u(2) x by (metis in_set_dropD list.set_intros(1))
  then have "x \<noteq> NUL" using assms(3) e(1,3) by (auto simp: line_def)
  have ok: "ed_ok ?e" using assms(1) e len u(1) by (auto simp: ed_ok_def)
  have "\<not> terminated ?e" using x \<open>x \<noteq> NUL\<close> by (simp add: terminated_def nth_append)
  moreover obtain e2 where "refreshLine ?e = Some e2" "redrawn ?e e2" by (rule refreshLine_ok [OF ok])
  ultimately show ?thesis using op assms(4) redrawn_sides(3) by auto
qed

fun swap :: "string \<times> string \<Rightarrow> string \<times> string" where
  "swap (l, r) =
     (if l = [] \<or> r = [] then (l, r)
      else if tl r = [] then (butlast l @ [hd r], [last l])
      else (butlast l @ [hd r, last l], tl r))"

interpretation swap: nul_line_op swap_chars "\<lambda>_. True" swap
proof (rule nul_line_opI)
  fix e l r c t
  assume e: "ed_ok e" "l_buf e = l @ r @ c # t" "l_pos e = length l" "l_len e = length l + length r"
    "sides e = (l, r)" "length l + length r + length t = l_buflen e" "terminated e = (c = NUL)" "NUL \<in> set (c # t)"
  show "\<exists>e'. swap_chars e = Some e' \<and> edited e (swap (l, r)) e' \<and> (c = NUL \<longrightarrow> terminated e')"
  proof (cases "l = [] \<or> r = []")
    case True
    with e show ?thesis by (auto simp: swap_chars_def edited_same)
  next
    case False
    then obtain l' x y r' where s: "l = l' @ [x]" "r = y # r'"
      by (cases l rule: rev_cases; cases r) auto
    have op: "swap_chars e = refreshLine (e\<lparr>l_buf := l' @ [y, x] @ r' @ c # t,
        l_pos := (if r' = [] then length l' + 1 else length l' + 2)\<rparr>)"
      using e(2-4) s by (simp add: swap_chars_def rd_def wr_def nth_append list_update_append)
    show ?thesis
    proof (cases "r' = []")
      case True
      then have eq: "swap (l, r) = (l' @ [y], [x])" using s by simp
      show ?thesis unfolding eq
        by (rule refresh_nul [OF op e(1), where c = c and t = t]) (use e s True in simp_all)
    next
      case False
      then have eq: "swap (l, r) = (l' @ [y, x], r')" using s by simp
      show ?thesis unfolding eq
        by (rule refresh_nul [OF op e(1), where c = c and t = t]) (use e s False in simp_all)
    qed
  qed
qed

interpretation clear_line: nul_line_op clear_line "\<lambda>_. True" "\<lambda>_. ([], [])"
proof (rule nul_line_opI)
  fix e l r c t
  assume e: "ed_ok e" "l_buf e = l @ r @ c # t" "l_pos e = length l" "l_len e = length l + length r"
    "sides e = (l, r)" "length l + length r + length t = l_buflen e" "terminated e = (c = NUL)" "NUL \<in> set (c # t)"
  obtain y ys where y: "l_buf e = y # ys"
    using e(1) by (cases "l_buf e") (auto simp: ed_ok_def)
  then have op: "clear_line e = refreshLine (e\<lparr>l_buf := NUL # ys, l_pos := 0, l_len := 0\<rparr>)"
    by (simp add: clear_line_def wr_def)
  have "length (l_buf e) = l_buflen e + 1" using e(1) by (simp add: ed_ok_def)
  with y show "\<exists>e'. clear_line e = Some e' \<and> edited e ([], []) e' \<and> (c = NUL \<longrightarrow> terminated e')"
    by (intro refresh_nul [OF op e(1), where c = NUL and t = ys]) simp_all
qed

interpretation delete_to_end: nul_line_op delete_to_end "\<lambda>_. True" "\<lambda>(l, r). (l, [])"
proof (rule nul_line_opI)
  fix e l r c t
  assume e: "ed_ok e" "l_buf e = l @ r @ c # t" "l_pos e = length l" "l_len e = length l + length r"
    "sides e = (l, r)" "length l + length r + length t = l_buflen e" "terminated e = (c = NUL)" "NUL \<in> set (c # t)"
  obtain y ys where y: "r @ c # t = y # ys" by (cases r) auto
  then have op: "delete_to_end e = refreshLine (e\<lparr>l_buf := l @ NUL # ys, l_len := length l\<rparr>)"
    using e by (simp add: delete_to_end_def wr_def list_update_append)
  have "length ys = length r + length t" using arg_cong [OF y, of length] by simp
  then show "\<exists>e'. delete_to_end e = Some e' \<and>
      edited e (case (l, r) of (l, r) \<Rightarrow> (l, [])) e' \<and> (c = NUL \<longrightarrow> terminated e')"
    unfolding prod.case
    by (intro refresh_nul [OF op e(1), where c = NUL and t = ys]) (use e in simp_all)
qed


section \<open>Inserting\<close>

lemma terminated_cstr: "ed_ok e \<Longrightarrow> terminated e \<Longrightarrow> \<exists>s. cstr_of (l_buf e) = Some s"
  using strlen_c_le [of "l_len e" "l_buf e"] by (auto simp: ed_ok_def terminated_def cstr_of_def)

lemma edited_emit:
  assumes "edited e s e1" "terminated e1"
  shows "edited e s (emit_ev v e1) \<and> terminated (emit_ev v e1)"
  using assms redrawn_emit [of e1 v]
  by (auto simp: edited_def redrawn_ok redrawn_sides intro: kept_trans redrawn_kept)

lemma insert_room:
  assumes ok: "ed_ok e" and room: "l_len e < l_buflen e"
  shows "\<exists>e'. linenoiseEditInsert c e = Some (0, e') \<and>
    edited e (fst (sides e) @ [c], snd (sides e)) e' \<and> terminated e'"
proof -
  obtain l r d t where e: "l_buf e = l @ r @ d # t" "l_pos e = length l" "l_len e = length l + length r"
      "sides e = (l, r)" "length l + length r + length t = l_buflen e"
    by (rule ed_split [OF ok])
  obtain x t' where t: "t = x # t'" using e room by (cases t) auto
  have ml: "s_mlmode e" using ok by (simp add: ed_ok_def)
  define e0 where "e0 = e\<lparr>l_buf := (l @ [c]) @ r @ NUL # t', l_pos := l_pos e + 1, l_len := l_len e + 1\<rparr>"
  obtain e1 where e1: "refreshLine e0 = Some e1" "edited e (l @ [c], r) e1" "terminated e1"
    using refresh_edited [OF ok, of e0 "l @ [c]" r NUL t'] e t by (auto simp: e0_def)
  have shift: "(if l_len e = l_pos e then
      Option.bind (wr (l_buf e) (l_pos e) c) (\<lambda>b. Option.bind (wr b (l_len e + 1) NUL) (\<lambda>b. Some b))
      else Option.bind (memmove_c (l_buf e) (l_pos e + 1) (l_pos e) (sz_sub (l_len e) (l_pos e)))
        (\<lambda>b. Option.bind (wr b (l_pos e) c) (\<lambda>b. Option.bind (wr b (l_len e + 1) NUL) (\<lambda>b. Some b)))) =
      Some ((l @ [c]) @ r @ NUL # t')"
  proof (cases "r = []")
    case True
    then show ?thesis using e t by (simp add: wr_def nth_append list_update_append)
  next
    case False
    have "memmove_c (l_buf e) (length l + 1) (length l) (length r) =
        Some (l @ hd (r @ [d]) # r @ t)"
      using e(1) False by (subst memmove_Some) (cases r; simp add: e t)+
    then show ?thesis using e t False by (simp add: wr_def list_update_append)
  qed
  have body: "linenoiseEditInsert c e = Option.bind (Some (0, e1)) (\<lambda>(ret, e1).
        if ret \<noteq> 0 then Some (ret, e1)
        else if \<not> s_pasting e1 \<and> e_hl e1 then
          Option.bind (cstr_of (l_buf e1)) (\<lambda>s. Some (0, emit_ev (Highlight s (l_pos e1 - 1)) e1))
        else Some (0, e1))"
    using shift e1(1) room ml unfolding linenoiseEditInsert_def
    by (cases "l_len e = l_pos e") (auto simp: bind_eq_Some_conv e0_def)
  have "ed_ok e1" using e1(2) by (simp add: edited_def)
  then obtain s where "cstr_of (l_buf e1) = Some s" using terminated_cstr e1(3) by blast
  with body e1(2,3) edited_emit [OF e1(2,3)] e(4) show ?thesis by auto
qed

lemma insert_full:
  "ed_ok e \<Longrightarrow> \<not> l_len e < l_buflen e \<Longrightarrow> linenoiseEditInsert c e = Some (0, e)"
  by (simp add: linenoiseEditInsert_def)

interpretation insert: nul_line_op "\<lambda>e. map_option snd (linenoiseEditInsert c e)"
    "\<lambda>e. l_len e < l_buflen e" "\<lambda>(l, r). (l @ [c], r)" for c
proof unfold_locales
  fix e
  assume "ed_ok e" "l_len e < l_buflen e"
  from insert_room [OF this, of c]
  show "\<exists>e'. map_option snd (linenoiseEditInsert c e) = Some e' \<and>
      edited e (case sides e of (l, r) \<Rightarrow> (l @ [c], r)) e'"
    by (auto simp: case_prod_beta)
next
  fix e e'
  assume "ed_ok e" "l_len e < l_buflen e" "map_option snd (linenoiseEditInsert c e) = Some e'"
  with insert_room [of e c] show "terminated e'" by auto
qed

lemma insert_ok:
  assumes "ed_ok e"
  obtains e' where "linenoiseEditInsert c e = Some (0, e')" "ed_ok e'" "kept e e'"
    "terminated e \<Longrightarrow> terminated e'"
proof (cases "l_len e < l_buflen e")
  case True
  with insert_room [OF assms, of c] that show ?thesis by (auto simp: edited_def)
next
  case False
  with insert_full [OF assms, of c] that [of e] assms show ?thesis by simp
qed

section \<open>History entries and completions\<close>

lemma strncpy_Some: "n \<le> length b \<Longrightarrow>
  strncpy b s n = Some (take n s @ replicate (n - length s) NUL @ drop n b)"
  by (simp add: strncpy_def)

text \<open>Copying an entry into the buffer: its first \<open>buflen - 1\<close> bytes, terminated.\<close>

lemma copy_entry:
  assumes "length b = n + 1" "0 < n" "NUL \<notin> set s"
  shows "\<exists>b'. Option.bind (strncpy b s n) (\<lambda>b. wr b (n - 1) NUL) = Some b' \<and>
    length b' = n + 1 \<and> strlen_c b' = Some (min (length s) (n - 1)) \<and>
    take (min (length s) (n - 1)) b' = take (n - 1) s \<and> b' ! min (length s) (n - 1) = NUL"
proof -
  define m where "m = min (length s) (n - 1)"
  define b' where "b' = (take n s @ replicate (n - length s) NUL @ drop n b)[n - 1 := NUL]"
  have len: "length b' = n + 1" using assms(1) by (simp add: b'_def)
  have tk: "take m b' = take (n - 1) s"
    using assms(2) by (simp add: b'_def m_def min_def take_update_cancel)
  have nul: "b' ! m = NUL"
  proof (cases "length s < n")
    case True
    then have "m = length s" by (simp add: m_def)
    with True assms(1) show ?thesis by (simp add: b'_def nth_append nth_list_update)
  next
    case False
    then have "m = n - 1" by (simp add: m_def)
    with assms(1,2) show ?thesis by (simp add: b'_def)
  qed
  have "b' = take (n - 1) s @ NUL # drop (m + 1) b'"
    using id_take_nth_drop [of m b'] tk nul len assms(2) by (simp add: m_def)
  moreover have "NUL \<notin> set (take (n - 1) s)" using assms(3) by (meson in_set_takeD)
  ultimately have "strlen_c b' = Some (length (take (n - 1) s))"
    by (metis strlen_c_append_NUL)
  moreover have "length (take (n - 1) s) = m" by (simp add: m_def)
  moreover have "Option.bind (strncpy b s n) (\<lambda>b. wr b (n - 1) NUL) = Some b'"
    using assms(1,2) by (simp add: strncpy_Some wr_def b'_def)
  ultimately show ?thesis using len tk nul unfolding m_def [symmetric] by auto
qed

end
