(* ===== verification/History.thy ===== *)
theory History
  imports Planck_Prelude "HOL-Library.Sublist"
begin

text \<open>
  The history of \<open>linenoise.c\<close>. The array of \<open>history_len\<close> pointers is the list of the entries,
  oldest first; \<open>hmax\<close> is \<open>history_max_len\<close>. A file is its bytes. The locale \<open>bounded_log\<close> is
  what the editor and the REPL rely on: the log keeps its bound and never repeats its last
  entry.
\<close>

section \<open>Operations\<close>

definition linenoiseHistoryAdd :: "nat \<Rightarrow> string \<Rightarrow> string list \<Rightarrow> int \<times> string list" where
  "linenoiseHistoryAdd hmax line history =
     (if hmax = 0 then (0, history)
      else if history \<noteq> [] \<and> strcmp (last history) line = 0 then (0, history)
      else (let history = (if length history = hmax then tl history else history)
            in (1, history @ [line])))"

definition linenoiseHistorySetMaxLen :: "int \<Rightarrow> nat \<Rightarrow> string list \<Rightarrow> int \<times> nat \<times> string list" where
  "linenoiseHistorySetMaxLen len hmax history =
     (if len < 1 then (0, hmax, history)
      else (let tocopy = (if nat len < length history then nat len else length history)
            in (1, nat len, drop (length history - tocopy) history)))"

abbreviation LF :: char where "LF \<equiv> CHR 0x0A"
abbreviation CR :: char where "CR \<equiv> CHR 0x0D"

definition linenoiseHistorySave :: "string list \<Rightarrow> string" where
  "linenoiseHistorySave history = concat (map (\<lambda>s. s @ [LF]) history)"

text \<open>\<open>fgets\<close> into an array of \<open>n + 1\<close> bytes: the bytes stored and the rest of the file.\<close>

fun fgets :: "nat \<Rightarrow> string \<Rightarrow> string \<times> string" where
  "fgets 0 s = ([], s)"
| "fgets (Suc n) [] = ([], [])"
| "fgets (Suc n) (c # s) = (if c = LF then ([c], s) else (let (t, u) = fgets n s in (c # t, u)))"

lemma fgets_append: "fgets n s = (t, u) \<Longrightarrow> s = t @ u"
  by (induction n s arbitrary: t u rule: fgets.induct) (auto split: if_splits prod.splits)

lemma fgets_shorter: "fgets (Suc n) (c # s) = (t, u) \<Longrightarrow> length u < length (c # s)"
  using fgets_append [of "Suc n" "c # s" t u] by (auto split: if_splits prod.splits)

text \<open>The C string in the array, cut at the first carriage return, or else at the line feed.\<close>

definition history_line :: "string \<Rightarrow> string" where
  "history_line chunk =
     (let buf = takeWhile (\<lambda>c. c \<noteq> NUL) chunk in
      if CR \<in> set buf then takeWhile (\<lambda>c. c \<noteq> CR) buf else takeWhile (\<lambda>c. c \<noteq> LF) buf)"

function load_lines :: "nat \<Rightarrow> string \<Rightarrow> string list \<Rightarrow> string list" where
  "load_lines hmax s history =
     (case s of [] \<Rightarrow> history
      | _ \<Rightarrow> (let (chunk, rest) = fgets 4095 s
              in load_lines hmax rest (snd (linenoiseHistoryAdd hmax (history_line chunk) history))))"
  by pat_completeness auto
termination
proof (relation "measure (\<lambda>(hmax, s, history). length s)")
  fix hmax :: nat and s history c cs p chunk rest
  assume s: "s = c # cs" and p: "p = fgets 4095 s" "(chunk, rest) = p"
  have "(4095 :: nat) = Suc 4094" by simp
  with s p have "length rest < length s" using fgets_shorter [of 4094 c cs chunk rest] by metis
  then show "((hmax, rest, snd (linenoiseHistoryAdd hmax (history_line chunk) history)), hmax, s, history)
      \<in> measure (\<lambda>(hmax, s, history). length s)" by simp
qed simp

declare load_lines.simps [simp del]

text \<open>\<open>None\<close> is a file that \<open>fopen\<close> does not open.\<close>

definition linenoiseHistoryLoad :: "nat \<Rightarrow> string option \<Rightarrow> string list \<Rightarrow> int \<times> string list" where
  "linenoiseHistoryLoad hmax file_bytes history =
     (case file_bytes of None \<Rightarrow> (-1, history) | Some s \<Rightarrow> (0, load_lines hmax s history))"

section \<open>Bounded logs\<close>

locale bounded_log =
  fixes bound :: nat
    and add :: "'a \<Rightarrow> 'a list \<Rightarrow> 'a list"
  assumes bound_pos: "0 < bound"
    and add_last: "add x xs \<noteq> [] \<and> last (add x xs) = x"
    and add_bound: "length xs \<le> bound \<Longrightarrow> length (add x xs) \<le> bound"
    and add_distinct: "distinct_adj xs \<Longrightarrow> distinct_adj (add x xs)"
    and add_suffix: "\<exists>k \<le> 1. add x xs = drop k xs @ [x] \<or> add x xs = xs"
begin

definition log_ok :: "'a list \<Rightarrow> bool" where
  "log_ok xs \<longleftrightarrow> length xs \<le> bound \<and> distinct_adj xs"

lemma add_ok: "log_ok xs \<Longrightarrow> log_ok (add x xs)"
  by (simp add: log_ok_def add_bound add_distinct)

lemma fold_add_ok: "log_ok xs \<Longrightarrow> log_ok (fold add ys xs)"
  by (induction ys arbitrary: xs) (simp_all add: add_ok)

lemma add_keeps: "set (add x xs) \<subseteq> insert x (set xs)"
  using add_suffix [of x xs] by (auto dest: in_set_dropD)

lemma fold_add_keeps: "set (fold add ys xs) \<subseteq> set ys \<union> set xs"
proof (induction ys arbitrary: xs)
  case (Cons y ys)
  have "set (fold add ys (add y xs)) \<subseteq> set ys \<union> set (add y xs)" by (rule Cons)
  then show ?case using add_keeps [of y xs] by auto
qed simp

end

lemma distinct_adj_tl: "distinct_adj xs \<Longrightarrow> distinct_adj (tl xs)"
  by (cases xs) (auto simp: distinct_adj_Cons)

interpretation history: bounded_log "Suc n" "\<lambda>x xs. snd (linenoiseHistoryAdd (Suc n) x xs)" for n
proof unfold_locales
  fix x :: string and xs
  show "snd (linenoiseHistoryAdd (Suc n) x xs) \<noteq> [] \<and> last (snd (linenoiseHistoryAdd (Suc n) x xs)) = x"
    by (auto simp: linenoiseHistoryAdd_def Let_def)
  show "length (snd (linenoiseHistoryAdd (Suc n) x xs)) \<le> Suc n" if "length xs \<le> Suc n"
    using that by (auto simp: linenoiseHistoryAdd_def Let_def)
  show "distinct_adj (snd (linenoiseHistoryAdd (Suc n) x xs))" if "distinct_adj xs"
    using that distinct_adj_tl [OF that]
    by (auto simp: linenoiseHistoryAdd_def Let_def distinct_adj_append_iff last_tl)
  show "\<exists>k\<le>1. snd (linenoiseHistoryAdd (Suc n) x xs) = drop k xs @ [x] \<or>
      snd (linenoiseHistoryAdd (Suc n) x xs) = xs"
    by (cases "length xs = Suc n"; cases "xs \<noteq> [] \<and> last xs = x")
       (auto simp: linenoiseHistoryAdd_def drop_Suc intro: exI [of _ 0] exI [of _ 1])
qed simp


section \<open>Saving and loading\<close>

definition entry_ok :: "string \<Rightarrow> bool" where
  "entry_ok s \<longleftrightarrow> length s \<le> 4094 \<and> NUL \<notin> set s \<and> LF \<notin> set s \<and> CR \<notin> set s"

lemma fgets_line: "LF \<notin> set s \<Longrightarrow> length s < n \<Longrightarrow> fgets n (s @ LF # rest) = (s @ [LF], rest)"
proof (induction s arbitrary: n)
  case Nil
  then show ?case by (cases n) simp_all
next
  case (Cons c s)
  then show ?case by (cases n) auto
qed

lemma history_line_entry: "entry_ok s \<Longrightarrow> history_line (s @ [LF]) = s"
proof -
  assume s: "entry_ok s"
  then have nul: "takeWhile (\<lambda>c. c \<noteq> NUL) (s @ [LF]) = s @ [LF]"
    by (auto simp: entry_ok_def takeWhile_eq_all_conv)
  have "CR \<notin> set (s @ [LF])" using s by (simp add: entry_ok_def)
  moreover have "takeWhile (\<lambda>c. c \<noteq> LF) (s @ [LF]) = s"
    by (subst takeWhile_append2) (use s in \<open>auto simp: entry_ok_def\<close>)
  ultimately show ?thesis unfolding history_line_def nul Let_def by simp
qed

lemma load_lines_line:
  assumes "entry_ok s"
  shows "load_lines hmax (s @ LF # rest) h =
    load_lines hmax rest (snd (linenoiseHistoryAdd hmax s h))"
proof -
  obtain x xs where x: "s @ LF # rest = x # xs" by (cases s) auto
  have "fgets 4095 (x # xs) = (s @ [LF], rest)"
    unfolding x [symmetric] using assms by (intro fgets_line) (simp_all add: entry_ok_def)
  then show ?thesis unfolding x
    using history_line_entry [OF assms] by (subst load_lines.simps) simp
qed

lemma load_lines_save:
  "list_all entry_ok h \<Longrightarrow> load_lines hmax (linenoiseHistorySave h) h0 =
     fold (\<lambda>s xs. snd (linenoiseHistoryAdd hmax s xs)) h h0"
proof (induction h arbitrary: h0)
  case Nil
  then show ?case by (subst load_lines.simps) (simp add: linenoiseHistorySave_def)
next
  case (Cons s h)
  then show ?case by (simp add: linenoiseHistorySave_def load_lines_line)
qed

lemma fold_add_distinct:
  "distinct_adj (xs @ h) \<Longrightarrow> length (xs @ h) \<le> hmax \<Longrightarrow>
   fold (\<lambda>s xs. snd (linenoiseHistoryAdd hmax s xs)) h xs = xs @ h"
proof (induction h arbitrary: xs)
  case (Cons s h)
  have "linenoiseHistoryAdd hmax s xs = (1, xs @ [s])"
    using Cons.prems by (auto simp: linenoiseHistoryAdd_def distinct_adj_append_iff)
  with Cons show ?case by simp
qed simp

text \<open>
  C9. Saving the history and loading it into an empty one gives it back, for entries of at most
  4094 bytes without line feed, carriage return and NUL, in a history within its bound and
  without adjacent duplicates (the last two are what adding entries maintains, C10).
\<close>

theorem history_save_load:
  assumes "list_all entry_ok h" "distinct_adj h" "length h \<le> hmax"
  shows "linenoiseHistoryLoad hmax (Some (linenoiseHistorySave h)) [] = (0, h)"
  using assms fold_add_distinct [of "[]" h hmax]
  by (simp add: linenoiseHistoryLoad_def load_lines_save)

lemma history_save_load_witness:
  "linenoiseHistoryLoad 100 (Some (linenoiseHistorySave [''(+ 1 2)'', '':cljs/quit''])) [] =
    (0, [''(+ 1 2)'', '':cljs/quit''])"
  by (rule history_save_load) (simp_all add: entry_ok_def)

text \<open>An entry of 4095 bytes, the longest the editor returns, comes back with an empty one behind it.\<close>

lemma fgets_long: "LF \<notin> set s \<Longrightarrow> length s = n \<Longrightarrow> fgets n (s @ rest) = (s, rest)"
proof (induction s arbitrary: n)
  case Nil
  then show ?case by simp
next
  case (Cons c s)
  then show ?case by (cases n) auto
qed

lemma long_entry_splits:
  assumes "length s = 4095" "NUL \<notin> set s" "LF \<notin> set s" "CR \<notin> set s"
  shows "linenoiseHistoryLoad (Suc (Suc n)) (Some (linenoiseHistorySave [s])) [] = (0, [s, []])"
proof -
  have ne: "s \<noteq> []" using assms(1) by auto
  obtain x xs where x: "s @ [LF] = x # xs" by (cases s) auto
  have all: "takeWhile (\<lambda>c. c \<noteq> NUL) s = s" "takeWhile (\<lambda>c. c \<noteq> LF) s = s"
    using assms(2,3) by (auto simp: takeWhile_eq_all_conv)
  have "history_line s = s" unfolding history_line_def all Let_def using assms(4) by simp
  moreover have "fgets 4095 (x # xs) = (s, [LF])" unfolding x [symmetric] using fgets_long assms(1,3) by blast
  ultimately have "load_lines (Suc (Suc n)) (x # xs) [] = load_lines (Suc (Suc n)) [LF] [s]"
    by (subst load_lines.simps) (simp add: linenoiseHistoryAdd_def)
  also have "fgets 4095 [LF] = ([LF], [])" using fgets_line [of "[]" 4095 "[]"] by simp
  then have "load_lines (Suc (Suc n)) [LF] [s] = load_lines (Suc (Suc n)) [] [s, []]"
    by (subst load_lines.simps) (use ne in \<open>simp add: history_line_def linenoiseHistoryAdd_def\<close>)
  also have "\<dots> = [s, []]" by (subst load_lines.simps) simp
  finally show ?thesis using x by (simp add: linenoiseHistoryLoad_def linenoiseHistorySave_def)
qed

lemma load_lines_fold:
  "\<exists>ys. load_lines hmax s h = fold (\<lambda>s xs. snd (linenoiseHistoryAdd hmax s xs)) ys h"
proof (induction hmax s h rule: load_lines.induct)
  case (1 hmax s h)
  show ?case
  proof (cases s)
    case Nil
    then show ?thesis by (subst load_lines.simps) (auto intro: exI [of _ "[]"])
  next
    case (Cons c cs)
    obtain chunk rest where f: "fgets 4095 s = (chunk, rest)" by (cases "fgets 4095 s")
    obtain ys where ys: "load_lines hmax rest (snd (linenoiseHistoryAdd hmax (history_line chunk) h)) =
        fold (\<lambda>s xs. snd (linenoiseHistoryAdd hmax s xs)) ys
          (snd (linenoiseHistoryAdd hmax (history_line chunk) h))"
      using "1" [OF Cons refl, of chunk rest] f Cons by auto
    have "load_lines hmax s h = fold (\<lambda>s xs. snd (linenoiseHistoryAdd hmax s xs)) (history_line chunk # ys) h"
      using ys f Cons by (subst load_lines.simps) simp
    then show ?thesis by blast
  qed
qed

text \<open>Shrinking the history keeps its newest entries.\<close>

lemma set_max_len_newest:
  assumes "1 \<le> len" "linenoiseHistorySetMaxLen len hmax h = (ret, hmax', h')"
  shows "ret = 1 \<and> hmax' = nat len \<and> suffix h' h \<and> length h' = min (nat len) (length h)"
  using assms by (auto simp: linenoiseHistorySetMaxLen_def Let_def suffix_drop split: if_splits)

text \<open>What the callers do to the history between two lines: the maximum length comes with it.\<close>

datatype history_op = Add_line string | Load_file "string option" | Set_max_len int

fun history_step :: "history_op \<Rightarrow> nat \<times> string list \<Rightarrow> nat \<times> string list" where
  "history_step (Add_line s) (hmax, h) = (hmax, snd (linenoiseHistoryAdd hmax s h))"
| "history_step (Load_file contents) (hmax, h) = (hmax, snd (linenoiseHistoryLoad hmax contents h))"
| "history_step (Set_max_len len) (hmax, h) = snd (linenoiseHistorySetMaxLen len hmax h)"

definition history_ok :: "nat \<times> string list \<Rightarrow> bool" where
  "history_ok p \<longleftrightarrow> 0 < fst p \<and> length (snd p) \<le> fst p \<and> distinct_adj (snd p)"

lemma history_step_ok: "history_ok p \<Longrightarrow> history_ok (history_step op p)"
proof (cases p)
  case (Pair hmax h)
  assume ok: "history_ok p"
  then obtain n where n: "hmax = Suc n" "history.log_ok n h"
    using Pair by (cases hmax) (auto simp: history_ok_def history.log_ok_def)
  show ?thesis
  proof (cases op)
    case (Add_line s)
    with history.add_ok [OF n(2), of s] n(1) Pair show ?thesis by (simp add: history_ok_def history.log_ok_def)
  next
    case (Load_file contents)
    have "history.log_ok n (snd (linenoiseHistoryLoad (Suc n) contents h))"
      using load_lines_fold [of "Suc n" _ h] history.fold_add_ok [OF n(2)] n(2)
      by (cases contents) (auto simp: linenoiseHistoryLoad_def, metis)
    then show ?thesis using n(1) Pair Load_file by (simp add: history_ok_def history.log_ok_def)
  next
    case (Set_max_len len)
    show ?thesis
    proof (cases "len < 1")
      case True
      with ok Pair Set_max_len show ?thesis by (simp add: linenoiseHistorySetMaxLen_def)
    next
      case False
      obtain ret m' h' where r: "linenoiseHistorySetMaxLen len hmax h = (ret, m', h')"
        by (cases "linenoiseHistorySetMaxLen len hmax h")
      have "distinct_adj h" using ok Pair by (simp add: history_ok_def)
      then have "distinct_adj h'"
        using set_max_len_newest [OF _ r] False by (auto simp: suffix_def distinct_adj_append_iff)
      with set_max_len_newest [OF _ r] False r Pair Set_max_len show ?thesis by (simp add: history_ok_def)
    qed
  qed
qed

lemma history_steps_ok: "history_ok p \<Longrightarrow> history_ok (fold history_step ops p)"
  by (induction ops arbitrary: p) (simp_all add: history_step_ok)

text \<open>
  C10. However entries are added, files loaded and maximum lengths set, the history never
  exceeds its maximum length and never holds the same entry twice in a row, and a line that is
  added is its last entry. (Moving through the history in the editor, which overwrites entries
  with the line being edited, is not among these operations.)
\<close>

theorem history_bounded:
  assumes "0 < hmax" "length h \<le> hmax" "distinct_adj h" "fold history_step ops (hmax, h) = (hmax', h')"
  shows "length h' \<le> hmax' \<and> distinct_adj h' \<and> last (snd (linenoiseHistoryAdd hmax' x h')) = x"
proof -
  have ok: "history_ok (hmax', h')" using history_steps_ok [of "(hmax, h)" ops] assms by (simp add: history_ok_def)
  then obtain n where "hmax' = Suc n" by (cases hmax') (auto simp: history_ok_def)
  with ok history.add_last [of n x h'] show ?thesis by (simp add: history_ok_def)
qed

lemma history_bounded_witness:
  "fold history_step [Add_line ''a'', Add_line ''a'', Add_line ''b'', Add_line ''c'', Set_max_len 2] (3, [''x'']) =
      (2, [''b'', ''c'']) \<and> length [''b'', ''c''] \<le> (2 :: nat) \<and>
    last (snd (linenoiseHistoryAdd 2 ''d'' [''b'', ''c''])) = ''d''"
proof -
  have r: "fold history_step [Add_line ''a'', Add_line ''a'', Add_line ''b'', Add_line ''c'', Set_max_len 2] (3, [''x'']) =
      (2, [''b'', ''c''])"
    by (simp add: linenoiseHistoryAdd_def linenoiseHistorySetMaxLen_def)
  from history_bounded [OF _ _ _ this, of "''d''"] r show ?thesis by simp
qed

end
