(* ===== verification/Line_Edit.thy ===== *)
theory Line_Edit
  imports Line_Edits History
begin

text \<open>
  \<open>linenoiseEdit\<close> and what it is built from: completion, the reverse incremental search, the
  handling of one character, and the loop over the input. A run is done, crashes (undefined
  behaviour), or spins: the fuel \<open>n\<close> bounds the number of characters handled, which the input
  bounds except in the search, whose loop does not notice the end of the input.
\<close>

section \<open>Runs\<close>

datatype 'a run = Done 'a | Crash | Spinning

fun bind_run :: "'a run \<Rightarrow> ('a \<Rightarrow> 'b run) \<Rightarrow> 'b run" where
  "bind_run (Done x) f = f x"
| "bind_run Crash f = Crash"
| "bind_run Spinning f = Spinning"

fun lift :: "'a option \<Rightarrow> 'a run" where
  "lift None = Crash"
| "lift (Some x) = Done x"

datatype step = Continue ed | Return int ed

definition leave :: "int \<Rightarrow> ed \<Rightarrow> step" where
  "leave ret e = Return ret (e\<lparr>s_active := False\<rparr>)"

definition continue_with :: "ed option \<Rightarrow> step run" where
  "continue_with m = bind_run (lift m) (\<lambda>e. Done (Continue e))"

definition pressed :: "ed \<Rightarrow> nat \<Rightarrow> char \<Rightarrow> bool" where
  "pressed e k c = (schar c = key e k)"

section \<open>Completion\<close>

fun insert_all :: "string \<Rightarrow> ed \<Rightarrow> ed option" where
  "insert_all [] e = Some e"
| "insert_all (c # cs) e = Option.bind (linenoiseEditInsert c e) (\<lambda>(_, e1). insert_all cs e1)"

fun print_columns :: "nat \<Rightarrow> nat \<Rightarrow> nat \<Rightarrow> string list \<Rightarrow> ed \<Rightarrow> ed option" where
  "print_columns columns width i [] e = Some e"
| "print_columns columns width i (s # ss) e =
     (if columns = 0 then None
      else (let e1 = (if i mod columns = 0 then emit_ev (Stdio [CR, LF]) e else e);
                e2 = emit_ev (Stdio (s @ replicate (width - length s) SP)) e1;
                e3 = emit_ev (Stdio [SP]) e2
            in print_columns columns width (i + 1) ss e3))"

definition completeLine :: "(string \<Rightarrow> string list) \<Rightarrow> ed \<Rightarrow> ed option" where
  "completeLine callback e =
     do {
       cur \<leftarrow> cstr_of (l_buf e);
       let lc = callback cur;
       if length lc = 1 then Some (linenoiseBeep e)
       else if length lc = 2 then
         (let prefix_len = length (lc ! 0) in
          if length (lc ! 1) < prefix_len then None
          else do { e1 \<leftarrow> insert_all (drop prefix_len (lc ! 1)) e; refreshLine e1 })
       else
         (let max_completion_length = foldl max 0 (map length (tl lc));
              column_width = max_completion_length + 1;
              (cols, e1) = getColumns e;
              columns = nat ((cols - 4) mod 2 ^ 64) div column_width
          in do {
            e2 \<leftarrow> print_columns columns column_width 0 (tl lc) e1;
            refreshLine (emit_ev (Stdio [LF]) (emit_ev (Stdio [LF]) e2))
          })
     }"

section \<open>Reverse incremental search\<close>

fun strstr :: "string \<Rightarrow> string \<Rightarrow> nat option" where
  "strstr [] n = (if n = [] then Some 0 else None)"
| "strstr (c # h) n = (if prefix n (c # h) then Some 0 else map_option Suc (strstr h n))"

datatype search_dir = Backward | Forward

definition searchdir :: "search_dir \<Rightarrow> int" where
  "searchdir d = (if d = Forward then 1 else -1)"

text \<open>The search from \<open>sp\<close> on; \<open>p\<close> is the variable of the same name, the last \<open>strstr\<close>.\<close>

function search_history ::
  "string \<Rightarrow> bool \<Rightarrow> search_dir \<Rightarrow> int \<Rightarrow> nat option \<Rightarrow> ed \<Rightarrow> (nat option \<times> int \<times> ed) option" where
  "search_history rbuf skipsame d sp p e =
     (if 0 \<le> sp \<and> sp < int (length (s_history e)) then
        (let h = s_history e ! nat sp in
         case strstr h rbuf of
           None \<Rightarrow> search_history rbuf skipsame d (sp + searchdir d) None e
         | Some k \<Rightarrow>
             do {
               cur \<leftarrow> cstr_of (l_buf e);
               if skipsame \<and> strcmp h cur = 0
               then search_history rbuf skipsame d (sp + searchdir d) (Some k) e
               else do {
                 e1 \<leftarrow> set_current h e;
                 Some (Some k, sp,
                   e1\<lparr>l_pos := k, l_hindex := int (length (s_history e)) - sp - 1\<rparr>)
               }
             })
      else Some (p, sp, e))"
  by pat_completeness auto
termination
  by (relation "measure (\<lambda>(rbuf, skipsame, d, sp, p, e).
        nat (if d = Forward then int (length (s_history e)) - sp else sp + 1))")
     (auto simp: searchdir_def split: if_splits)

declare search_history.simps [simp del]

definition rprompt :: "string \<Rightarrow> string" where
  "rprompt rbuf = take 79 (''(reverse-i-search)`'' @ rbuf @ [CHR 0x27] @ '': '')"

text \<open>
  The incremental search; \<open>rbuf\<close> is the text searched for. A character of it that matches nothing is
  taken off again, and so is its last one by the deleting keys. The keys are control characters, so
  that the text holds the character just typed when it is taken off.
\<close>

fun reverse_search :: "nat \<Rightarrow> string \<Rightarrow> int \<Rightarrow> char \<Rightarrow> ed \<Rightarrow> (char \<times> ed) run" where
  "reverse_search 0 rbuf sp c e = Spinning"
| "reverse_search (Suc n) rbuf sp c e =
     bind_run (lift (refreshLine (e\<lparr>l_prompt := rprompt rbuf\<rparr>))) (\<lambda>e1.
       let (nread, c, e2) = tty_read c e1;
           history_len = int (length (s_history e2));
           look = (\<lambda>rbuf skipsame d sp.
             bind_run (lift (search_history rbuf skipsame d sp None e2)) (\<lambda>(p, sp, e3).
               reverse_search n (if p = None \<and> 32 \<le> schar c then butlast rbuf else rbuf) sp c e3))
       in
       if nread = 0 then reverse_search n rbuf sp c e2
       else if pressed e2 KM_BACKSPACE c \<or> pressed e2 KM_DELETE c then
         reverse_search n (butlast rbuf) sp c e2
       else if pressed e2 KM_REVERSE_I_SEARCH c \<or> pressed e2 KM_HISTORY_PREVIOUS c then
         look rbuf True Backward (if sp > 0 then sp - 1 else sp)
       else if pressed e2 KM_HISTORY_NEXT c then
         look rbuf True Forward (if sp < history_len then sp + 1 else sp)
       else if 32 \<le> schar c then
         (if 49 \<le> length rbuf then reverse_search n rbuf sp c e2
          else look (rbuf @ [c]) False Backward (history_len - 1))
       else Done (c, e2))"

section \<open>One character\<close>

definition pop_history :: "ed \<Rightarrow> ed option" where
  "pop_history e =
     (if s_history e = [] then None else Some (e\<lparr>s_history := butlast (s_history e)\<rparr>))"

text \<open>The bytes after \<open>ESC [\<close> and \<open>ESC O\<close>.\<close>

definition esc_bracket :: "char \<Rightarrow> ed \<Rightarrow> step run" where
  "esc_bracket s1 e =
     (if 48 \<le> schar s1 \<and> schar s1 \<le> 57 then
        (let (nread, s2, e1) = tty_read (e_junk e) e in
         if nread = -1 then Done (leave (int (l_len e1)) e1)
         else if s2 = CHR ''~'' \<and> s1 = CHR ''3'' then continue_with (linenoiseEditDelete e1)
         else Done (Continue e1))
      else if s1 = CHR ''A'' then continue_with (linenoiseEditHistoryNext History_prev e)
      else if s1 = CHR ''B'' then continue_with (linenoiseEditHistoryNext History_next e)
      else if s1 = CHR ''C'' then continue_with (linenoiseEditMoveRight e)
      else if s1 = CHR ''D'' then continue_with (linenoiseEditMoveLeft e)
      else if s1 = CHR ''H'' then continue_with (linenoiseEditMoveHome e)
      else if s1 = CHR ''F'' then continue_with (linenoiseEditMoveEnd e)
      else Done (Continue e))"

definition esc_o :: "char \<Rightarrow> ed \<Rightarrow> step run" where
  "esc_o s1 e =
     (if s1 = CHR ''H'' then continue_with (linenoiseEditMoveHome e)
      else if s1 = CHR ''F'' then continue_with (linenoiseEditMoveEnd e)
      else Done (Continue e))"

fun process_char :: "nat \<Rightarrow> char \<Rightarrow> ed \<Rightarrow> step run" where
  "process_char 0 c e = Spinning"
| "process_char (Suc n) c e =
     (if c = NUL then Done (Continue e)
      else if pressed e KM_ENTER c then
        bind_run (lift (pop_history e)) (\<lambda>e1.
        bind_run (lift (if s_mlmode e1 then linenoiseEditMoveEnd e1 else Some e1)) (\<lambda>e2.
        Done (leave (int (l_len e2)) e2)))
      else if pressed e KM_CANCEL c then Done (leave (-1) (emit_ev Errno_again e))
      else if pressed e KM_BACKSPACE c \<or> pressed e KM_DELETE c then
        continue_with (linenoiseEditBackspace e)
      else if pressed e KM_DELETE_RIGHT c then
        (if l_len e > 0 then continue_with (linenoiseEditDelete e)
         else bind_run (lift (pop_history e)) (\<lambda>e1. Done (leave (-1) e1)))
      else if pressed e KM_SWAP_CHARS c then continue_with (swap_chars e)
      else if pressed e KM_MOVE_LEFT c then continue_with (linenoiseEditMoveLeft e)
      else if pressed e KM_MOVE_RIGHT c then continue_with (linenoiseEditMoveRight e)
      else if pressed e KM_HISTORY_PREVIOUS c then continue_with (linenoiseEditHistoryNext History_prev e)
      else if pressed e KM_HISTORY_NEXT c then continue_with (linenoiseEditHistoryNext History_next e)
      else if pressed e KM_REVERSE_I_SEARCH c then
        bind_run (reverse_search n [] (int (length (s_history e)) - 1) c e) (\<lambda>(c, e1).
        bind_run
          (if pressed e1 KM_CANCEL_SEARCH c
           then bind_run (lift (set_current [] e1)) (\<lambda>e2. Done (NUL, e2\<lparr>l_pos := 0\<rparr>))
           else if pressed e1 KM_FINISH_SEARCH c then Done (NUL, e1)
           else Done (c, e1)) (\<lambda>(c, e2).
        bind_run (lift (refreshLine (e2\<lparr>l_prompt := l_prompt e\<rparr>))) (\<lambda>e3.
        process_char n c e3)))
      else if pressed e KM_ESC c then
        (let (nread, s0, e1) = tty_read (e_junk e) e in
         if nread = -1 then Done (Continue e1)
         else if s0 \<noteq> CHR ''['' \<and> s0 \<noteq> CHR ''O'' then
           (if s0 = CHR ''f'' then continue_with (linenoiseEditMoveWordEnd e1)
            else if s0 = CHR ''b'' then continue_with (linenoiseEditMoveWordStart e1)
            else if s0 = CHR ''d'' then continue_with (linenoiseEditDeleteNextWord e1)
            else process_char n s0 e1)
         else
           (let (nread, s1, e2) = tty_read (e_junk e1) e1 in
            if nread = -1 then Done (Continue e2)
            else if s0 = CHR ''['' then esc_bracket s1 e2
            else esc_o s1 e2))
      else if pressed e KM_CLEAR_LINE c then continue_with (clear_line e)
      else if pressed e KM_DELETE_TO_END_OF_LINE c then continue_with (delete_to_end e)
      else if pressed e KM_GO_TO_START_OF_LINE c then continue_with (linenoiseEditMoveHome e)
      else if pressed e KM_GO_TO_END_OF_LINE c then continue_with (linenoiseEditMoveEnd e)
      else if pressed e KM_CLEAR_SCREEN c then continue_with (refreshLine (linenoiseClearScreen e))
      else if pressed e KM_DELETE_PREVIOUS_WORD c then continue_with (linenoiseEditDeletePrevWord e)
      else
        bind_run (lift (linenoiseEditInsert c e)) (\<lambda>(ret, e1).
        Done (if ret \<noteq> 0 then leave (-1) e1 else Continue e1)))"

section \<open>The loop\<close>

text \<open>
  While pasting, a prompt at the start of the line is dropped: \<open>#_=>\<close> after spaces, or the
  current primary prompt, each completed by the space that was just read.
\<close>

definition pasted_prompt :: "ed \<Rightarrow> bool" where
  "pasted_prompt e =
     (l_pos e > 1 \<and> l_buf e ! (l_pos e - 1) = CHR ''>'' \<and> l_buf e ! (l_pos e - 2) = CHR ''='' \<and>
      (if l_pos e > 3 \<and> l_buf e ! (l_pos e - 3) = CHR ''_'' \<and> l_buf e ! (l_pos e - 4) = CHR ''#''
       then list_all (\<lambda>c. c = SP) (take (l_pos e - 4) (l_buf e))
       else l_pos e + 1 = l_plen e \<and> take (l_pos e) (l_buf e) = take (l_pos e) (l_prompt e)))"

definition note_time :: "char \<Rightarrow> ed \<Rightarrow> ed" where
  "note_time c e =
     (let (now, e1) = system_time e in
      if \<not> pressed e1 KM_ENTER c \<and> c \<noteq> CHR ''>'' then e1\<lparr>s_lastread := now\<rparr>
      else e1\<lparr>s_pasting := (sz_sub now (s_lastread e1) < 10000)\<rparr>)"

definition handle :: "nat \<Rightarrow> char \<Rightarrow> ed \<Rightarrow> step run" where
  "handle n c e =
     (if s_pasting e \<and> c = SP \<and> pasted_prompt e then continue_with (clear_line e)
      else (case e_complete e of
          Some callback \<Rightarrow>
            (if pressed e KM_TAB c then continue_with (completeLine callback e)
             else process_char n c e)
        | None \<Rightarrow> process_char n c e))"

fun edit_loop :: "nat \<Rightarrow> char \<Rightarrow> ed \<Rightarrow> (int \<times> ed) run" where
  "edit_loop 0 peeked e = Spinning"
| "edit_loop (Suc n) peeked e =
     (let (nread, c, e1) = (if peeked \<noteq> NUL then (1, peeked, e) else tty_read (e_junk e) e);
          e2 = note_time c e1
      in if nread \<le> 0 then Done (int (l_len e2), e2\<lparr>s_active := False\<rparr>)
      else (let e3 = (if e_hlcancel e2 then emit_ev HighlightCancel e2 else e2) in
        bind_run (handle n c e3) (\<lambda>s. case s of
            Return ret e4 \<Rightarrow> Done (ret, e4)
          | Continue e4 \<Rightarrow> edit_loop n NUL e4)))"

text \<open>
  \<open>buf\<close> is the array handed in, with whatever it holds. The result comes with the state, whose
  \<open>l_buf\<close> is the array.
\<close>

definition linenoiseEdit ::
  "nat \<Rightarrow> string \<Rightarrow> string \<Rightarrow> nat \<Rightarrow> char \<Rightarrow> ed \<Rightarrow> (int \<times> ed) run" where
  "linenoiseEdit n buf prompt spaces peeked e =
     (let e0 = e\<lparr>l_buf := buf, l_buflen := length buf, l_prompt := prompt, l_plen := length prompt,
                 l_oldpos := 0, l_pos := 0, l_len := 0\<rparr>;
          (cols, e1) = getColumns e0;
          e2 = e1\<lparr>l_cols := nat (cols mod 2 ^ 64), l_maxrows := 0, l_hindex := 0\<rparr>
      in bind_run (lift (wr (l_buf e2) 0 NUL)) (\<lambda>b.
         let e3 = e2\<lparr>l_buf := b, l_buflen := l_buflen e2 - 1,
                     s_history := snd (linenoiseHistoryAdd (s_hmax e2) [] (s_history e2))\<rparr>;
             (ok, e4) = tty_write prompt e3
         in if \<not> ok then Done (-1, e4)
         else bind_run (lift (insert_all (replicate spaces SP) e4)) (\<lambda>e5.
              bind_run (lift (refreshLine e5)) (\<lambda>e6.
              edit_loop n peeked (e6\<lparr>s_active := True\<rparr>)))))"

end
