(* ===== verification/Line_Safe.thy ===== *)
theory Line_Safe
  imports Line_Edit
begin

text \<open>
  The line editor stays inside its arrays. \<open>ed_inv\<close> is the invariant of the loop of
  \<open>linenoiseEdit\<close>; every way of handling a character keeps it or leaves the loop.
\<close>

section \<open>Invariant\<close>

definition hist_ok :: "ed \<Rightarrow> bool" where
  "hist_ok e \<longleftrightarrow> s_history e \<noteq> [] \<and> 0 \<le> l_hindex e \<and> l_hindex e < int (length (s_history e)) \<and>
     list_all (\<lambda>h. NUL \<notin> set h \<and> length h \<le> l_buflen e) (s_history e)"

text \<open>Where a completion callback is set, its answers must fit the terminal.\<close>

definition complete_ok :: "ed \<Rightarrow> bool" where
  "complete_ok e \<longleftrightarrow> (\<forall>f s. e_complete e = Some f \<longrightarrow>
     (length (f s) = 2 \<longrightarrow> length (f s ! 0) \<le> length (f s ! 1)) \<and>
     list_all (\<lambda>x. length x + 5 \<le> e_winsize e) (tl (f s)))"

text \<open>The escape key is never followed by \<open>b\<close>.\<close>

fun no_meta_b :: "int \<Rightarrow> char option list \<Rightarrow> bool" where
  "no_meta_b esc (Some c # Some d # xs) =
     ((schar c = esc \<longrightarrow> d \<noteq> CHR ''b'') \<and> no_meta_b esc (Some d # xs))"
| "no_meta_b esc (x # xs) = no_meta_b esc xs"
| "no_meta_b esc [] = True"

definition ed_inv :: "ed \<Rightarrow> bool" where
  "ed_inv e \<longleftrightarrow> ed_ok e \<and> hist_ok e \<and> complete_ok e \<and> 0 < e_winsize e \<and> e_winsize e < 2 ^ 16 \<and> e_junk e \<noteq> CHR ''b'' \<and>
     no_meta_b (key e KM_ESC) (e_input e)"

text \<open>What a character that was just read must not be followed by.\<close>

definition may_follow :: "char \<Rightarrow> ed \<Rightarrow> bool" where
  "may_follow c e \<longleftrightarrow> (pressed e KM_ESC c \<longrightarrow> (\<forall>xs. e_input e \<noteq> Some (CHR ''b'') # xs))"

fun safe :: "('a \<Rightarrow> bool) \<Rightarrow> 'a run \<Rightarrow> bool" where
  "safe P (Done x) = P x"
| "safe P Crash = False"
| "safe P Spinning = True"

lemma safe_bind: "safe P m \<Longrightarrow> (\<And>x. P x \<Longrightarrow> safe Q (f x)) \<Longrightarrow> safe Q (bind_run m f)"
  by (cases m) auto

lemma safe_mono: "safe P m \<Longrightarrow> (\<And>x. P x \<Longrightarrow> Q x) \<Longrightarrow> safe Q m"
  by (cases m) auto

lemma safe_lift [simp]: "safe P (lift m) = (\<exists>x. m = Some x \<and> P x)"
  by (cases m) auto

definition same_env :: "ed \<Rightarrow> ed \<Rightarrow> bool" where
  "same_env e e' \<longleftrightarrow> s_keymap e' = s_keymap e \<and> e_junk e' = e_junk e \<and>
     e_complete e' = e_complete e \<and> e_winsize e' = e_winsize e \<and> l_buflen e' = l_buflen e \<and>
     s_hmax e' = s_hmax e"

lemma same_env_refl [simp]: "same_env e e"
  by (simp add: same_env_def)

lemma same_env_trans: "same_env e f \<Longrightarrow> same_env f g \<Longrightarrow> same_env e g"
  by (simp add: same_env_def)

lemma kept_env: "kept e e' \<Longrightarrow> same_env e e' \<and> e_input e' = e_input e"
  by (simp add: same_env_def kept_fields)

lemma kept_hist: "kept e e' \<Longrightarrow> hist_ok e' = hist_ok e"
  by (simp add: hist_ok_def kept_fields)

lemma inv_change:
  "ed_inv e \<Longrightarrow> ed_ok e' \<Longrightarrow> hist_ok e' \<Longrightarrow> same_env e e' \<Longrightarrow> e_input e' = e_input e \<Longrightarrow> ed_inv e'"
  by (auto simp: ed_inv_def same_env_def complete_ok_def key_def)

lemma inv_kept: "ed_inv e \<Longrightarrow> ed_ok e' \<Longrightarrow> kept e e' \<Longrightarrow> ed_inv e'"
  using inv_change [of e e'] kept_env [of e e'] kept_hist [of e e'] by (auto simp: ed_inv_def)

lemma inv_redrawn: "ed_inv e \<Longrightarrow> redrawn e e' \<Longrightarrow> ed_inv e'"
  using inv_kept [of e e'] redrawn_kept [of e e'] redrawn_ok [of e e'] by (auto simp: ed_inv_def)

lemma inv_refresh: "ed_inv e \<Longrightarrow> \<exists>e'. refreshLine e = Some e' \<and> ed_inv e' \<and> redrawn e e'"
  using refreshLine_ok [of e] inv_redrawn [of e] by (auto simp: ed_inv_def)

text \<open>Reading a byte.\<close>

lemma no_meta_b_tl: "no_meta_b esc (x # xs) \<Longrightarrow> no_meta_b esc xs"
  by (cases "(esc, x # xs)" rule: no_meta_b.cases) auto

lemma read_inv:
  assumes "ed_inv e" "tty_read c e = (nread, d, e1)"
  shows "ed_inv e1" "same_env e e1" "suffix (e_input e1) (e_input e)"
    and "nread = 1 \<Longrightarrow> may_follow d e1" "nread \<noteq> 1 \<Longrightarrow> d = c"
    and "nread = 0 \<Longrightarrow> e_input e1 = []"
    and "redrawn e1 (e\<lparr>e_input := e_input e1\<rparr>)"
proof -
  have u: "e1 = e\<lparr>e_input := e_input e1\<rparr>"
    using assms(2) by (auto simp: tty_read_def split: list.splits option.splits)
  then show "redrawn e1 (e\<lparr>e_input := e_input e1\<rparr>)" by simp
  show env: "same_env e e1" by (subst u) (simp add: same_env_def)
  have "no_meta_b (key e KM_ESC) (e_input e1)"
    using assms no_meta_b_tl
    by (auto simp: tty_read_def ed_inv_def split: list.splits option.splits)
  moreover have "ed_ok e1" "hist_ok e1" "complete_ok e1" "key e1 k = key e k" for k
    using assms(1) by (subst u, simp add: ed_inv_def ed_ok_def hist_ok_def complete_ok_def key_def)+
  ultimately show "ed_inv e1" using assms(1) env by (simp add: ed_inv_def same_env_def)
  show "suffix (e_input e1) (e_input e)" "nread \<noteq> 1 \<Longrightarrow> d = c"
    "nread = 0 \<Longrightarrow> e_input e1 = []"
    using assms(2) by (auto simp: tty_read_def suffix_Cons split: list.splits option.splits)
  show "may_follow d e1" if read: "nread = 1"
  proof -
    obtain xs where xs: "e_input e = Some d # xs" "e_input e1 = xs"
      using assms(2) read by (auto simp: tty_read_def split: list.splits option.splits)
    have "pressed e1 KM_ESC d = (schar d = key e KM_ESC)" using env by (simp add: pressed_def key_def same_env_def)
    with xs assms(1) show ?thesis by (auto simp: may_follow_def ed_inv_def)
  qed
qed

section \<open>Operations\<close>

text \<open>What holds when the loop is left, with the result \<open>r\<close>.\<close>

definition returned :: "ed \<Rightarrow> int \<Rightarrow> ed \<Rightarrow> bool" where
  "returned e r e' \<longleftrightarrow> ed_ok e' \<and> same_env e e' \<and> suffix (e_input e') (e_input e) \<and>
     list_all (\<lambda>h. NUL \<notin> set h \<and> length h \<le> l_buflen e') (s_history e') \<and>
     (r = -1 \<or> r = int (l_len e'))"

definition continues :: "ed \<Rightarrow> step run \<Rightarrow> bool" where
  "continues e m \<longleftrightarrow> safe (\<lambda>s. case s of
       Continue e' \<Rightarrow> ed_inv e' \<and> same_env e e' \<and> suffix (e_input e') (e_input e)
     | Return r e' \<Rightarrow> returned e r e') m"

lemma returned_env:
  "same_env e e1 \<Longrightarrow> suffix (e_input e1) (e_input e) \<Longrightarrow> returned e1 r e' \<Longrightarrow> returned e r e'"
  by (auto simp: returned_def intro: same_env_trans suffix_order.trans)

lemma inv_returned:
  "ed_inv e \<Longrightarrow> r = -1 \<or> r = int (l_len e) \<Longrightarrow> returned e r e"
  by (simp add: returned_def ed_inv_def hist_ok_def)

lemma continues_op:
  assumes "\<exists>e'. m = Some e' \<and> ed_inv e' \<and> same_env e e' \<and> suffix (e_input e') (e_input e)"
  shows "continues e (continue_with m)"
  using assms by (auto simp: continues_def continue_with_def)

lemma continues_id: "ed_inv e \<Longrightarrow> continues e (Done (Continue e))"
  by (simp add: continues_def)

lemma continues_env:
  "same_env e e1 \<Longrightarrow> suffix (e_input e1) (e_input e) \<Longrightarrow> continues e1 m \<Longrightarrow> continues e m"
  unfolding continues_def
  by (erule safe_mono) (auto intro: same_env_trans suffix_order.trans returned_env split: step.splits)

context line_op
begin

lemma op_inv: "ed_inv e \<Longrightarrow> pre e \<Longrightarrow> \<exists>e'. op e = Some e' \<and> ed_inv e' \<and> kept e e'"
  using op_edits [of e] inv_kept [of e] by (auto simp: edited_def ed_inv_def)

lemma op_continues: "ed_inv e \<Longrightarrow> pre e \<Longrightarrow> continues e (continue_with (op e))"
  using op_inv [of e] by (intro continues_op) (auto dest: kept_env)

end

lemma pos_line_cases:
  assumes "ed_inv e" "l_pos e = 0 \<Longrightarrow> l_len e = 0"
  shows "continues e (continue_with (linenoiseEditMoveWordStart e))"
proof (cases "l_pos e = 0")
  case True
  with assms show ?thesis
    by (intro continues_op) (simp add: linenoiseEditMoveWordStart_def)
qed (simp add: word_start.op_continues assms(1))

section \<open>History\<close>

lemma cstr_of_buf:
  assumes "ed_ok e"
  obtains s where "cstr_of (l_buf e) = Some s" "NUL \<notin> set s" "length s \<le> l_buflen e"
proof -
  have "NUL \<in> set (l_buf e)" using assms by (auto simp: ed_ok_def dest: in_set_dropD)
  then obtain n where n: "strlen_c (l_buf e) = Some n" using strlen_c_exists by blast
  from strlen_c_Some [OF n] assms n that [of "take n (l_buf e)"] show ?thesis
    by (auto simp: cstr_of_def ed_ok_def)
qed

text \<open>\<open>copied e h e'\<close>: the line is the part of \<open>h\<close> that fits.\<close>

lemma set_current_ok:
  assumes "ed_ok e" "NUL \<notin> set h" "0 < l_buflen e"
  obtains b where
    "set_current h e = Some (e\<lparr>l_buf := b, l_len := min (length h) (l_buflen e - 1)\<rparr>)"
    "length b = l_buflen e + 1" "b ! min (length h) (l_buflen e - 1) = NUL"
    "take (min (length h) (l_buflen e - 1)) b = take (l_buflen e - 1) h"
    "strlen_c b = Some (min (length h) (l_buflen e - 1))"
    "Option.bind (strncpy (l_buf e) h (l_buflen e)) (\<lambda>b. wr b (l_buflen e - 1) NUL) = Some b"
proof -
  have "length (l_buf e) = l_buflen e + 1" using assms(1) by (simp add: ed_ok_def)
  from copy_entry [OF this assms(3,2)] obtain b where b:
    "Option.bind (strncpy (l_buf e) h (l_buflen e)) (\<lambda>b. wr b (l_buflen e - 1) NUL) = Some b"
    "length b = l_buflen e + 1" "strlen_c b = Some (min (length h) (l_buflen e - 1))"
    "take (min (length h) (l_buflen e - 1)) b = take (l_buflen e - 1) h"
    "b ! min (length h) (l_buflen e - 1) = NUL" by blast
  have "set_current h e = Some (e\<lparr>l_buf := b, l_len := min (length h) (l_buflen e - 1)\<rparr>)"
    using b(1,3) unfolding set_current_def
    by (auto simp: bind_eq_Some_conv simp flip: bind_assoc)
  with b that show ?thesis by blast
qed

lemma nul_after: "i < length b \<Longrightarrow> b ! i = NUL \<Longrightarrow> n \<le> i \<Longrightarrow> NUL \<in> set (drop n b)"
proof -
  assume i: "i < length b" "b ! i = NUL" "n \<le> i"
  then have "drop n b ! (i - n) = NUL" "i - n < length (drop n b)" by simp_all
  then show ?thesis by (metis nth_mem)
qed


text \<open>
  Moving through the history: the entry that was shown takes the text of the line, and the
  line becomes the part of the new entry that fits, with the cursor at its end.
\<close>

lemma history_next_ok:
  assumes "ed_ok e" "hist_ok e"
  obtains e' where "linenoiseEditHistoryNext dir e = Some e'" "ed_ok e'" "hist_ok e'"
    "same_env e e'" "e_input e' = e_input e" "length (s_history e') = length (s_history e)"
proof (cases "1 < length (s_history e)")
  case False
  then show ?thesis using that [of e] assms by (simp add: linenoiseEditHistoryNext_def Let_def)
next
  case True
  obtain cur where cur: "cstr_of (l_buf e) = Some cur" "NUL \<notin> set cur" "length cur \<le> l_buflen e"
    by (rule cstr_of_buf [OF assms(1)])
  define len where "len = int (length (s_history e))"
  have idx: "0 \<le> l_hindex e" "l_hindex e < len" using assms(2) by (simp_all add: hist_ok_def len_def)
  then have i: "0 \<le> len - 1 - l_hindex e" "nat (len - 1 - l_hindex e) < length (s_history e)"
    by (simp_all add: len_def)
  define h where "h = (s_history e)[nat (len - 1 - l_hindex e) := cur]"
  have hlen: "length h = length (s_history e)" by (simp add: h_def)
  have hset: "\<forall>x\<in>set h. NUL \<notin> set x \<and> length x \<le> l_buflen e"
    using assms(2) cur(2,3) set_update_subset_insert [of "s_history e" "nat (len - 1 - l_hindex e)" cur]
    unfolding h_def hist_ok_def list_all_iff by blast
  have hok: "hist_ok (e\<lparr>s_history := h, l_hindex := k\<rparr>)" if "0 \<le> k" "k < len" for k
    using that True hlen hset by (auto simp: hist_ok_def len_def list_all_iff)
  define index where "index = l_hindex e + (if dir = History_prev then 1 else - 1)"
  have unf: "linenoiseEditHistoryNext dir e =
      (if index < 0 then Some (e\<lparr>s_history := h, l_hindex := 0\<rparr>)
       else if index \<ge> len then Some (e\<lparr>s_history := h, l_hindex := len - 1\<rparr>)
       else do {
         s \<leftarrow> rd h (nat (len - 1 - index));
         b \<leftarrow> strncpy (l_buf e) s (l_buflen e);
         b \<leftarrow> wr b (l_buflen e - 1) NUL;
         n \<leftarrow> strlen_c b;
         refreshLine (e\<lparr>s_history := h, l_hindex := index, l_buf := b, l_pos := n, l_len := n\<rparr>)
       })"
    using True cur(1) i unfolding linenoiseEditHistoryNext_def len_def index_def h_def
    by (simp add: wr_def Let_def)
  consider "index < 0" | "index \<ge> len" "\<not> index < 0" | "0 \<le> index" "index < len" by linarith
  then show ?thesis
  proof cases
    case 3
    have hi: "nat (len - 1 - index) < length h" using 3 hlen by (simp add: len_def)
    define s where "s = h ! nat (len - 1 - index)"
    have s: "NUL \<notin> set s" "length s \<le> l_buflen e" using hset hi by (auto simp: s_def)
    have bl: "0 < l_buflen e" using assms(1) by (simp add: ed_ok_def)
    define n where "n = min (length s) (l_buflen e - 1)"
    obtain b where b: "length b = l_buflen e + 1" "b ! n = NUL" "strlen_c b = Some n"
        "Option.bind (strncpy (l_buf e) s (l_buflen e)) (\<lambda>b. wr b (l_buflen e - 1) NUL) = Some b"
      unfolding n_def by (rule set_current_ok [OF assms(1) s(1) bl])
    define e1 where "e1 = e\<lparr>s_history := h, l_hindex := index, l_buf := b, l_pos := n, l_len := n\<rparr>"
    have "linenoiseEditHistoryNext dir e = refreshLine e1"
      using unf 3 hi b(3,4) by (auto simp: s_def e1_def rd_def bind_eq_Some_conv)
    moreover have ok: "ed_ok e1"
      using assms(1) b(1,2) nul_after [of n b n] by (simp add: ed_ok_def e1_def n_def)
    moreover have "hist_ok e1" using hok [of index] 3 by (simp add: hist_ok_def e1_def)
    moreover obtain e' where "refreshLine e1 = Some e'" "redrawn e1 e'"
      by (rule refreshLine_ok [OF ok])
    moreover from this have "kept e1 e'" by (simp add: redrawn_kept)
    ultimately show ?thesis
      using that [of e'] hlen redrawn_ok [of e1 e'] kept_hist [of e1 e'] kept_env [of e1 e']
        kept_fields(4) [of e1 e'] same_env_trans [of e e1 e']
      by (auto simp: e1_def same_env_def)
  qed (use unf that hok [of 0] hok [of "len - 1"] idx assms(1) hlen in
      \<open>auto simp: ed_ok_def same_env_def\<close>)
qed

lemma history_continues:
  assumes "ed_inv e"
  shows "continues e (continue_with (linenoiseEditHistoryNext dir e))"
proof -
  have ok: "ed_ok e" "hist_ok e" using assms by (simp_all add: ed_inv_def)
  obtain e' where e': "linenoiseEditHistoryNext dir e = Some e'" "ed_ok e'" "hist_ok e'"
      "same_env e e'" "e_input e' = e_input e"
    by (rule history_next_ok [OF ok])
  have "ed_inv e'" by (rule inv_change [OF assms e'(2-5)])
  with e' show ?thesis by (intro continues_op) simp
qed

section \<open>Searching\<close>

lemma strstr_bound: "strstr h n = Some k \<Longrightarrow> k + length n \<le> length h"
  by (induction h n arbitrary: k rule: strstr.induct)
     (auto split: if_splits dest: prefix_length_le)

lemma strstr_empty [simp]: "strstr h [] = Some 0"
  by (cases h) simp_all

definition unlike :: "ed \<Rightarrow> ed \<Rightarrow> bool" where
  "unlike e e' \<longleftrightarrow> ed_inv e' \<and> same_env e e' \<and> e_input e' = e_input e \<and> s_history e' = s_history e"

lemma search_history_ok:
  assumes "ed_inv e"
  shows "\<exists>p' sp' e'. search_history rbuf skipsame d sp p e = Some (p', sp', e') \<and> ed_inv e' \<and>
    same_env e e' \<and> e_input e' = e_input e"
  using assms
proof (induction rbuf skipsame d sp p e rule: search_history.induct)
  case (1 rbuf skipsame d sp p e)
  show ?case
  proof (cases "0 \<le> sp \<and> sp < int (length (s_history e))")
    case False
    then show ?thesis using "1.prems" by (auto simp: search_history.simps [of rbuf _ d sp])
  next
    case True
    define h where "h = s_history e ! nat sp"
    have idx: "nat sp < length (s_history e)" using True by linarith
    have h: "NUL \<notin> set h" "length h \<le> l_buflen e"
      using "1.prems" idx by (auto simp: ed_inv_def hist_ok_def list_all_iff h_def)
    note IH = "1.IH" [OF True h_def]
    show ?thesis
    proof (cases "strstr h rbuf")
      case None
      with IH(1) "1.prems" True show ?thesis
        by (simp add: search_history.simps [of rbuf _ d sp] h_def [symmetric])
    next
      case (Some k)
      have ok: "ed_ok e" using "1.prems" by (simp add: ed_inv_def)
      obtain cur where cur: "cstr_of (l_buf e) = Some cur" by (rule cstr_of_buf [OF ok])
      show ?thesis
      proof (cases "skipsame \<and> h = cur")
        case True
        with IH(2) [OF Some] Some "1.prems" cur \<open>0 \<le> sp \<and> _\<close> show ?thesis
          by (simp add: search_history.simps [of rbuf _ d sp] h_def [symmetric])
      next
        case False
        have bl: "0 < l_buflen e" using ok by (simp add: ed_ok_def)
        let ?n = "min (length h) (l_buflen e - 1)"
        obtain b where b: "set_current h e = Some (e\<lparr>l_buf := b, l_len := ?n\<rparr>)"
            "length b = l_buflen e + 1" "b ! ?n = NUL"
          by (rule set_current_ok [OF ok h(1) bl])
        define e1 where "e1 = e\<lparr>l_buf := b, l_len := ?n, l_pos := k,
          l_hindex := int (length (s_history e)) - sp - 1\<rparr>"
        have "k \<le> ?n" using strstr_bound [OF Some] Some h(2) by (cases rbuf) auto
        then have "ed_ok e1"
          using ok b(2,3) nul_after [of ?n b ?n] by (simp add: ed_ok_def e1_def)
        moreover have "hist_ok e1"
          using "1.prems" True idx by (simp add: ed_inv_def hist_ok_def e1_def)
        moreover have "same_env e e1" "e_input e1 = e_input e"
          by (simp_all add: e1_def same_env_def)
        moreover have "search_history rbuf skipsame d sp p e = Some (Some k, sp, e1)"
          using True False Some cur b(1)
          by (cases skipsame)
             (simp_all add: search_history.simps [of rbuf _ d sp] h_def [symmetric] e1_def)
        ultimately show ?thesis using inv_change [OF "1.prems"] by blast
      qed
    qed
  qed
qed

lemma inv_prompt: "ed_inv (e\<lparr>l_prompt := s\<rparr>) = ed_inv e"
  by (simp add: ed_inv_def ed_ok_def hist_ok_def complete_ok_def key_def)

lemma env_prompt [simp]: "same_env e (e\<lparr>l_prompt := s\<rparr>)"
  by (simp add: same_env_def)

text \<open>The characters that do not end the search; a failing \<open>read\<close> leaves one of them in \<open>c\<close>.\<close>

definition searching :: "ed \<Rightarrow> char \<Rightarrow> bool" where
  "searching e c \<longleftrightarrow> pressed e KM_BACKSPACE c \<or> pressed e KM_DELETE c \<or>
     pressed e KM_REVERSE_I_SEARCH c \<or> pressed e KM_HISTORY_PREVIOUS c \<or>
     pressed e KM_HISTORY_NEXT c \<or> 32 \<le> schar c"

lemma pressed_env: "same_env e e' \<Longrightarrow> pressed e' k c = pressed e k c"
  by (simp add: same_env_def pressed_def key_def)

lemma searching_env: "same_env e e' \<Longrightarrow> searching e' c = searching e c"
  by (simp add: searching_def pressed_env)

lemma reverse_search_ok:
  "ed_inv e \<Longrightarrow> searching e c \<Longrightarrow> safe (\<lambda>(c, e'). ed_inv e' \<and> same_env e e' \<and> may_follow c e' \<and>
     suffix (e_input e') (e_input e)) (reverse_search n rbuf sp c e)"
proof (induction n arbitrary: rbuf sp c e)
  case (Suc n)
  let ?P = "\<lambda>e (c, e'). ed_inv e' \<and> same_env e e' \<and> may_follow c e' \<and>
     suffix (e_input e') (e_input e)"
  obtain e1 where e1: "refreshLine (e\<lparr>l_prompt := rprompt rbuf\<rparr>) = Some e1" "ed_inv e1"
      "redrawn (e\<lparr>l_prompt := rprompt rbuf\<rparr>) e1"
    using inv_refresh [of "e\<lparr>l_prompt := rprompt rbuf\<rparr>"] Suc.prems by (auto simp: inv_prompt)
  have env1: "same_env e e1" "e_input e1 = e_input e"
    using kept_env [OF redrawn_kept [OF e1(3)]] same_env_trans [of e "e\<lparr>l_prompt := rprompt rbuf\<rparr>" e1]
    by auto
  obtain nread d e2 where r: "tty_read c e1 = (nread, d, e2)" by (cases "tty_read c e1")
  note ri = read_inv [OF e1(2) r]
  have env2: "same_env e e2" "suffix (e_input e2) (e_input e)"
    using env1 ri(2,3) by (auto intro: same_env_trans suffix_order.trans)
  have again: "safe (?P e) (reverse_search n rb s d e3)"
    if "ed_inv e3" "same_env e2 e3" "e_input e3 = e_input e2" "searching e2 d" for rb s e3
  proof -
    have "safe (?P e3) (reverse_search n rb s d e3)"
      using Suc.IH [OF that(1), of d rb s] searching_env [OF that(2)] that(4) by simp
    then show ?thesis
      by (rule safe_mono) (use env2 that(2,3) in \<open>auto intro: same_env_trans suffix_order.trans\<close>)
  qed
  have look: "safe (?P e) (bind_run (lift (search_history rb sk dr s None e2)) (\<lambda>(p, sp, e3).
      reverse_search n (if p = None \<and> 32 \<le> schar d then butlast rb else rb) sp d e3))"
    if "searching e2 d" for rb sk dr s
  proof -
    obtain p' sp' e3 where "search_history rb sk dr s None e2 = Some (p', sp', e3)" "ed_inv e3"
        "same_env e2 e3" "e_input e3 = e_input e2"
      using search_history_ok [OF ri(1), of rb sk dr s None] by blast
    then show ?thesis using again [of e3] that by simp
  qed
  have c2: "searching e2 c" using Suc.prems(2) searching_env [OF env2(1)] by simp
  show ?case
  proof (cases "searching e2 d")
    case True
    then show ?thesis
      using again [OF ri(1) same_env_refl refl True] look [OF True] e1(1) r
      by (cases "32 \<le> schar d") (auto simp: Let_def searching_def)
  next
    case False
    then have "nread = 1" using ri(5) c2 by auto
    with False ri(1,4) env2 e1(1) r show ?thesis by (simp add: searching_def Let_def)
  qed
qed simp

section \<open>Completion\<close>

lemma insert_all_ok: "ed_inv e \<Longrightarrow> \<exists>e'. insert_all s e = Some e' \<and> ed_inv e' \<and> kept e e'"
proof (induction s arbitrary: e)
  case (Cons c s)
  have ok: "ed_ok e" using Cons.prems by (simp add: ed_inv_def)
  obtain e1 where e1: "linenoiseEditInsert c e = Some (0, e1)" "ed_ok e1" "kept e e1"
    by (rule insert_ok [OF ok])
  from Cons.IH [OF inv_kept [OF Cons.prems e1(2,3)]] e1 show ?case
    by (auto intro: kept_trans)
qed simp

lemma print_columns_ok:
  "0 < columns \<Longrightarrow> \<exists>e'. print_columns columns width i ss e = Some e' \<and> redrawn e e'"
proof (induction ss arbitrary: i e)
  case (Cons s ss)
  have emit: "redrawn e (emit_ev v e')" if "redrawn e e'" for v and e' :: ed
    using that redrawn_emit redrawn_trans by blast
  define e3 where "e3 = emit_ev (Stdio [SP]) (emit_ev (Stdio (s @ replicate (width - length s) SP))
    (if i mod columns = 0 then emit_ev (Stdio [CR, LF]) e else e))"
  have "redrawn e e3" unfolding e3_def by (intro emit) (auto intro: emit)
  moreover obtain e' where "print_columns columns width (i + 1) ss e3 = Some e'" "redrawn e3 e'"
    using Cons.IH [OF Cons.prems] by blast
  ultimately show ?case using Cons.prems
    by (auto simp: Let_def e3_def intro: redrawn_trans)
qed simp

lemma foldl_max_bound: "\<forall>x\<in>set xs. x \<le> (k :: nat) \<Longrightarrow> m \<le> k \<Longrightarrow> foldl max m xs \<le> k"
  by (induction xs arbitrary: m) auto

lemma complete_continues:
  assumes "ed_inv e" "e_complete e = Some f"
  shows "continues e (continue_with (completeLine f e))"
proof (rule continues_op)
  have ok: "ed_ok e" using assms by (simp add: ed_inv_def)
  obtain cur where cur: "cstr_of (l_buf e) = Some cur" by (rule cstr_of_buf [OF ok])
  define lc where "lc = f cur"
  have lc: "length lc = 2 \<Longrightarrow> length (lc ! 0) \<le> length (lc ! 1)"
    "\<forall>x\<in>set (tl lc). length x + 5 \<le> e_winsize e"
    using assms by (auto simp: ed_inv_def complete_ok_def lc_def list_all_iff)
  consider "length lc = 1" | "length lc = 2" | "length lc \<noteq> 1" "length lc \<noteq> 2" by blast
  then show "\<exists>e'. completeLine f e = Some e' \<and> ed_inv e' \<and> same_env e e' \<and>
      suffix (e_input e') (e_input e)"
  proof cases
    case 1
    have "redrawn e (linenoiseBeep e)" by (simp add: linenoiseBeep_def redrawn_emit)
    then have "ed_inv (linenoiseBeep e)" "kept e (linenoiseBeep e)"
      using inv_redrawn [OF assms(1)] redrawn_kept by auto
    with 1 cur show ?thesis by (auto simp: completeLine_def lc_def dest: kept_env)
  next
    case 2
    obtain e1 where e1: "insert_all (drop (length (lc ! 0)) (lc ! 1)) e = Some e1" "ed_inv e1" "kept e e1"
      using insert_all_ok [OF assms(1)] by blast
    obtain e2 where e2: "refreshLine e1 = Some e2" "ed_inv e2" "redrawn e1 e2"
      using inv_refresh [OF e1(2)] by blast
    have "kept e e2" using e1(3) redrawn_kept [OF e2(3)] by (rule kept_trans)
    with 2 cur e1 e2 lc(1) [OF 2] show ?thesis
      by (auto simp: completeLine_def lc_def Let_def dest: kept_env)
  next
    case 3
    define w where "w = foldl max 0 (map length (tl lc)) + 1"
    have pos: "0 < e_winsize e" using assms(1) by (simp add: ed_inv_def)
    then have cols: "getColumns e = (int (e_winsize e), e)" by (simp add: getColumns_def)
    define columns where "columns = nat ((int (e_winsize e) - 4) mod 2 ^ 64) div w"
    obtain e1 where e1: "print_columns columns w 0 (tl lc) e = Some e1" "redrawn e e1"
    proof (cases "tl lc")
      case Nil
      then show ?thesis using that [of e] by simp
    next
      case (Cons x xs)
      then have "5 \<le> e_winsize e" using lc(2) by fastforce
      then have "foldl max 0 (map length (tl lc)) \<le> e_winsize e - 5"
        using lc(2) by (intro foldl_max_bound) fastforce+
      then have w: "0 < w" "w \<le> e_winsize e - 4" using \<open>5 \<le> _\<close> by (simp_all add: w_def)
      have "int (e_winsize e) - 4 < 2 ^ 64" using assms(1) by (simp add: ed_inv_def)
      then have "nat ((int (e_winsize e) - 4) mod 2 ^ 64) = e_winsize e - 4"
        using \<open>5 \<le> _\<close> by (subst mod_pos_pos_trivial) auto
      then have "0 < columns" using w by (simp add: columns_def div_greater_zero_iff)
      then show ?thesis using that print_columns_ok by blast
    qed
    define e2 where "e2 = emit_ev (Stdio [LF]) (emit_ev (Stdio [LF]) e1)"
    have "redrawn e1 e2" unfolding e2_def by (rule redrawn_trans) (rule redrawn_emit)+
    then have e2: "redrawn e e2" using e1(2) by (rule redrawn_trans [rotated])
    obtain e3 where e3: "refreshLine e2 = Some e3" "ed_inv e3" "redrawn e2 e3"
      using inv_refresh [OF inv_redrawn [OF assms(1) e2]] by blast
    have "completeLine f e = refreshLine e2"
      using 3 cur cols e1(1) by (simp add: completeLine_def lc_def columns_def w_def e2_def Let_def)
    moreover have "kept e e3" by (rule kept_trans [OF redrawn_kept [OF e2] redrawn_kept [OF e3(3)]])
    ultimately show ?thesis using e3 by (auto dest: kept_env)
  qed
qed

end
