(* ===== verification/Line_Run.thy ===== *)
theory Line_Run
  imports Line_Safe
begin

text \<open>
  Whole runs of the editor: handling one character, the loop, and \<open>linenoiseEdit\<close> itself.
\<close>

section \<open>One character\<close>

lemma enter_ok:
  assumes "ed_inv e"
  shows "continues e (bind_run (lift (pop_history e)) (\<lambda>e1.
    bind_run (lift (if s_mlmode e1 then linenoiseEditMoveEnd e1 else Some e1)) (\<lambda>e2.
    Done (leave (int (l_len e2)) e2))))"
proof -
  define e1 where "e1 = e\<lparr>s_history := butlast (s_history e)\<rparr>"
  have pop: "pop_history e = Some e1"
    using assms by (simp add: pop_history_def ed_inv_def hist_ok_def e1_def)
  have ok: "ed_ok e1" using assms by (simp add: ed_inv_def ed_ok_def e1_def)
  obtain e2 where e2: "linenoiseEditMoveEnd e1 = Some e2" "edited e1 (case sides e1 of (l, r) \<Rightarrow> (l @ r, [])) e2"
    using move_end.op_edits [OF ok] by auto
  have k: "kept e1 e2" using e2(2) by (simp add: edited_def)
  have "ed_ok (e2\<lparr>s_active := False\<rparr>)" using e2(2) by (simp add: edited_def ed_ok_def)
  moreover have "same_env e e1" "e_input e1 = e_input e" by (simp_all add: e1_def same_env_def)
  with kept_env [OF k] have "same_env e (e2\<lparr>s_active := False\<rparr>)" "e_input e2 = e_input e"
    by (simp_all add: same_env_def)
  moreover have "list_all (\<lambda>h. NUL \<notin> set h \<and> length h \<le> l_buflen e2) (s_history e2)"
    using assms kept_fields(1,4) [OF k]
    by (auto simp: e1_def ed_inv_def hist_ok_def list_all_iff dest: in_set_butlastD)
  ultimately have "returned e (int (l_len e2)) (e2\<lparr>s_active := False\<rparr>)"
    by (simp add: returned_def)
  moreover have "s_mlmode e1" using ok by (simp add: ed_ok_def)
  ultimately show ?thesis using pop e2(1) by (simp add: continues_def leave_def)
qed

text \<open>Leaving the loop with the state as it is.\<close>

lemma leave_returned:
  assumes "ed_inv e" "r = -1 \<or> r = int (l_len e)"
  shows "returned e r (e\<lparr>s_active := False\<rparr>)"
  using assms by (simp add: returned_def ed_inv_def ed_ok_def hist_ok_def same_env_def)

lemma leave_ok: "ed_inv e \<Longrightarrow> continues e (Done (leave (-1) (emit_ev Errno_again e)))"
  by (simp add: continues_def leave_def emit_ev_def returned_def ed_inv_def ed_ok_def hist_ok_def
      same_env_def)

lemma pop_leave_ok:
  "ed_inv e \<Longrightarrow> continues e (bind_run (lift (pop_history e)) (\<lambda>e1. Done (leave (-1) e1)))"
  by (auto simp: continues_def leave_def pop_history_def returned_def ed_inv_def ed_ok_def
      hist_ok_def same_env_def list_all_iff dest: in_set_butlastD)

lemma insert_continues:
  assumes "ed_inv e"
  shows "continues e (bind_run (lift (linenoiseEditInsert c e)) (\<lambda>(ret, e1).
    Done (if ret \<noteq> 0 then leave (-1) e1 else Continue e1)))"
proof -
  have ok: "ed_ok e" using assms by (simp add: ed_inv_def)
  obtain e' where "linenoiseEditInsert c e = Some (0, e')" "ed_ok e'" "kept e e'"
    by (rule insert_ok [OF ok])
  then show ?thesis using inv_kept [OF assms] kept_env [of e e'] by (simp add: continues_def)
qed

lemma clear_screen_continues:
  assumes "ed_inv e"
  shows "continues e (continue_with (refreshLine (linenoiseClearScreen e)))"
proof (rule continues_op)
  have r: "redrawn e (linenoiseClearScreen e)" by (simp add: linenoiseClearScreen_def)
  obtain e' where e': "refreshLine (linenoiseClearScreen e) = Some e'" "ed_inv e'"
      "redrawn (linenoiseClearScreen e) e'"
    using inv_refresh [OF inv_redrawn [OF assms r]] by blast
  have "kept e e'" using redrawn_kept [OF redrawn_trans [OF r e'(3)]] .
  with e' show "\<exists>e'. refreshLine (linenoiseClearScreen e) = Some e' \<and> ed_inv e' \<and> same_env e e' \<and>
      suffix (e_input e') (e_input e)"
    by (auto dest: kept_env)
qed

lemma esc_bracket_continues: "ed_inv e \<Longrightarrow> continues e (esc_bracket s1 e)"
proof (cases "48 \<le> schar s1 \<and> schar s1 \<le> 57")
  case True
  assume inv: "ed_inv e"
  obtain nread s2 e1 where r: "tty_read (e_junk e) e = (nread, s2, e1)"
    by (cases "tty_read (e_junk e) e")
  note ri = read_inv [OF inv r]
  have "continues e1 (Done (leave (int (l_len e1)) e1))"
    using leave_returned [OF ri(1)] by (simp add: continues_def leave_def)
  with True r ri(1) delete.op_continues [OF ri(1)] continues_id [OF ri(1)] continues_env [OF ri(2,3)]
  show ?thesis by (simp add: esc_bracket_def)
next
  case False
  assume "ed_inv e"
  then show ?thesis
    unfolding esc_bracket_def if_not_P [OF False]
    by (simp add: history_continues move_right.op_continues move_left.op_continues
        move_home.op_continues move_end.op_continues continues_id)
qed

lemma esc_o_continues: "ed_inv e \<Longrightarrow> continues e (esc_o s1 e)"
  by (simp add: esc_o_def move_home.op_continues move_end.op_continues continues_id)

lemma esc_continues:
  assumes "ed_inv e" "may_follow c e" "pressed e KM_ESC c"
    and IH: "\<And>c e. ed_inv e \<Longrightarrow> may_follow c e \<Longrightarrow> continues e (process_char n c e)"
  shows "continues e
    (let (nread, s0, e1) = tty_read (e_junk e) e in
     if nread = -1 then Done (Continue e1)
     else if s0 \<noteq> CHR ''['' \<and> s0 \<noteq> CHR ''O'' then
       (if s0 = CHR ''f'' then continue_with (linenoiseEditMoveWordEnd e1)
        else if s0 = CHR ''b'' then continue_with (linenoiseEditMoveWordStart e1)
        else if s0 = CHR ''d'' then continue_with (linenoiseEditDeleteNextWord e1)
        else process_char n s0 e1)
     else
       (let (nread, s1, e2) = tty_read (e_junk e1) e1 in
        if nread = -1 then Done (Continue e2)
        else if s0 = CHR ''['' then esc_bracket s1 e2
        else esc_o s1 e2))"
proof -
  obtain nread s0 e1 where r: "tty_read (e_junk e) e = (nread, s0, e1)" by (cases "tty_read (e_junk e) e")
  note ri = read_inv [OF assms(1) r]
  obtain nread' s1 e2 where r2: "tty_read (e_junk e1) e1 = (nread', s1, e2)"
    by (cases "tty_read (e_junk e1) e1")
  note ri2 = read_inv [OF ri(1) r2]
  note up = continues_env [OF ri(2,3)]
  have rest: "continues e (if nread' = -1 then Done (Continue e2)
      else if s0 = CHR ''['' then esc_bracket s1 e2 else esc_o s1 e2)"
    by (intro up continues_env [OF ri2(2,3)])
       (simp add: continues_id ri2(1) esc_bracket_continues esc_o_continues)
  have nb: "s0 \<noteq> CHR ''b''" if "nread \<noteq> -1"
  proof (cases "nread = 1")
    case True
    then have "e_input e = Some s0 # e_input e1"
      using r by (auto simp: tty_read_def split: list.splits option.splits)
    with assms(2,3) show ?thesis by (auto simp: may_follow_def)
  next
    case False
    then have "s0 = e_junk e" using ri(5) by simp
    with assms(1) show ?thesis by (simp add: ed_inv_def)
  qed
  have mf: "may_follow s0 e1" if "nread \<noteq> -1"
  proof (cases "nread = 1")
    case False
    with that r have "e_input e1 = []" by (auto simp: tty_read_def split: list.splits option.splits)
    then show ?thesis by (simp add: may_follow_def)
  qed (use ri(4) in simp)
  show ?thesis using r r2 rest nb up [OF IH [OF ri(1) mf]] up [OF continues_id [OF ri(1)]]
      up [OF word_end.op_continues [OF ri(1)]] up [OF delete_next_word.op_continues [OF ri(1)]]
    by (simp add: Let_def)
qed

lemma process_nul: "ed_inv e \<Longrightarrow> continues e (process_char n NUL e)"
  by (cases n) (simp_all add: continues_def)

lemma if_cases: "(b \<Longrightarrow> continues e x) \<Longrightarrow> (\<not> b \<Longrightarrow> continues e y) \<Longrightarrow> continues e (if b then x else y)"
  by simp

lemma search_continues:
  assumes "ed_inv e" "pressed e KM_REVERSE_I_SEARCH c"
    and IH: "\<And>c e. ed_inv e \<Longrightarrow> may_follow c e \<Longrightarrow> continues e (process_char n c e)"
  shows "continues e
    (bind_run (reverse_search n [] (int (length (s_history e)) - 1) c e) (\<lambda>(c, e1).
     bind_run
       (if pressed e1 KM_CANCEL_SEARCH c
        then bind_run (lift (set_current [] e1)) (\<lambda>e2. Done (NUL, e2\<lparr>l_pos := 0\<rparr>))
        else if pressed e1 KM_FINISH_SEARCH c then Done (NUL, e1)
        else Done (c, e1)) (\<lambda>(c, e2).
     bind_run (lift (refreshLine (e2\<lparr>l_prompt := l_prompt e\<rparr>))) (\<lambda>e3.
     process_char n c e3))))"
proof -
  have "searching e c" using assms(2) by (simp add: searching_def)
  note rs = reverse_search_ok [OF assms(1) this, of n "[]" "int (length (s_history e)) - 1"]
  have cancel: "\<exists>e2. set_current [] e1 = Some e2 \<and> ed_inv (e2\<lparr>l_pos := 0\<rparr>) \<and>
      same_env e1 (e2\<lparr>l_pos := 0\<rparr>) \<and> e_input (e2\<lparr>l_pos := 0\<rparr>) = e_input e1" if inv: "ed_inv e1" for e1
  proof -
    have ok: "ed_ok e1" "NUL \<notin> set ([] :: string)" "0 < l_buflen e1"
      using inv by (simp_all add: ed_inv_def ed_ok_def)
    obtain b where b: "set_current [] e1 = Some (e1\<lparr>l_buf := b, l_len := 0\<rparr>)"
        "length b = l_buflen e1 + 1" "b ! 0 = NUL"
      using set_current_ok [OF ok] by (metis list.size(3) min_0L)
    have "ed_ok (e1\<lparr>l_buf := b, l_len := 0, l_pos := 0\<rparr>)"
      using ok b nul_after [of 0 b 0] by (simp add: ed_ok_def)
    moreover have "hist_ok (e1\<lparr>l_buf := b, l_len := 0, l_pos := 0\<rparr>)"
      using inv by (simp add: ed_inv_def hist_ok_def)
    ultimately have "ed_inv (e1\<lparr>l_buf := b, l_len := 0, l_pos := 0\<rparr>)"
      using inv_change [OF inv] by (simp add: same_env_def)
    with b(1) show ?thesis by (simp add: same_env_def)
  qed
  have finish: "continues e (bind_run (lift (refreshLine (e2\<lparr>l_prompt := l_prompt e\<rparr>))) (\<lambda>e3.
      process_char n c' e3))" 
    if that: "ed_inv e2" "same_env e e2" "suffix (e_input e2) (e_input e)"
      "c' = NUL \<or> may_follow c' e2" for c' e2
  proof -
    have inv: "ed_inv (e2\<lparr>l_prompt := l_prompt e\<rparr>)" using that by (simp add: inv_prompt)
    obtain e3 where e3: "refreshLine (e2\<lparr>l_prompt := l_prompt e\<rparr>) = Some e3" "ed_inv e3"
        "redrawn (e2\<lparr>l_prompt := l_prompt e\<rparr>) e3"
      using inv_refresh [OF inv] by blast
    have env: "same_env e2 e3" "e_input e3 = e_input e2"
      using kept_env [OF redrawn_kept [OF e3(3)]] by (auto simp: same_env_def)
    then have "c' = NUL \<or> may_follow c' e3"
      using that(4) by (auto simp: may_follow_def pressed_env)
    then have "continues e3 (process_char n c' e3)"
      using IH e3(2) process_nul by blast
    moreover have "same_env e e3" using that(2) env(1) by (rule same_env_trans)
    ultimately show ?thesis using e3(1) that(3) env(2) by (simp add: continues_env)
  qed
  show ?thesis
    unfolding continues_def
  proof (rule safe_bind [OF rs])
    fix x
    assume "case x of (c, e') \<Rightarrow> ed_inv e' \<and> same_env e e' \<and> may_follow c e' \<and>
      suffix (e_input e') (e_input e)"
    then obtain d e1 where x: "x = (d, e1)" "ed_inv e1" "same_env e e1" "may_follow d e1"
        "suffix (e_input e1) (e_input e)" by (cases x) auto
    obtain e2 where e2: "set_current [] e1 = Some e2" "ed_inv (e2\<lparr>l_pos := 0\<rparr>)"
        "same_env e1 (e2\<lparr>l_pos := 0\<rparr>)" "e_input (e2\<lparr>l_pos := 0\<rparr>) = e_input e1"
      using cancel [OF x(2)] by blast
    have "continues e (bind_run
       (if pressed e1 KM_CANCEL_SEARCH d
        then bind_run (lift (set_current [] e1)) (\<lambda>e2. Done (NUL, e2\<lparr>l_pos := 0\<rparr>))
        else if pressed e1 KM_FINISH_SEARCH d then Done (NUL, e1)
        else Done (d, e1)) (\<lambda>(c, e2).
     bind_run (lift (refreshLine (e2\<lparr>l_prompt := l_prompt e\<rparr>))) (\<lambda>e3.
     process_char n c e3)))"
      using finish [of "e2\<lparr>l_pos := 0\<rparr>" NUL] finish [OF x(2,3,5), of NUL] finish [OF x(2,3,5), of d]
        x e2 same_env_trans [OF x(3) e2(3)]
      by simp
    then show "safe (\<lambda>s. case s of
       Continue e' \<Rightarrow> ed_inv e' \<and> same_env e e' \<and> suffix (e_input e') (e_input e)
     | Return r e' \<Rightarrow> returned e r e')
     ((\<lambda>(c, e1). bind_run
       (if pressed e1 KM_CANCEL_SEARCH c
        then bind_run (lift (set_current [] e1)) (\<lambda>e2. Done (NUL, e2\<lparr>l_pos := 0\<rparr>))
        else if pressed e1 KM_FINISH_SEARCH c then Done (NUL, e1)
        else Done (c, e1)) (\<lambda>(c, e2).
     bind_run (lift (refreshLine (e2\<lparr>l_prompt := l_prompt e\<rparr>))) (\<lambda>e3.
     process_char n c e3))) x)"
      unfolding x(1) prod.case continues_def .
  qed
qed

lemma process_char_continues:
  "ed_inv e \<Longrightarrow> may_follow c e \<Longrightarrow> continues e (process_char n c e)"
proof (induction n arbitrary: c e)
  case 0
  then show ?case by (simp add: continues_def)
next
  case (Suc n)
  note inv = Suc.prems(1)
  have del: "continues e (if l_len e > 0 then continue_with (linenoiseEditDelete e)
      else bind_run (lift (pop_history e)) (\<lambda>e1. Done (leave (-1) e1)))"
    using delete.op_continues [OF inv] pop_leave_ok [OF inv] by simp
  note facts = continues_id [OF inv] enter_ok [OF inv] leave_ok [OF inv]
    backspace.op_continues [OF inv TrueI] del swap.op_continues [OF inv TrueI]
    move_left.op_continues [OF inv TrueI] move_right.op_continues [OF inv TrueI]
    history_continues [OF inv] search_continues [OF inv _ Suc.IH]
    esc_continues [OF Suc.prems _ Suc.IH] clear_line.op_continues [OF inv TrueI]
    delete_to_end.op_continues [OF inv TrueI] move_home.op_continues [OF inv TrueI]
    move_end.op_continues [OF inv TrueI] clear_screen_continues [OF inv]
    delete_prev_word.op_continues [OF inv TrueI] insert_continues [OF inv, of c]
  show ?case
    unfolding process_char.simps(2)
    by (intro if_cases facts) assumption+
qed


section \<open>The loop\<close>

lemma handle_continues:
  assumes "ed_inv e" "may_follow c e"
  shows "continues e (handle n c e)"
  unfolding handle_def
  using clear_line.op_continues [OF assms(1) TrueI] process_char_continues [OF assms]
    complete_continues [OF assms(1)]
  by (simp split: option.split)

lemma note_time_facts:
  "note_time c e = e\<lparr>e_tick := e_tick e + 1, s_lastread := s_lastread (note_time c e),
     s_pasting := s_pasting (note_time c e)\<rparr>"
  by (simp add: note_time_def system_time_def)

lemma note_time_inv:
  assumes "ed_inv e"
  shows "ed_inv (note_time c e)" "same_env e (note_time c e)"
    "e_input (note_time c e) = e_input e" "may_follow d (note_time c e) = may_follow d e"
    "l_len (note_time c e) = l_len e"
proof -
  note n = note_time_facts [of c e]
  show env: "same_env e (note_time c e)" "e_input (note_time c e) = e_input e"
    "l_len (note_time c e) = l_len e"
    by (subst n, simp add: same_env_def)+
  have "ed_ok (note_time c e)" "hist_ok (note_time c e)"
    using assms by (subst n, simp add: ed_inv_def ed_ok_def hist_ok_def)+
  then show "ed_inv (note_time c e)" using inv_change [OF assms] env by blast
  show "may_follow d (note_time c e) = may_follow d e"
    using env by (simp add: may_follow_def pressed_env)
qed

lemma emit_inv:
  assumes "ed_inv e"
  shows "ed_inv (emit_ev v e)" "same_env e (emit_ev v e)" "may_follow c (emit_ev v e) = may_follow c e"
  using inv_redrawn [OF assms redrawn_emit] by (simp_all add: same_env_def may_follow_def
      emit_ev_def pressed_def key_def)

lemma edit_loop_safe:
  "ed_inv e \<Longrightarrow> peeked = NUL \<or> may_follow peeked e \<Longrightarrow>
   safe (\<lambda>(r, e'). returned e r e') (edit_loop n peeked e)"
proof (induction n arbitrary: peeked e)
  case (Suc n)
  obtain nread c e1 where r: "(if peeked \<noteq> NUL then (1, peeked, e) else tty_read (e_junk e) e) = (nread, c, e1)"
    by (metis prod_cases3)
  have e1: "ed_inv e1" "nread = 1 \<Longrightarrow> may_follow c e1" "nread = 1 \<or> nread \<le> 0" "same_env e e1"
    "suffix (e_input e1) (e_input e)"
  proof -
    show "ed_inv e1" "nread = 1 \<Longrightarrow> may_follow c e1" "same_env e e1" "suffix (e_input e1) (e_input e)"
      using r Suc.prems read_inv(1-4) [OF Suc.prems(1)] by (auto split: if_splits)
    show "nread = 1 \<or> nread \<le> 0"
      using r by (auto simp: tty_read_def split: if_splits list.splits option.splits)
  qed
  note nt = note_time_inv [OF e1(1), of c]
  have env: "same_env e (note_time c e1)" by (rule same_env_trans [OF e1(4) nt(2)])
  show ?case
  proof (cases "nread \<le> 0")
    case True
    have "returned (note_time c e1) (int (l_len (note_time c e1))) ((note_time c e1)\<lparr>s_active := False\<rparr>)"
      by (rule leave_returned [OF nt(1)]) simp
    then have "returned e (int (l_len (note_time c e1))) ((note_time c e1)\<lparr>s_active := False\<rparr>)"
      using returned_env [OF env] e1(5) nt(3) by simp
    with True r show ?thesis by (simp add: Let_def)
  next
    case False
    then have mf: "may_follow c (note_time c e1)" using e1(2,3) nt(4) by auto
    define e3 where "e3 = (if e_hlcancel (note_time c e1) then emit_ev HighlightCancel (note_time c e1)
        else note_time c e1)"
    have e3: "ed_inv e3" "may_follow c e3" "same_env e e3" "suffix (e_input e3) (e_input e)"
      using nt(1,3) mf emit_inv [OF nt(1)] env e1(5)
      by (auto simp: e3_def emit_ev_def intro: same_env_trans)
    have "safe (\<lambda>(r, e'). returned e r e') (bind_run (handle n c e3) (\<lambda>s. case s of
        Return ret e4 \<Rightarrow> Done (ret, e4) | Continue e4 \<Rightarrow> edit_loop n NUL e4))"
      using handle_continues [OF e3(1,2), of n] unfolding continues_def
    proof (rule safe_bind)
      fix s
      assume s: "case s of
          Continue e' \<Rightarrow> ed_inv e' \<and> same_env e3 e' \<and> suffix (e_input e') (e_input e3)
        | Return r e' \<Rightarrow> returned e3 r e'"
      show "safe (\<lambda>(r, e'). returned e r e') (case s of
          Return ret e4 \<Rightarrow> Done (ret, e4) | Continue e4 \<Rightarrow> edit_loop n NUL e4)"
      proof (cases s)
        case (Continue e4)
        with s have e4: "ed_inv e4" "same_env e e4" "suffix (e_input e4) (e_input e)"
          using e3(3,4) by (auto intro: same_env_trans suffix_order.trans)
        from Suc.IH [of e4 NUL] e4(1) have "safe (\<lambda>(r, e'). returned e4 r e') (edit_loop n NUL e4)"
          by simp
        then have "safe (\<lambda>(r, e'). returned e r e') (edit_loop n NUL e4)"
          by (rule safe_mono) (auto intro: returned_env [OF e4(2,3)])
        with Continue show ?thesis by simp
      qed (use s returned_env [OF e3(3,4)] in simp)
    qed
    with False r show ?thesis by (simp add: Let_def e3_def)
  qed
qed simp

text \<open>What \<open>linenoiseEdit\<close> needs to start.\<close>

definition edit_ready :: "ed \<Rightarrow> bool" where
  "edit_ready e \<longleftrightarrow> s_mlmode e \<and> 0 < s_hmax e \<and> 0 < e_winsize e \<and> e_winsize e < 2 ^ 16 \<and>
     complete_ok e \<and> e_junk e \<noteq> CHR ''b'' \<and> no_meta_b (key e KM_ESC) (e_input e) \<and>
     list_all (\<lambda>h. NUL \<notin> set h \<and> length h \<le> 4095) (s_history e)"

lemma add_empty_ok:
  assumes "0 < m" "list_all P h" "P []"
  shows "snd (linenoiseHistoryAdd m [] h) \<noteq> [] \<and> list_all P (snd (linenoiseHistoryAdd m [] h))"
proof -
  obtain n where m: "m = Suc n" using assms(1) by (cases m) auto
  show ?thesis using history.add_last [of n "[]" h] history.add_keeps [of n "[]" h] assms(2,3)
    unfolding m list_all_iff by auto
qed

text \<open>
  How it finishes: the state is ready for the next line, its input is a rest of the input, and
  the result is \<open>-1\<close> or the length of the line.
\<close>

definition finished :: "ed \<Rightarrow> int \<times> ed \<Rightarrow> bool" where
  "finished e p \<longleftrightarrow> ed_ok (snd p) \<and> l_buflen (snd p) = 4095 \<and> edit_ready (snd p) \<and>
     suffix (e_input (snd p)) (e_input e) \<and> s_keymap (snd p) = s_keymap e \<and>
     (fst p = -1 \<or> fst p = int (l_len (snd p)))"

lemma no_meta_b_suffix: "suffix xs ys \<Longrightarrow> no_meta_b esc ys \<Longrightarrow> no_meta_b esc xs"
proof (induction ys)
  case (Cons y ys)
  then show ?case using no_meta_b_tl by (auto simp: suffix_Cons)
qed simp

lemma returned_finished:
  assumes "edit_ready e" "returned e7 r e'" "l_buflen e7 = 4095"
    "same_env e (e7\<lparr>l_buflen := l_buflen e\<rparr>)" "suffix (e_input e7) (e_input e)"
  shows "finished e (r, e')"
proof -
  have env: "s_keymap e' = s_keymap e" "e_junk e' = e_junk e" "e_complete e' = e_complete e"
    "e_winsize e' = e_winsize e" "l_buflen e' = 4095" "s_hmax e' = s_hmax e"
    using assms(2-4) by (simp_all add: returned_def same_env_def)
  have in': "suffix (e_input e') (e_input e)"
    using assms(2,5) by (auto simp: returned_def intro: suffix_order.trans)
  have "edit_ready e'"
    using assms(1,2) env no_meta_b_suffix [OF in'] unfolding edit_ready_def
    by (simp add: returned_def ed_ok_def complete_ok_def key_def)
  with assms(2) env in' show ?thesis by (simp add: finished_def returned_def)
qed

text \<open>The state in which the loop starts.\<close>

lemma linenoiseEdit_start:
  assumes "edit_ready e" "length buf = 4096" "no_meta_b (key e KM_ESC) (Some peeked # e_input e)"
  obtains (fails) e4 where "\<And>n. linenoiseEdit n buf prompt spaces peeked e = Done (-1, e4)"
      "finished e (-1, e4)" "\<not> e_write_ok e"
  | (runs) e7 where "\<And>n. linenoiseEdit n buf prompt spaces peeked e = edit_loop n peeked e7"
      "ed_inv e7" "may_follow peeked e7" "l_buflen e7 = 4095" "same_env e (e7\<lparr>l_buflen := l_buflen e\<rparr>)"
      "e_input e7 = e_input e" "spaces = 0 \<Longrightarrow> l_len e7 = 0" "e_write_ok e7 = e_write_ok e"
proof -
  define h where "h = snd (linenoiseHistoryAdd (s_hmax e) [] (s_history e))"
  have h: "h \<noteq> []" "list_all (\<lambda>h. NUL \<notin> set h \<and> length h \<le> 4095) h"
    using assms(1) add_empty_ok unfolding h_def edit_ready_def by auto
  define e3 where "e3 = e\<lparr>l_prompt := prompt, l_plen := length prompt, l_oldpos := 0, l_pos := 0,
    l_len := 0, l_cols := e_winsize e, l_maxrows := 0, l_hindex := 0, l_buf := buf[0 := NUL],
    l_buflen := 4095, s_history := h\<rparr>"
  have "NUL \<in> set (buf[0 := NUL])" using assms(2) by (intro set_update_memI) simp
  then have inv3: "ed_inv e3"
    using assms h by (simp add: e3_def ed_inv_def edit_ready_def ed_ok_def hist_ok_def complete_ok_def key_def)
  have nonempty: "buf \<noteq> []" using assms(2) by auto
  have wraps: "nat (int (e_winsize e) mod 2 ^ 64) = e_winsize e" "0 < e_winsize e"
    using assms(1) by (simp_all add: edit_ready_def nat_mod_as_int mod_pos_pos_trivial)
  obtain ok e4 where w: "tty_write prompt e3 = (ok, e4)" by (cases "tty_write prompt e3")
  have r4: "redrawn e3 e4" by (rule redrawn_write [OF w])
  note inv4 = inv_redrawn [OF inv3 r4]
  have start: "linenoiseEdit n buf prompt spaces peeked e =
      (if \<not> ok then Done (-1, e4)
       else bind_run (lift (insert_all (replicate spaces SP) e4)) (\<lambda>e5.
              bind_run (lift (refreshLine e5)) (\<lambda>e6.
              edit_loop n peeked (e6\<lparr>s_active := True\<rparr>))))" for n
    using assms(2) nonempty wraps w unfolding linenoiseEdit_def Let_def getColumns_def
    by (simp add: wr_def e3_def h_def)
  obtain e5 where e5: "insert_all (replicate spaces SP) e4 = Some e5" "ed_inv e5" "kept e4 e5"
    using insert_all_ok [OF inv4] by blast
  obtain e6 where e6: "refreshLine e5 = Some e6" "ed_inv e6" "redrawn e5 e6"
    using inv_refresh [OF e5(2)] by blast
  let ?e7 = "e6\<lparr>s_active := True\<rparr>"
  have inv7: "ed_inv ?e7"
    using e6(2) by (simp add: ed_inv_def ed_ok_def hist_ok_def complete_ok_def key_def)
  have k: "kept e3 e6" by (rule kept_trans [OF redrawn_kept [OF r4]
        kept_trans [OF e5(3) redrawn_kept [OF e6(3)]]])
  have in7: "e_input ?e7 = e_input e" "key ?e7 KM_ESC = key e KM_ESC" "l_buflen ?e7 = 4095"
    using kept_fields(1,6,7) [OF k] by (simp_all add: e3_def key_def)
  have env7: "same_env e (?e7\<lparr>l_buflen := l_buflen e\<rparr>)"
    using kept_env [OF k] by (simp add: same_env_def e3_def)
  have write7: "e_write_ok ?e7 = e_write_ok e" using kept_fields(16) [OF k] by (simp add: e3_def)
  have start7: "l_len ?e7 = 0" if "spaces = 0"
    using that e5(1) redrawn_text [OF r4] redrawn_text [OF e6(3)] by (simp add: e3_def)
  have mf: "may_follow peeked ?e7"
    using in7 assms(3) by (auto simp: may_follow_def pressed_def)
  show ?thesis
  proof (cases ok)
    case True
    then show ?thesis using runs [of ?e7] start e5(1) e6(1) inv7 mf in7 env7 start7 write7 by simp
  next
    case False
    have "same_env e (e4\<lparr>l_buflen := l_buflen e\<rparr>)" "l_buflen e4 = 4095" "e_input e4 = e_input e"
      using kept_env [OF redrawn_kept [OF r4]] by (simp_all add: same_env_def e3_def)
    then have "finished e (-1, e4)"
      using returned_finished [OF assms(1) inv_returned [OF inv4]] by simp
    moreover have "\<not> e_write_ok e" using w False by (simp add: tty_write_def e3_def split: if_splits)
    ultimately show ?thesis using fails [of e4] False start by simp
  qed
qed

lemma linenoiseEdit_finished:
  assumes "edit_ready e" "length buf = 4096" "no_meta_b (key e KM_ESC) (Some peeked # e_input e)"
  shows "safe (finished e) (linenoiseEdit n buf prompt spaces peeked e)"
proof (rule linenoiseEdit_start [OF assms, of prompt spaces])
  fix e7
  assume r: "\<And>n. linenoiseEdit n buf prompt spaces peeked e = edit_loop n peeked e7" "ed_inv e7"
    "may_follow peeked e7" "l_buflen e7 = 4095" "same_env e (e7\<lparr>l_buflen := l_buflen e\<rparr>)"
    "e_input e7 = e_input e"
  have "safe (\<lambda>(r, e'). returned e7 r e') (edit_loop n peeked e7)"
    using edit_loop_safe [OF r(2), of peeked n] r(3) by simp
  then have "safe (finished e) (edit_loop n peeked e7)"
    by (rule safe_mono) (use returned_finished [OF assms(1) _ r(4,5)] r(6) in auto)
  then show ?thesis unfolding r(1) .
qed simp

section \<open>Termination\<close>

text \<open>
  Without the search key in the input every character handled is a character read, so fuel for
  the length of the input is enough. The search itself spins when the input ends inside it.
\<close>

definition no_search :: "ed \<Rightarrow> bool" where
  "no_search e \<longleftrightarrow> (\<forall>c. Some c \<in> set (e_input e) \<longrightarrow> \<not> pressed e KM_REVERSE_I_SEARCH c) \<and>
     \<not> pressed e KM_REVERSE_I_SEARCH (e_junk e) \<and> \<not> pressed e KM_ESC (e_junk e)"

lemma no_search_suffix:
  "no_search e \<Longrightarrow> same_env e e' \<Longrightarrow> suffix (e_input e') (e_input e) \<Longrightarrow> no_search e'"
proof -
  assume e: "no_search e" "same_env e e'" "suffix (e_input e') (e_input e)"
  have "set (e_input e') \<subseteq> set (e_input e)" using e(3) by (rule set_mono_suffix)
  moreover have "e_junk e' = e_junk e" using e(2) by (simp add: same_env_def)
  ultimately show ?thesis using e(1) unfolding no_search_def pressed_env [OF e(2)] by auto
qed

lemma continue_with_ends [simp]: "continue_with m \<noteq> Spinning"
  by (cases m) (simp_all add: continue_with_def)

lemma lift_ends [simp]: "lift m \<noteq> Spinning"
  by (cases m) simp_all

lemma bind_ends: "m \<noteq> Spinning \<Longrightarrow> (\<And>x. m = Done x \<Longrightarrow> f x \<noteq> Spinning) \<Longrightarrow> bind_run m f \<noteq> Spinning"
  by (cases m) auto

lemma esc_ends: "esc_bracket s e \<noteq> Spinning" "esc_o s e \<noteq> Spinning"
  by (simp_all add: esc_bracket_def esc_o_def split: prod.split)

lemma if_ends: "(b \<Longrightarrow> x \<noteq> Spinning) \<Longrightarrow> (\<not> b \<Longrightarrow> y \<noteq> Spinning) \<Longrightarrow> (if b then x else y) \<noteq> Spinning"
  by simp

lemma leaf_ends:
  "bind_run (lift (pop_history e)) (\<lambda>e1.
     bind_run (lift (if s_mlmode e1 then linenoiseEditMoveEnd e1 else Some e1)) (\<lambda>e2.
     Done (leave (int (l_len e2)) e2))) \<noteq> Spinning"
  "bind_run (lift (pop_history e)) (\<lambda>e1. Done (leave (-1) e1)) \<noteq> Spinning"
  "bind_run (lift (linenoiseEditInsert c e)) (\<lambda>(ret, e1).
     Done (if ret \<noteq> 0 then leave (-1) e1 else Continue e1)) \<noteq> Spinning"
  by (rule bind_ends; simp add: bind_ends split: prod.split)+

lemma process_char_ends:
  assumes "\<not> pressed e KM_REVERSE_I_SEARCH c"
    and "pressed e KM_ESC c \<Longrightarrow> (let (nread, s0, e1) = tty_read (e_junk e) e in
     if nread = -1 then Done (Continue e1)
     else if s0 \<noteq> CHR ''['' \<and> s0 \<noteq> CHR ''O'' then
       (if s0 = CHR ''f'' then continue_with (linenoiseEditMoveWordEnd e1)
        else if s0 = CHR ''b'' then continue_with (linenoiseEditMoveWordStart e1)
        else if s0 = CHR ''d'' then continue_with (linenoiseEditDeleteNextWord e1)
        else process_char n s0 e1)
     else
       (let (nread, s1, e2) = tty_read (e_junk e1) e1 in
        if nread = -1 then Done (Continue e2)
        else if s0 = CHR ''['' then esc_bracket s1 e2
        else esc_o s1 e2)) \<noteq> Spinning"
  shows "process_char (Suc n) c e \<noteq> Spinning"
  unfolding process_char.simps(2)
  by (intro if_ends continue_with_ends leaf_ends assms(2)) (use assms(1) in simp_all)

lemma process_char_returns:
  "length (e_input e) + 1 < n \<Longrightarrow> no_search e \<Longrightarrow> \<not> pressed e KM_REVERSE_I_SEARCH c \<Longrightarrow>
   process_char n c e \<noteq> Spinning"
proof (induction n arbitrary: c e)
  case (Suc n)
  obtain nread s0 e1 where r: "tty_read (e_junk e) e = (nread, s0, e1)" by (cases "tty_read (e_junk e) e")
  have env: "same_env e e1" "suffix (e_input e1) (e_input e)"
    using r by (auto simp: tty_read_def same_env_def suffix_Cons split: list.splits option.splits)
  note ns = no_search_suffix [OF Suc.prems(2) env]
  have "process_char n s0 e1 \<noteq> Spinning" if "nread \<noteq> -1"
  proof (cases "nread = 1")
    case True
    with r obtain xs where xs: "e_input e = Some s0 # xs" "e_input e1 = xs"
      by (auto simp: tty_read_def split: list.splits option.splits)
    then have "\<not> pressed e1 KM_REVERSE_I_SEARCH s0"
      using Suc.prems(2) pressed_env [OF env(1)] by (simp add: no_search_def)
    with Suc.IH [OF _ ns] Suc.prems(1) xs show ?thesis by simp
  next
    case False
    with r that have s0: "s0 = e_junk e" "e1 = e"
      by (auto simp: tty_read_def split: list.splits option.splits)
    obtain m where "n = Suc m" using Suc.prems(1) by (cases n) auto
    moreover have "\<not> pressed e1 KM_REVERSE_I_SEARCH s0" "\<not> pressed e1 KM_ESC s0"
      using s0 Suc.prems(2) by (simp_all add: no_search_def)
    ultimately show ?thesis by (simp only:) (rule process_char_ends, simp_all)
  qed
  then show ?case
    using Suc.prems(3) r esc_ends by (intro process_char_ends) (auto split: prod.split)
qed simp

lemma handle_returns:
  assumes "length (e_input e) + 1 < n" "no_search e" "\<not> pressed e KM_REVERSE_I_SEARCH c"
  shows "handle n c e \<noteq> Spinning"
  using process_char_returns [OF assms] by (simp add: handle_def split: option.split)

lemma edit_loop_returns:
  "length (e_input e) + (if peeked = NUL then 1 else 2) < n \<Longrightarrow> ed_inv e \<Longrightarrow> no_search e \<Longrightarrow>
   peeked = NUL \<or> may_follow peeked e \<and> \<not> pressed e KM_REVERSE_I_SEARCH peeked \<Longrightarrow>
   edit_loop n peeked e \<noteq> Spinning"
proof (induction n arbitrary: peeked e)
  case (Suc n)
  obtain nread c e1 where r: "(if peeked \<noteq> NUL then (1, peeked, e) else tty_read (e_junk e) e) = (nread, c, e1)"
    by (metis prod_cases3)
  show ?case
  proof (cases "nread = 1")
    case False
    then have "nread \<le> 0"
      using r by (auto simp: tty_read_def split: if_splits list.splits option.splits)
    with r show ?thesis by (simp add: Let_def)
  next
    case True
    have e1: "ed_inv e1" "may_follow c e1" "same_env e e1" "suffix (e_input e1) (e_input e)"
      using r True Suc.prems(2,4) read_inv(1-4) [OF Suc.prems(2)] by (auto split: if_splits)
    have len: "length (e_input e1) + 1 < n"
      using r True Suc.prems(1) by (auto simp: tty_read_def split: if_splits list.splits option.splits)
    have np: "\<not> pressed e1 KM_REVERSE_I_SEARCH c"
    proof (cases "peeked = NUL")
      case False
      with r Suc.prems(4) show ?thesis by simp
    next
      case True
      with r \<open>nread = 1\<close> have "Some c \<in> set (e_input e)"
        by (auto simp: tty_read_def split: list.splits option.splits)
      with Suc.prems(3) show ?thesis unfolding pressed_env [OF e1(3)] by (simp add: no_search_def)
    qed
    define e3 where "e3 = (if e_hlcancel (note_time c e1) then emit_ev HighlightCancel (note_time c e1)
        else note_time c e1)"
    note nt = note_time_inv [OF e1(1), of c]
    have in3: "e_input e3 = e_input e1" using nt(3) by (simp add: e3_def emit_ev_def)
    have e3: "ed_inv e3" "may_follow c e3" "same_env e1 e3"
      using nt e1(2) emit_inv [OF nt(1)] by (auto simp: e3_def intro: same_env_trans)
    have ns3: "no_search e3"
      using no_search_suffix [OF Suc.prems(3) same_env_trans [OF e1(3) e3(3)]] e1(4) in3 by simp
    have "handle n c e3 \<noteq> Spinning"
      using len in3 np pressed_env [OF e3(3)] by (intro handle_returns ns3) simp_all
    moreover have "(case s of Return ret e4 \<Rightarrow> Done (ret, e4) | Continue e4 \<Rightarrow> edit_loop n NUL e4) \<noteq> Spinning"
      if s: "handle n c e3 = Done s" for s
    proof (cases s)
      case (Continue e4)
      then have e4: "ed_inv e4" "same_env e3 e4" "suffix (e_input e4) (e_input e3)"
        using handle_continues [OF e3(1,2), of n] s by (simp_all add: continues_def)
      have "length (e_input e4) + 1 < n"
        using suffix_length_le [OF e4(3)] len in3 by simp
      with Suc.IH [of e4 NUL] e4(1) no_search_suffix [OF ns3 e4(2,3)] Continue show ?thesis by simp
    qed simp
    ultimately have "bind_run (handle n c e3) (\<lambda>s. case s of
        Return ret e4 \<Rightarrow> Done (ret, e4) | Continue e4 \<Rightarrow> edit_loop n NUL e4) \<noteq> Spinning"
      by (rule bind_ends)
    with True r show ?thesis by (simp add: Let_def e3_def)
  qed
qed simp

lemma linenoiseEdit_ends:
  assumes "edit_ready e" "length buf = 4096" "no_meta_b (key e KM_ESC) (Some peeked # e_input e)"
    "no_search e" "\<not> pressed e KM_REVERSE_I_SEARCH peeked" "length (e_input e) + 2 < n"
  shows "linenoiseEdit n buf prompt spaces peeked e \<noteq> Spinning"
proof (rule linenoiseEdit_start [OF assms(1-3), of prompt spaces])
  fix e7
  assume runs: "\<And>n. linenoiseEdit n buf prompt spaces peeked e = edit_loop n peeked e7" "ed_inv e7"
    "may_follow peeked e7" "l_buflen e7 = 4095" "same_env e (e7\<lparr>l_buflen := l_buflen e\<rparr>)"
    "e_input e7 = e_input e"
  let ?f = "e7\<lparr>l_buflen := l_buflen e\<rparr>"
  have "e_input ?f = e_input e" using runs(6) by simp
  then have "no_search ?f" using no_search_suffix [OF assms(4) runs(5)] by simp
  then have "no_search e7" by (simp add: no_search_def pressed_def key_def)
  moreover have "\<not> pressed e7 KM_REVERSE_I_SEARCH peeked"
    using assms(5) pressed_env [OF runs(5)] by (simp add: pressed_def key_def)
  ultimately show ?thesis
    using edit_loop_returns [of e7 peeked n] runs assms(6) by simp
qed simp

text \<open>The search at the end of the input: the loop never ends.\<close>

lemma refreshMultiLine_redrawn:
  assumes "refreshMultiLine e = Some e1"
  shows "redrawn e e1"
proof -
  have "refreshMultiLine e = None" if "l_cols e = 0"
    unfolding refreshMultiLine_def if_P [OF that] ..
  then have "0 < l_cols e" using assms by (cases "l_cols e = 0") simp_all
  moreover have "l_len e \<le> length (l_buf e)"
  proof (rule ccontr)
    assume "\<not> l_len e \<le> length (l_buf e)"
    then have blk: "block_c (l_buf e) 0 (l_len e) = None" by (simp add: block_c_def)
    have "refreshMultiLine e = None"
      unfolding refreshMultiLine_def Let_def blk bind.bind_lzero by simp
    with assms show False by simp
  qed
  ultimately show ?thesis using refreshMultiLine_ok [of e] assms by auto
qed

lemma reverse_search_spins:
  "s_mlmode e \<Longrightarrow> e_input e = [] \<Longrightarrow> reverse_search n rbuf sp c e \<noteq> Done r"
proof (induction n arbitrary: e)
  case (Suc n)
  show ?case
  proof (cases "refreshLine (e\<lparr>l_prompt := rprompt rbuf\<rparr>)")
    case (Some e1)
    then have "redrawn (e\<lparr>l_prompt := rprompt rbuf\<rparr>) e1"
      using Suc.prems(1) by (simp add: refreshLine_def refreshMultiLine_redrawn)
    then have "s_mlmode e1" "e_input e1 = []"
      using Suc.prems by (simp_all add: redrawn_text)
    with Suc.IH [of e1] Some show ?thesis by (simp add: tty_read_def)
  qed simp
qed simp

end
