(* ===== verification/Line_Props.thy ===== *)
theory Line_Props
  imports Line_Run
begin

text \<open>
  The properties of the line editor. The abstract editor is a pair of strings, the text before
  and after the cursor, with a capacity; \<open>spec_cmds\<close> says what each command does to it, and the
  buffer operations refine it.
\<close>

section \<open>The abstract editor\<close>

datatype cmd =
    Ins char | MoveLeft | MoveRight | MoveHome | MoveEnd | MoveWordLeft | MoveWordRight
  | DelRight | DelLeft | DelWordLeft | DelWordRight | SwapChars | ClearLine | DelToEnd

fun run_cmd :: "cmd \<Rightarrow> ed \<Rightarrow> ed option" where
  "run_cmd (Ins c) e = map_option snd (linenoiseEditInsert c e)"
| "run_cmd MoveLeft e = linenoiseEditMoveLeft e"
| "run_cmd MoveRight e = linenoiseEditMoveRight e"
| "run_cmd MoveHome e = linenoiseEditMoveHome e"
| "run_cmd MoveEnd e = linenoiseEditMoveEnd e"
| "run_cmd MoveWordLeft e = linenoiseEditMoveWordStart e"
| "run_cmd MoveWordRight e = linenoiseEditMoveWordEnd e"
| "run_cmd DelRight e = linenoiseEditDelete e"
| "run_cmd DelLeft e = linenoiseEditBackspace e"
| "run_cmd DelWordLeft e = linenoiseEditDeletePrevWord e"
| "run_cmd DelWordRight e = linenoiseEditDeleteNextWord e"
| "run_cmd SwapChars e = swap_chars e"
| "run_cmd ClearLine e = clear_line e"
| "run_cmd DelToEnd e = delete_to_end e"

text \<open>\<open>None\<close>: moving a word to the left from the start of a non-empty line.\<close>

fun spec_cmd :: "nat \<Rightarrow> cmd \<Rightarrow> string \<times> string \<Rightarrow> (string \<times> string) option" where
  "spec_cmd n (Ins c) (l, r) = Some (if length l + length r < n then (l @ [c], r) else (l, r))"
| "spec_cmd n MoveLeft s = Some (left1 s)"
| "spec_cmd n MoveRight s = Some (right1 s)"
| "spec_cmd n MoveHome (l, r) = Some ([], l @ r)"
| "spec_cmd n MoveEnd (l, r) = Some (l @ r, [])"
| "spec_cmd n MoveWordLeft (l, r) =
     (if l = [] \<and> r \<noteq> [] then None else Some (cut_word l, drop (length (cut_word l)) l @ r))"
| "spec_cmd n MoveWordRight (l, r) = Some (l @ word_ahead r, cut_word_ahead r)"
| "spec_cmd n DelRight (l, r) = Some (l, tl r)"
| "spec_cmd n DelLeft (l, r) = Some (butlast l, r)"
| "spec_cmd n DelWordLeft (l, r) = Some (cut_word l, r)"
| "spec_cmd n DelWordRight (l, r) = Some (l, cut_word_ahead r)"
| "spec_cmd n SwapChars s = Some (swap s)"
| "spec_cmd n ClearLine s = Some ([], [])"
| "spec_cmd n DelToEnd (l, r) = Some (l, [])"

fun run_cmds :: "cmd list \<Rightarrow> ed \<Rightarrow> ed option" where
  "run_cmds [] e = Some e"
| "run_cmds (c # cs) e = Option.bind (run_cmd c e) (run_cmds cs)"

fun spec_cmds :: "nat \<Rightarrow> cmd list \<Rightarrow> string \<times> string \<Rightarrow> (string \<times> string) option" where
  "spec_cmds n [] s = Some s"
| "spec_cmds n (c # cs) s = Option.bind (spec_cmd n c s) (spec_cmds n cs)"

lemma sides_lengths: "ed_ok e \<Longrightarrow> length (fst (sides e)) = l_pos e \<and>
  length (fst (sides e)) + length (snd (sides e)) = l_len e"
  by (simp add: sides_def line_def ed_ok_def)

lemma run_cmd_spec:
  assumes "ed_ok e"
  shows "case spec_cmd (l_buflen e) c (sides e) of
      None \<Rightarrow> run_cmd c e = None
    | Some s \<Rightarrow> \<exists>e'. run_cmd c e = Some e' \<and> edited e s e'"
proof -
  obtain l r where s: "sides e = (l, r)" by (cases "sides e")
  have len: "l_pos e = length l" "l_len e = length l + length r"
    using sides_lengths [OF assms] s by simp_all
  show ?thesis
  proof (cases c)
    case (Ins x)
    then show ?thesis
      using insert.op_edits [OF assms, of x] insert_full [OF assms, of x] edited_same [OF assms s] s len
      by (cases "l_len e < l_buflen e") auto
  next
    case MoveWordLeft
    show ?thesis
    proof (cases "l = []")
      case True
      then show ?thesis
        using MoveWordLeft s len edited_same [OF assms s]
        by (cases r) (simp_all add: linenoiseEditMoveWordStart_def cut_word_def)
    next
      case False
      then show ?thesis
        using MoveWordLeft s len word_start.op_edits [OF assms] by (simp add: word_left_def)
    qed
  qed (use s move_left.op_edits [OF assms TrueI] move_right.op_edits [OF assms TrueI]
      move_home.op_edits [OF assms TrueI] move_end.op_edits [OF assms TrueI]
      word_end.op_edits [OF assms TrueI] delete.op_edits [OF assms TrueI]
      backspace.op_edits [OF assms TrueI] delete_prev_word.op_edits [OF assms TrueI]
      delete_next_word.op_edits [OF assms TrueI] swap.op_edits [OF assms TrueI]
      clear_line.op_edits [OF assms TrueI] delete_to_end.op_edits [OF assms TrueI] in
      \<open>simp_all add: word_right_def\<close>)
qed

definition sample_ed :: "char option list \<Rightarrow> ed" where
  "sample_ed inp = \<lparr>l_buf = replicate 9 NUL, l_buflen = 8, l_prompt = ''=> '', l_plen = 3, l_pos = 0,
     l_oldpos = 0, l_len = 0, l_cols = 80, l_maxrows = 0, l_hindex = 0, s_mlmode = True,
     s_history = [''(+ 1 2)''], s_hmax = 100, s_keymap = keymap_default, s_lastread = 0,
     s_pasting = False, s_ansi = [], s_active = False, e_input = inp, e_winsize = 80,
     e_clock = (\<lambda>n. n), e_tick = 0, e_write_ok = True, e_junk = NUL, e_complete = None,
     e_hl = False, e_hlcancel = False, e_trace = []\<rparr>"

lemma sample_ed_ok: "ed_ok (sample_ed inp)" "sides (sample_ed inp) = ([], [])"
  by (simp_all add: sample_ed_def ed_ok_def sides_def line_def)

text \<open>
  C11. The editing operations on the buffer implement the editor on a pair of strings: any
  sequence of commands on a well-formed state gives the state whose two sides the
  specification gives, and fails (an access outside the buffer) exactly where the
  specification has no result.
\<close>

theorem line_editor_refines:
  assumes "ed_ok e"
  shows "map_option sides (run_cmds cs e) = spec_cmds (l_buflen e) cs (sides e)"
  using assms
proof (induction cs arbitrary: e)
  case (Cons c cs)
  show ?case
  proof (cases "spec_cmd (l_buflen e) c (sides e)")
    case None
    with run_cmd_spec [OF Cons.prems, of c] show ?thesis by simp
  next
    case (Some s)
    with run_cmd_spec [OF Cons.prems, of c] obtain e' where
      e': "run_cmd c e = Some e'" "edited e s e'" by auto
    with Cons.IH [of e'] kept_fields(1) [of e e'] Some show ?thesis by (simp add: edited_def)
  qed
qed simp

lemma line_editor_refines_witness:
  "map_option sides (run_cmds [Ins CHR ''a'', Ins CHR '' '', Ins CHR ''b'', DelWordLeft, MoveLeft, SwapChars]
     (sample_ed [])) = Some ('' '', ''a'')"
  unfolding line_editor_refines [OF sample_ed_ok(1)] sample_ed_ok(2)
  by (simp add: sample_ed_def cut_word_def)

text \<open>
  C12. \<open>linenoiseEdit\<close> never leaves its arrays, whatever bytes the terminal sends, in a
  multi-line terminal with entries in the history that fit the buffer and completions that
  fit the screen, provided the escape key is not followed by \<open>b\<close>. It returns \<open>-1\<close> or the
  length of the line, at most 4095, which stands in the array it was given.
\<close>

theorem linenoiseEdit_safe:
  assumes "edit_ready e" "length buf = 4096" "no_meta_b (key e KM_ESC) (Some peeked # e_input e)"
  shows "linenoiseEdit n buf prompt spaces peeked e \<noteq> Crash \<and>
    (\<forall>ret e'. linenoiseEdit n buf prompt spaces peeked e = Done (ret, e') \<longrightarrow>
      (ret = -1 \<or> ret = int (l_len e')) \<and> l_len e' \<le> 4095 \<and> length (l_buf e') = 4096)"
  using linenoiseEdit_finished [OF assms, of n prompt spaces]
  by (auto simp: finished_def ed_ok_def)

lemma sample_ready:
  assumes "no_meta_b 27 inp"
  shows "edit_ready (sample_ed inp)"
  using assms by (simp add: edit_ready_def sample_ed_def complete_ok_def key_def keymap_default_def)

lemma linenoiseEdit_safe_witness:
  "linenoiseEdit 9 (replicate 4096 NUL) ''=> '' 0 NUL (sample_ed [Some CHR ''a'', Some CHR 0x0D]) \<noteq> Crash"
proof -
  have "schar NUL = 0" "schar CHR ''a'' = 97" by (simp_all add: schar_def)
  then have "no_meta_b (key (sample_ed [Some CHR ''a'', Some CHR 0x0D]) KM_ESC)
      (Some NUL # e_input (sample_ed [Some CHR ''a'', Some CHR 0x0D]))"
    by (simp add: sample_ed_def key_def keymap_default_def)
  then show ?thesis
    using linenoiseEdit_safe [of "sample_ed [Some CHR ''a'', Some CHR 0x0D]" "replicate 4096 NUL"
        NUL 9 "''=> ''" 0] sample_ready [of "[Some CHR ''a'', Some CHR 0x0D]"]
    by (simp add: schar_def)
qed


text \<open>
  C13. In a multi-line terminal with history entries and completions that fit, where neither the
  search key nor the escape key followed by \<open>b\<close> is in the input, \<open>linenoiseEdit\<close> returns: fuel for
  the bytes of the input and three more is enough.
\<close>

theorem linenoiseEdit_returns:
  assumes "edit_ready e" "length buf = 4096" "no_meta_b (key e KM_ESC) (Some peeked # e_input e)"
    "no_search e" "\<not> pressed e KM_REVERSE_I_SEARCH peeked"
  shows "\<exists>ret e'. linenoiseEdit (length (e_input e) + 3) buf prompt spaces peeked e = Done (ret, e')"
proof -
  have "linenoiseEdit (length (e_input e) + 3) buf prompt spaces peeked e \<noteq> Crash"
    using linenoiseEdit_finished [OF assms(1-3), of "length (e_input e) + 3" prompt spaces] by auto
  moreover have "linenoiseEdit (length (e_input e) + 3) buf prompt spaces peeked e \<noteq> Spinning"
    by (rule linenoiseEdit_ends [OF assms]) simp
  ultimately show ?thesis by (cases "linenoiseEdit (length (e_input e) + 3) buf prompt spaces peeked e") auto
qed

lemma linenoiseEdit_returns_witness:
  "\<exists>ret e'. linenoiseEdit 5 (replicate 4096 NUL) ''=> '' 0 NUL
     (sample_ed [Some CHR ''a'', Some CHR 0x0D]) = Done (ret, e')"
proof -
  let ?e = "sample_ed [Some CHR ''a'', Some CHR 0x0D]"
  have k: "key ?e KM_ESC = 27" "key ?e KM_REVERSE_I_SEARCH = 18"
    by (simp_all add: sample_ed_def key_def keymap_default_def)
  have i: "e_input ?e = [Some CHR ''a'', Some CHR 0x0D]" "e_junk ?e = NUL"
    by (simp_all add: sample_ed_def)
  have "edit_ready ?e" by (rule sample_ready) (simp add: schar_def)
  moreover have "no_search ?e" using k i by (auto simp: no_search_def pressed_def schar_def)
  ultimately show ?thesis
    using linenoiseEdit_returns [of ?e "replicate 4096 NUL" NUL "''=> ''" 0] k i
    by (simp add: pressed_def schar_def)
qed

text \<open>
  C14. The incremental search does not notice the end of its input: \<open>read\<close> returning 0 sends
  it round its loop again, whatever the fuel.
\<close>

theorem reverse_search_ignores_eof:
  assumes "s_mlmode e" "e_input e = []"
  shows "reverse_search n rbuf sp c e \<noteq> Done r"
  by (rule reverse_search_spins [OF assms])

lemma reverse_search_ignores_eof_witness:
  "\<forall>r. reverse_search 1000 [] 0 (CHR 0x12) (sample_ed []) \<noteq> Done r"
  by (intro allI reverse_search_ignores_eof) (simp_all add: sample_ed_def)

text \<open>
  Deleting the next word leaves the buffer without the NUL after the line, so that the C
  string that the history, the completion and the highlighting read is longer than the line.
\<close>

lemma delete_next_word_stale:
  assumes "ed_ok e" "word_ahead (snd (sides e)) \<noteq> []" "NUL \<notin> set (line e)"
  shows "\<exists>e' s. linenoiseEditDeleteNextWord e = Some e' \<and> cstr_of (l_buf e') = Some s \<and>
    length (line e') < length s"
proof -
  obtain e' where e': "linenoiseEditDeleteNextWord e = Some e'"
      "edited e (case sides e of (l, r) \<Rightarrow> (l, cut_word_ahead r)) e'"
    using delete_next_word.op_edits [OF assms(1) TrueI] by blast
  then have ok: "ed_ok e'" by (simp add: edited_def)
  obtain s where s: "cstr_of (l_buf e') = Some s" "NUL \<notin> set s" by (rule cstr_of_buf [OF ok])
  obtain n where n: "strlen_c (l_buf e') = Some n" "s = take n (l_buf e')"
    using s(1) by (auto simp: cstr_of_def)
  note sn = strlen_c_Some [OF n(1)]
  have "sides e' = (fst (sides e), cut_word_ahead (snd (sides e)))"
    using e'(2) by (simp add: edited_def case_prod_beta)
  then have line': "line e' = fst (sides e) @ cut_word_ahead (snd (sides e))"
    using ok by (simp add: sides_def line_def ed_ok_def)
      (metis append_take_drop_id min.absorb1 take_take)
  have "set (line e') \<subseteq> set (line e)"
  proof -
    have "set (cut_word_ahead (snd (sides e))) \<subseteq> set (snd (sides e))"
      unfolding cut_word_ahead_def by (meson set_dropWhileD subsetI)
    moreover have "line e = fst (sides e) @ snd (sides e)"
      using assms(1) by (simp add: sides_def line_def ed_ok_def)
        (metis append_take_drop_id min.absorb1 take_take)
    ultimately show ?thesis unfolding line' by auto
  qed
  then have "NUL \<notin> set (line e')" using assms(3) by blast
  then have nul: "l_buf e' ! i \<noteq> NUL" if "i < l_len e'" for i
    using that ok by (auto simp: line_def ed_ok_def in_set_conv_nth)
  have "\<not> terminated e'" by (rule delete_next_word_tail [OF assms e'(1)])
  then have "l_len e' < n" using sn nul [of n] by (metis linorder_neqE_nat terminated_def)
  then show ?thesis using e'(1) s(1) n(2) sn ok by (auto simp: line_def ed_ok_def)
qed

text \<open>
  C16. The incremental search puts the cursor where the match is in the history entry, but only
  the first \<open>buflen - 1\<close> bytes of the entry are copied. Where the match lies beyond them the
  cursor is outside the line, and the next character typed is written outside the buffer.
\<close>

theorem search_moves_cursor_outside:
  assumes "ed_ok e" "0 \<le> sp" "sp < int (length (s_history e))"
    "s_history e ! nat sp = h" "NUL \<notin> set h" "strstr h rbuf = Some k" "l_buflen e \<le> k" "k < 2 ^ 32"
  shows "\<exists>e'. search_history rbuf False d sp p e = Some (Some k, sp, e') \<and> l_len e' < l_pos e' \<and>
    linenoiseEditInsert c e' = None"
proof -
  have bl: "0 < l_buflen e" using assms(1) by (simp add: ed_ok_def)
  obtain cur where cur: "cstr_of (l_buf e) = Some cur" by (rule cstr_of_buf [OF assms(1)])
  have "k \<le> length h" using strstr_bound [OF assms(6)] by simp
  then have n: "min (length h) (l_buflen e - 1) = l_buflen e - 1" using assms(7) by simp
  obtain b where b: "set_current h e = Some (e\<lparr>l_buf := b, l_len := l_buflen e - 1\<rparr>)"
      "length b = l_buflen e + 1"
    using set_current_ok [OF assms(1,5) bl] unfolding n by blast
  define e1 where "e1 = e\<lparr>l_buf := b, l_len := l_buflen e - 1, l_pos := k,
      l_hindex := int (length (s_history e)) - sp - 1\<rparr>"
  have "search_history rbuf False d sp p e = Some (Some k, sp, e1)"
    using assms(2-4,6) cur b(1) by (simp add: search_history.simps [of rbuf _ d sp] e1_def)
  moreover have "l_len e1 < l_pos e1" using assms(7) bl by (simp add: e1_def)
  moreover have k: "\<not> k \<le> l_buflen e - 1" "l_buflen e - 1 \<noteq> k" using assms(7) bl by simp_all
  then have "memmove_c b (k + 1) k (sz_sub (l_buflen e - 1) k) = None"
    using assms(7,8) bl b(2) by (auto simp: memmove_c_def sz_sub_def)
  then have "linenoiseEditInsert c e1 = None"
    using k bl by (simp add: linenoiseEditInsert_def e1_def)
  ultimately show ?thesis by blast
qed

lemma search_moves_cursor_outside_witness:
  "\<exists>e'. search_history ''z'' False Backward 0 None ((sample_ed [])\<lparr>s_history := [''aaaaaaaaaaz'']\<rparr>) =
      Some (Some 10, 0, e') \<and> l_len e' < l_pos e' \<and> linenoiseEditInsert CHR ''x'' e' = None"
  by (rule search_moves_cursor_outside [where h = "''aaaaaaaaaaz''"])
     (simp_all add: sample_ed_def ed_ok_def)

end
