(* ===== verification/Tasks.thy ===== *)
theory Tasks
  imports Planck_Prelude
begin

text \<open>
  \<open>tasks.c\<close>: the count of tasks that are still to run, shared by the main thread, which waits in
  \<open>block_until_tasks_complete\<close> before Planck exits, and the threads that start and finish
  tasks. Each thread has a program counter for the point it has reached in the routine it is
  in; one step is one call of the pthread library or one access to the counter under the lock.
  The step relation says what each call may do: \<open>pthread_mutex_lock\<close> returns when the lock is
  free, \<open>pthread_cond_wait\<close> gives the lock up and takes it again when woken, which may happen
  without a signal, and \<open>pthread_cond_signal\<close> wakes a waiting thread, if there is one. Each may
  return an error instead. The counter is an \<open>int\<close> and wraps.
\<close>

section \<open>State and steps\<close>

datatype tpc =
    Out int                          \<comment> \<open>in no routine; what the last one returned\<close>
  | Sig_lock int | Sig_add int | Sig_cond | Sig_unlock int
  | Blk_lock | Blk_test | Blk_asleep | Blk_woken | Blk_unlock int

record tasks =
  tasks_outstanding :: "32 word"
  tasks_lock :: "nat option"
  pcs :: "nat \<Rightarrow> tpc"

definition tasks_init :: tasks where
  "tasks_init = \<lparr>tasks_outstanding = 0, tasks_lock = None, pcs = (\<lambda>_. Out 0)\<rparr>"

definition goes :: "nat \<Rightarrow> tpc \<Rightarrow> tasks \<Rightarrow> tasks" where
  "goes t p s = s\<lparr>pcs := (pcs s)(t := p)\<rparr>"

definition takes :: "nat \<Rightarrow> tpc \<Rightarrow> tasks \<Rightarrow> tasks" where
  "takes t p s = goes t p (s\<lparr>tasks_lock := Some t\<rparr>)"

definition releases :: "nat \<Rightarrow> tpc \<Rightarrow> tasks \<Rightarrow> tasks" where
  "releases t p s = goes t p (s\<lparr>tasks_lock := None\<rparr>)"

lemmas move_defs = goes_def takes_def releases_def

text \<open>The calls: a thread that is in no routine enters one.\<close>

definition signal_task_started :: "nat \<Rightarrow> tasks \<Rightarrow> tasks" where
  "signal_task_started t s = goes t (Sig_lock 1) s"

definition signal_task_complete :: "nat \<Rightarrow> tasks \<Rightarrow> tasks" where
  "signal_task_complete t s = goes t (Sig_lock (- 1)) s"

definition block_until_tasks_complete :: "nat \<Rightarrow> tasks \<Rightarrow> tasks" where
  "block_until_tasks_complete t s = goes t Blk_lock s"

text \<open>
  The bodies. The second argument is what the pthread call of the step returned. The two
  signalling routines differ in what they add to the counter.
\<close>

inductive signal_step :: "nat \<Rightarrow> int \<Rightarrow> tasks \<Rightarrow> tasks \<Rightarrow> bool" where
  sig_lock: "pcs s t = Sig_lock d \<Longrightarrow> tasks_lock s = None \<Longrightarrow>
    signal_step t 0 s (takes t (Sig_add d) s)"
| sig_lock_err: "pcs s t = Sig_lock d \<Longrightarrow> err \<noteq> 0 \<Longrightarrow> signal_step t err s (goes t (Out err) s)"
| sig_add: "pcs s t = Sig_add d \<Longrightarrow>
    signal_step t 0 s (goes t Sig_cond (s\<lparr>tasks_outstanding := tasks_outstanding s + of_int d\<rparr>))"
| sig_cond_none: "pcs s t = Sig_cond \<Longrightarrow> (\<And>u. pcs s u \<noteq> Blk_asleep) \<Longrightarrow>
    signal_step t 0 s (goes t (Sig_unlock 0) s)"
| sig_cond_wake: "pcs s t = Sig_cond \<Longrightarrow> pcs s u = Blk_asleep \<Longrightarrow>
    signal_step t 0 s (goes t (Sig_unlock 0) (goes u Blk_woken s))"
| sig_cond_err: "pcs s t = Sig_cond \<Longrightarrow> err \<noteq> 0 \<Longrightarrow>
    signal_step t err s (goes t (Sig_unlock err) s)"
| sig_unlock: "pcs s t = Sig_unlock r \<Longrightarrow> signal_step t 0 s (releases t (Out r) s)"

inductive block_step :: "nat \<Rightarrow> int \<Rightarrow> tasks \<Rightarrow> tasks \<Rightarrow> bool" where
  blk_lock: "pcs s t = Blk_lock \<Longrightarrow> tasks_lock s = None \<Longrightarrow> block_step t 0 s (takes t Blk_test s)"
| blk_lock_err: "pcs s t = Blk_lock \<Longrightarrow> err \<noteq> 0 \<Longrightarrow> block_step t err s (goes t (Out err) s)"
| blk_zero: "pcs s t = Blk_test \<Longrightarrow> tasks_outstanding s = 0 \<Longrightarrow>
    block_step t 0 s (goes t (Blk_unlock 0) s)"
| blk_wait: "pcs s t = Blk_test \<Longrightarrow> tasks_outstanding s \<noteq> 0 \<Longrightarrow>
    block_step t 0 s (releases t Blk_asleep s)"
| blk_wait_err: "pcs s t = Blk_test \<Longrightarrow> tasks_outstanding s \<noteq> 0 \<Longrightarrow> err \<noteq> 0 \<Longrightarrow>
    block_step t err s (goes t (Blk_unlock err) s)"
| blk_spurious: "pcs s t = Blk_asleep \<Longrightarrow> block_step t 0 s (goes t Blk_woken s)"
| blk_relock: "pcs s t = Blk_woken \<Longrightarrow> tasks_lock s = None \<Longrightarrow>
    block_step t 0 s (takes t Blk_test s)"
| blk_unlock: "pcs s t = Blk_unlock r \<Longrightarrow> block_step t 0 s (releases t (Out r) s)"

inductive_cases signal_stepE: "signal_step t err s s'"
inductive_cases block_stepE: "block_step t err s s'"

text \<open>
  The runs of a program whose threads in \<open>B\<close> may block and in which the pthread calls return 0
  or an error in \<open>E\<close>. The list holds what was added to the counter, the newest first.
\<close>

definition added :: "nat \<Rightarrow> tasks \<Rightarrow> int list" where
  "added t s = (case pcs s t of Sig_add d \<Rightarrow> [d] | _ \<Rightarrow> [])"

inductive tasks_run :: "nat set \<Rightarrow> int set \<Rightarrow> int list \<Rightarrow> tasks \<Rightarrow> bool" for B E where
  run_init: "tasks_run B E [] tasks_init"
| run_started: "tasks_run B E ds s \<Longrightarrow> pcs s t = Out r \<Longrightarrow> tasks_run B E ds (signal_task_started t s)"
| run_complete: "tasks_run B E ds s \<Longrightarrow> pcs s t = Out r \<Longrightarrow> tasks_run B E ds (signal_task_complete t s)"
| run_block: "tasks_run B E ds s \<Longrightarrow> pcs s t = Out r \<Longrightarrow> t \<in> B \<Longrightarrow>
    tasks_run B E ds (block_until_tasks_complete t s)"
| run_signal: "tasks_run B E ds s \<Longrightarrow> signal_step t err s s' \<Longrightarrow> err = 0 \<or> err \<in> E \<Longrightarrow>
    tasks_run B E (added t s @ ds) s'"
| run_blocking: "tasks_run B E ds s \<Longrightarrow> block_step t err s s' \<Longrightarrow> err = 0 \<or> err \<in> E \<Longrightarrow>
    tasks_run B E ds s'"

section \<open>The invariant\<close>

text \<open>The program points between taking the lock and giving it up.\<close>

fun inside :: "tpc \<Rightarrow> bool" where
  "inside (Sig_add _) = True"
| "inside Sig_cond = True"
| "inside (Sig_unlock _) = True"
| "inside Blk_test = True"
| "inside (Blk_unlock _) = True"
| "inside _ = False"

fun blocking :: "tpc \<Rightarrow> bool" where
  "blocking (Blk_unlock _) = True"
| "blocking p = (p \<in> {Blk_lock, Blk_test, Blk_asleep, Blk_woken})"

text \<open>
  The thread inside is the one that holds the lock, the counter is the sum of what was added,
  a thread that leaves \<open>block_until_tasks_complete\<close> with 0 has seen a count of 0 and still
  sees it, and only the threads in \<open>B\<close> block.
\<close>

definition tasks_inv :: "nat set \<Rightarrow> int list \<Rightarrow> tasks \<Rightarrow> bool" where
  "tasks_inv B ds s \<longleftrightarrow>
     (\<forall>t. inside (pcs s t) \<longleftrightarrow> tasks_lock s = Some t) \<and>
     tasks_outstanding s = of_int (sum_list ds) \<and>
     (\<forall>t. pcs s t = Blk_unlock 0 \<longrightarrow> tasks_outstanding s = 0) \<and>
     (\<forall>t. blocking (pcs s t) \<longrightarrow> t \<in> B)"

lemma signal_step_inv:
  assumes "signal_step t err s s'" "tasks_inv B ds s"
  shows "tasks_inv B (added t s @ ds) s'"
  using assms
proof cases
  case (sig_add d)
  then have "tasks_lock s = Some t" using assms(2) by (force simp: tasks_inv_def)
  then have "\<not> inside (pcs s u)" if "u \<noteq> t" for u using assms(2) that by (auto simp: tasks_inv_def)
  then have "pcs s u \<noteq> Blk_unlock 0" if "u \<noteq> t" for u using that by (metis inside.simps(5))
  then show ?thesis using assms(2) sig_add by (auto simp: tasks_inv_def move_defs added_def)
qed (auto simp: tasks_inv_def move_defs added_def split: if_splits; metis inside.simps option.inject)+

lemma block_step_inv:
  assumes "block_step t err s s'" "tasks_inv B ds s"
  shows "tasks_inv B ds s'"
  using assms
  by cases (auto simp: tasks_inv_def move_defs split: if_splits; metis inside.simps blocking.simps option.inject)+

lemma call_inv:
  assumes "tasks_inv B ds s" "pcs s t = Out r" "\<not> inside p" "blocking p \<longrightarrow> t \<in> B" "p \<noteq> Blk_unlock 0"
  shows "tasks_inv B ds (goes t p s)"
proof -
  have "\<not> inside (pcs s t)" using assms(2) by simp
  with assms(1) have "tasks_lock s \<noteq> Some t" by (auto simp: tasks_inv_def)
  then show ?thesis using assms by (auto simp: tasks_inv_def goes_def split: if_splits)
qed

lemma run_inv: "tasks_run B E ds s \<Longrightarrow> tasks_inv B ds s"
proof (induction rule: tasks_run.induct)
  case run_init
  show ?case by (simp add: tasks_inv_def tasks_init_def)
next
  case (run_signal ds s t err s')
  then show ?case by (blast intro: signal_step_inv)
next
  case (run_blocking ds s t err s')
  then show ?case by (blast intro: block_step_inv)
qed (simp_all add: call_inv signal_task_started_def signal_task_complete_def
    block_until_tasks_complete_def)

text \<open>
  Where one thread blocks and no call fails, it does not sleep through the end of the last
  task: when it sleeps and the count is 0, the thread that made it 0 has yet to signal.
\<close>

definition awake :: "tasks \<Rightarrow> bool" where
  "awake s \<longleftrightarrow> (\<forall>t. pcs s t = Blk_asleep \<longrightarrow> tasks_outstanding s = 0 \<longrightarrow> (\<exists>u. pcs s u = Sig_cond))"

lemma awake_move:
  assumes "awake s" "pcs s t \<noteq> Sig_cond" "p \<noteq> Blk_asleep"
    "tasks_outstanding s' = tasks_outstanding s" "pcs s' = (pcs s)(t := p)"
  shows "awake s'"
  unfolding awake_def
proof (intro allI impI)
  fix v
  assume v: "pcs s' v = Blk_asleep" "tasks_outstanding s' = 0"
  with assms(3,5) have "pcs s v = Blk_asleep" by (auto split: if_splits)
  with v assms(1,4) obtain u where u: "pcs s u = Sig_cond" by (auto simp: awake_def)
  with assms(2) have "u \<noteq> t" by auto
  with u assms(5) show "\<exists>u. pcs s' u = Sig_cond" by auto
qed

lemma signal_step_awake:
  assumes "signal_step t 0 s s'" "awake s" "tasks_inv {b} ds s"
  shows "awake s'"
  using assms(1)
proof cases
  case (sig_lock d)
  then show ?thesis by (intro awake_move [OF assms(2), of t "Sig_add d"]) (simp_all add: move_defs)
next
  case (sig_add d)
  then have "pcs s' t = Sig_cond" by (simp add: move_defs)
  then show ?thesis unfolding awake_def by blast
next
  case sig_cond_none
  then show ?thesis by (auto simp: awake_def move_defs split: if_splits)
next
  case (sig_cond_wake u)
  have b: "pcs s v = Blk_asleep \<Longrightarrow> v = b" for v using assms(3) by (auto simp: tasks_inv_def)
  with sig_cond_wake have "u = b" by blast
  have "pcs s' v \<noteq> Blk_asleep" for v
  proof (cases "v = b")
    case True
    with sig_cond_wake \<open>u = b\<close> show ?thesis by (simp add: move_defs)
  next
    case False
    then have "pcs s v \<noteq> Blk_asleep" using b by blast
    with False sig_cond_wake \<open>u = b\<close> show ?thesis by (simp add: move_defs)
  qed
  then show ?thesis by (simp add: awake_def)
next
  case (sig_unlock r)
  then show ?thesis by (intro awake_move [OF assms(2), of t "Out r"]) (simp_all add: move_defs)
qed auto

lemma block_step_awake:
  assumes "block_step t 0 s s'" "awake s"
  shows "awake s'"
  using assms(1)
proof cases
  case blk_wait
  then show ?thesis by (simp add: awake_def move_defs)
qed (auto intro!: awake_move [OF assms(2), of t "pcs s' t"] simp: move_defs)

lemma awake_call: "awake s \<Longrightarrow> pcs s t = Out r \<Longrightarrow> p \<noteq> Blk_asleep \<Longrightarrow> awake (goes t p s)"
  by (rule awake_move [of s t p]) (simp_all add: goes_def)

lemma run_awake: "tasks_run {b} {} ds s \<Longrightarrow> awake s"
proof (induction rule: tasks_run.induct)
  case run_init
  show ?case by (simp add: awake_def tasks_init_def)
next
  case (run_signal ds s t err s')
  then show ?case using run_inv [OF run_signal.hyps(1)] by (auto intro: signal_step_awake)
next
  case (run_blocking ds s t err s')
  then show ?case by (auto intro: block_step_awake)
qed (simp_all add: awake_call signal_task_started_def signal_task_complete_def
    block_until_tasks_complete_def)

text \<open>A run in which a task is started and the main thread goes to sleep.\<close>

lemma run_signal_ok:
  "tasks_run B E ds s \<Longrightarrow> signal_step t 0 s s' \<Longrightarrow> added t s @ ds = ds' \<Longrightarrow> tasks_run B E ds' s'"
  by (auto intro: run_signal)

lemma run_blocking_ok: "tasks_run B E ds s \<Longrightarrow> block_step t 0 s s' \<Longrightarrow> tasks_run B E ds s'"
  by (auto intro: run_blocking)

lemma sample_run:
  "\<exists>s. tasks_run {0} {} [1] s \<and> pcs s 0 = Blk_asleep \<and> tasks_lock s = None \<and> pcs s 1 = Out 0"
proof -
  let ?s1 = "signal_task_started 1 tasks_init"
  let ?s2 = "takes 1 (Sig_add 1) ?s1"
  let ?s3 = "goes 1 Sig_cond (?s2\<lparr>tasks_outstanding := tasks_outstanding ?s2 + of_int 1\<rparr>)"
  let ?s4 = "goes 1 (Sig_unlock 0) ?s3"
  let ?s5 = "releases 1 (Out 0) ?s4"
  let ?s6 = "block_until_tasks_complete 0 ?s5"
  let ?s7 = "takes 0 Blk_test ?s6"
  note defs = move_defs tasks_init_def signal_task_started_def block_until_tasks_complete_def added_def
  have r1: "tasks_run {0} {} [] ?s1"
    by (rule run_started [OF run_init]) (simp add: defs)
  have r2: "tasks_run {0} {} [] ?s2"
    by (rule run_signal_ok [OF r1 sig_lock]) (simp_all add: defs)
  have r3: "tasks_run {0} {} [1] ?s3"
    by (rule run_signal_ok [OF r2 sig_add]) (simp_all add: defs)
  have r4: "tasks_run {0} {} [1] ?s4"
    by (rule run_signal_ok [OF r3 sig_cond_none]) (simp_all add: defs)
  have r5: "tasks_run {0} {} [1] ?s5"
    by (rule run_signal_ok [OF r4 sig_unlock]) (simp_all add: defs)
  have r6: "tasks_run {0} {} [1] ?s6"
    by (rule run_block [OF r5]) (simp_all add: defs)
  have r7: "tasks_run {0} {} [1] ?s7"
    by (rule run_blocking_ok [OF r6 blk_lock]) (simp_all add: defs)
  have r8: "tasks_run {0} {} [1] (releases 0 Blk_asleep ?s7)"
    by (rule run_blocking_ok [OF r7 blk_wait]) (simp_all add: defs)
  have "pcs (releases 0 Blk_asleep ?s7) 0 = Blk_asleep" "tasks_lock (releases 0 Blk_asleep ?s7) = None"
    "pcs (releases 0 Blk_asleep ?s7) 1 = Out 0" by (simp_all add: defs)
  with r8 show ?thesis by blast
qed

section \<open>Properties\<close>

text \<open>
  C17. The counter is what the tasks added to it, at most one thread is between taking and
  giving up the lock, and \<open>block_until_tasks_complete\<close> returns 0 only while the count is 0.
\<close>

theorem tasks_counted:
  assumes "tasks_run B E ds s"
  shows "tasks_outstanding s = of_int (sum_list ds) \<and>
    (inside (pcs s t) \<longrightarrow> inside (pcs s u) \<longrightarrow> t = u) \<and>
    (pcs s t = Blk_unlock 0 \<longrightarrow> (of_int (sum_list ds) :: 32 word) = 0)"
  using run_inv [OF assms] by (auto simp: tasks_inv_def)

lemma tasks_counted_witness: "\<exists>s :: tasks. tasks_outstanding s = 1 \<and> pcs s 0 = Blk_asleep"
proof -
  from sample_run obtain s where s: "tasks_run {0} {} [1] s" "pcs s 0 = Blk_asleep" by blast
  have "tasks_outstanding s = 1" using tasks_counted [OF s(1)] by simp
  with s(2) show ?thesis by blast
qed

text \<open>
  C18. No wakeup is lost: in a run where one thread blocks and no pthread call fails, when the
  blocked thread sleeps and nobody holds the lock, a task is still outstanding.
\<close>

theorem no_lost_wakeup:
  assumes "tasks_run {b} {} ds s" "pcs s t = Blk_asleep" "tasks_lock s = None"
  shows "t = b \<and> tasks_outstanding s \<noteq> 0"
proof -
  have inv: "tasks_inv {b} ds s" using assms(1) by (rule run_inv)
  then have "\<not> inside (pcs s u)" for u using assms(3) by (simp add: tasks_inv_def)
  then have "pcs s u \<noteq> Sig_cond" for u by (metis inside.simps(2))
  with run_awake [OF assms(1)] inv assms(2) show ?thesis by (auto simp: tasks_inv_def awake_def)
qed

lemma no_lost_wakeup_witness:
  "\<exists>s :: tasks. pcs s 0 = Blk_asleep \<and> tasks_lock s = None \<and> tasks_outstanding s \<noteq> 0"
proof -
  from sample_run obtain s where s: "tasks_run {0} {} [1] s" "pcs s 0 = Blk_asleep" "tasks_lock s = None"
    by blast
  with no_lost_wakeup [OF s] show ?thesis by blast
qed

end
