(* ===== verification/Js.thy ===== *)
theory Js
  imports Planck_Prelude
begin

text \<open>
  The values that cross the boundary to JavaScriptCore, and \<open>jsc_utils.c\<close>. A number is an
  integer here. \<open>JNullString\<close> is the string JavaScriptCore makes of a NULL pointer. Arrays and
  objects are their elements and their properties in the order they were set. What
  JavaScriptCore does, \<open>JSON.stringify\<close> and the \<open>toString\<close> methods of the values among it, is an
  argument.
\<close>

datatype js =
    JUndefined | JNull | JBool bool | JNum int | JStr string | JNullString
  | JArr "js list" | JObj "(string \<times> js) list"

text \<open>What \<open>JSValueGetType\<close> tells apart.\<close>

fun is_str :: "js \<Rightarrow> bool" where
  "is_str (JStr _) = True"
| "is_str JNullString = True"
| "is_str _ = False"

fun is_num :: "js \<Rightarrow> bool" where
  "is_num (JNum _) = True"
| "is_num _ = False"

fun is_bool :: "js \<Rightarrow> bool" where
  "is_bool (JBool _) = True"
| "is_bool _ = False"

fun is_obj :: "js \<Rightarrow> bool" where
  "is_obj (JArr _) = True"
| "is_obj (JObj _) = True"
| "is_obj _ = False"

fun to_bool :: "js \<Rightarrow> bool" where
  "to_bool (JBool b) = b"
| "to_bool _ = False"

fun to_number :: "js \<Rightarrow> int" where
  "to_number (JNum n) = n"
| "to_number _ = 0"

text \<open>
  \<open>(int)\<close> of a number: outside the range C leaves the result undefined, and x86-64 gives the
  least \<open>int\<close>.
\<close>

definition c_int :: "int \<Rightarrow> int" where
  "c_int n = (if - (2 ^ 31) \<le> n \<and> n < 2 ^ 31 then n else - (2 ^ 31))"

lemma c_string_nul [simp]: "NUL \<notin> set (c_string s)"
  by (auto simp: c_string_def dest: set_takeWhileD)

section \<open>jsc\_utils.c\<close>

text \<open>
  \<open>None\<close> is the NULL pointer. \<open>value_to_c_string\<close> is \<open>value_to_c_string_ext\<close> without the handling of
  values that are no strings; it comes first because the branch for errors calls it.
\<close>

definition value_to_c_string :: "js \<Rightarrow> string option" where
  "value_to_c_string val =
     (case val of
        JStr s \<Rightarrow> Some (c_string s)
      | JNullString \<Rightarrow> Some []
      | _ \<Rightarrow> None)"

definition get_prop :: "string \<Rightarrow> js \<Rightarrow> js" where
  "get_prop k v =
     (case v of JObj ps \<Rightarrow> (case map_of ps k of Some x \<Rightarrow> x | None \<Rightarrow> JUndefined) | _ \<Rightarrow> JUndefined)"

text \<open>What JavaScriptCore knows: the instances of \<open>Error\<close>, and \<open>JSON.stringify\<close> (indenting by a blank).\<close>

record js_lib =
  jl_is_error :: "js \<Rightarrow> bool"
  jl_stringify :: "js \<Rightarrow> js"

text \<open>An error as its message and its stack; \<open>None\<close> where \<open>strlen\<close> is called on a NULL pointer.\<close>

definition error_text :: "js \<Rightarrow> string option" where
  "error_text val =
     do {
       message \<leftarrow> value_to_c_string (get_prop ''message'' val);
       stack \<leftarrow> value_to_c_string (get_prop ''stack'' val);
       Some (message @ [CHR 0x0A] @ stack)
     }"

text \<open>The outer \<open>None\<close> is undefined behaviour.\<close>

definition value_to_c_string_ext :: "js_lib \<Rightarrow> js \<Rightarrow> bool \<Rightarrow> string option option" where
  "value_to_c_string_ext lib val handle =
     (if \<not> handle \<and> val = JNull then Some None
      else if \<not> is_str val
      then (if handle
            then if jl_is_error lib val
              then map_option Some (error_text val)
              else Some (value_to_c_string (jl_stringify lib val))
            else Some None)
      else Some (value_to_c_string val))"

lemma value_to_c_string_ext_plain: "value_to_c_string_ext lib val False = Some (value_to_c_string val)"
  by (cases val) (simp_all add: value_to_c_string_ext_def value_to_c_string_def)

definition c_string_to_value :: "string option \<Rightarrow> js" where
  "c_string_to_value s = (case s of None \<Rightarrow> JNullString | Some s \<Rightarrow> JStr s)"

definition to_string :: "(js \<Rightarrow> string) \<Rightarrow> js \<Rightarrow> string" where
  "to_string to_str val =
     (case val of JUndefined \<Rightarrow> ''undefined'' | JNull \<Rightarrow> ''null'' | _ \<Rightarrow> to_str val)"

text \<open>What \<open>print_value\<close> writes to standard error; \<open>None\<close> is the NULL reference.\<close>

definition print_value :: "(js \<Rightarrow> string) \<Rightarrow> string \<Rightarrow> js option \<Rightarrow> string" where
  "print_value to_str pre val =
     (case val of
        None \<Rightarrow> []
      | Some v \<Rightarrow> pre @ the (value_to_c_string (JStr (to_string to_str v))) @ [CHR 0x0A])"

text \<open>
  \<open>evaluate_script\<close>: JavaScriptCore gives the value, \<open>None\<close> being the NULL reference, and the
  exception, which is dropped.
\<close>

type_synonym evaluator = "string \<Rightarrow> string option \<Rightarrow> js option \<times> js option"

definition evaluate_script :: "evaluator \<Rightarrow> string \<Rightarrow> string option \<Rightarrow> js option" where
  "evaluate_script ev script source = fst (ev script source)"

text \<open>\<open>PLANCK_EVAL\<close>: the exception is the result, the value is dropped.\<close>

fun js_string :: "js \<Rightarrow> string" where
  "js_string (JStr s) = s"
| "js_string _ = []"

definition function_eval :: "evaluator \<Rightarrow> js list \<Rightarrow> js" where
  "function_eval ev args =
     (case args of
        [a, b] \<Rightarrow>
          if is_str a \<and> is_str b
          then (case snd (ev (js_string a) (Some (js_string b))) of Some val \<Rightarrow> val | None \<Rightarrow> JNull)
          else JNull
      | _ \<Rightarrow> JNull)"

text \<open>An object without a \<open>length\<close> has \<open>undefined\<close> there, whose number is not a number.\<close>

fun array_get_count :: "js \<Rightarrow> int" where
  "array_get_count (JArr vs) = c_int (int (length vs))"
| "array_get_count (JObj ps) =
     (case map_of ps ''length'' of Some (JNum n) \<Rightarrow> c_int n | _ \<Rightarrow> - (2 ^ 31))"
| "array_get_count _ = - (2 ^ 31)"

definition array_get_value_at_index :: "js \<Rightarrow> nat \<Rightarrow> js" where
  "array_get_value_at_index a i =
     (case a of JArr vs \<Rightarrow> if i < length vs then vs ! i else JUndefined | _ \<Rightarrow> JUndefined)"

text \<open>Setting a property of an object under construction.\<close>

definition put :: "string \<Rightarrow> js \<Rightarrow> (string \<times> js) list \<Rightarrow> (string \<times> js) list" where
  "put k v ps = filter (\<lambda>p. fst p \<noteq> k) ps @ [(k, v)]"

lemma value_to_c_string_simps [simp]:
  "value_to_c_string (JStr s) = Some (c_string s)"
  "value_to_c_string JNull = None"
  "value_to_c_string JNullString = Some []"
  "value_to_c_string (JNum n) = None"
  by (simp_all add: value_to_c_string_def)

lemma map_of_put [simp]: "map_of (put k v ps) k' = (if k' = k then Some v else map_of ps k')"
proof -
  have "map_of (filter (\<lambda>p. fst p \<noteq> k) ps) k' = (if k' = k then None else map_of ps k')"
    by (induction ps) auto
  then show ?thesis by (auto simp: put_def map_add_def split: option.splits)
qed

lemma c_int_id: "- (2 ^ 31) \<le> n \<Longrightarrow> n < 2 ^ 31 \<Longrightarrow> c_int n = n"
  by (simp add: c_int_def)

lemma c_int_range: "- (2 ^ 31) \<le> c_int n \<and> c_int n < 2 ^ 31"
  by (simp add: c_int_def)

end
