(* ===== verification/Timers.thy ===== *)
theory Timers
  imports Tasks Js "HOL-Library.Signed_Division"
begin

text \<open>
  \<open>timers.c\<close>, and the store of the timeouts that \<open>engine.c\<close> keeps on the JavaScript side: a
  timer thread sleeps and calls back, the callback runs what was stored under the timer's id and
  signals the task it stands for as complete. What \<open>nanosleep\<close> returns is a list of pairs of
  its result and \<open>errno\<close>, one for each call; its manual promises \<open>EINVAL\<close> where the time is
  negative or the nanoseconds are not below a second.
\<close>

section \<open>A timer thread\<close>

text \<open>The division of C rounds to zero.\<close>

definition timespec_of :: "int \<Rightarrow> int \<times> int" where
  "timespec_of millis =
     (let sec = millis sdiv 1000; nsec = 1000 * 1000 * (millis smod 1000) in
      if sec = 0 \<and> nsec = 0 then (0, 1) else (sec, nsec))"

text \<open>\<open>None\<close>: still asleep; otherwise what the last \<open>nanosleep\<close> returned.\<close>

fun sleep_loop :: "(int \<times> int) list \<Rightarrow> int option" where
  "sleep_loop [] = None"
| "sleep_loop ((err, errno) # rs) =
     (if err \<noteq> 0 \<and> errno = EINTR then sleep_loop rs else Some err)"

datatype timer_end = Sleeping | Gave_up | Called_back

definition timer_thread :: "(int \<times> int \<Rightarrow> (int \<times> int) list) \<Rightarrow> int \<Rightarrow> timer_end" where
  "timer_thread nanosleep millis =
     (case sleep_loop (nanosleep (timespec_of millis)) of
        None \<Rightarrow> Sleeping
      | Some err \<Rightarrow> if err \<noteq> 0 then Gave_up else Called_back)"

text \<open>
  \<open>start_timer\<close>: what it returns and whether the thread runs, from whether there is memory and
  what the three pthread calls return.
\<close>

definition start_timer :: "bool \<Rightarrow> int \<Rightarrow> int \<Rightarrow> int \<Rightarrow> int \<times> bool" where
  "start_timer memory attr_init setdetachstate create =
     (if \<not> memory then (-1, False)
      else if attr_init \<noteq> 0 then (attr_init, False)
      else if setdetachstate \<noteq> 0 then (setdetachstate, False)
      else (create, create = 0))"

section \<open>What nanosleep promises\<close>

definition timespec_valid :: "int \<times> int \<Rightarrow> bool" where
  "timespec_valid t \<longleftrightarrow> 0 \<le> fst t \<and> 0 \<le> snd t \<and> snd t < 1000000000"

text \<open>
  A valid time is slept to its end, with interruptions by signals on the way; on an invalid
  one the call fails at once.
\<close>

definition nanosleep_ok :: "(int \<times> int \<Rightarrow> (int \<times> int) list) \<Rightarrow> bool" where
  "nanosleep_ok ns \<longleftrightarrow>
     (\<forall>t. if timespec_valid t
          then \<exists>n. ns t = replicate n (-1, EINTR) @ [(0, 0)]
          else \<exists>rs. ns t = (-1, EINVAL) # rs)"

lemma sleep_loop_interrupted: "sleep_loop (replicate n (-1, EINTR) @ rs) = sleep_loop rs"
  by (induction n) simp_all

lemma sdiv_smod:
  "0 \<le> m \<Longrightarrow> m sdiv 1000 = m div 1000" "0 \<le> m \<Longrightarrow> m smod 1000 = m mod 1000"
  "m < 0 \<Longrightarrow> m sdiv 1000 = - (- m div 1000)" "m < 0 \<Longrightarrow> m smod 1000 = - (- m mod 1000)" for m :: int
  by (auto simp: signed_divide_int_def signed_modulo_int_def sgn_if)

lemma timespec_of_valid: "timespec_valid (timespec_of millis) \<longleftrightarrow> 0 \<le> millis"
proof (cases "0 \<le> millis")
  case True
  then have "0 \<le> millis div 1000" "0 \<le> millis mod 1000" "millis mod 1000 < 1000" by simp_all
  with True show ?thesis by (auto simp: timespec_valid_def timespec_of_def Let_def sdiv_smod)
next
  case False
  then have "\<not> (- millis div 1000 = 0 \<and> - millis mod 1000 = 0)" "0 \<le> - millis div 1000" "0 \<le> - millis mod 1000"
    using div_mult_mod_eq [of "- millis" 1000] by auto
  with False show ?thesis by (auto simp: timespec_valid_def timespec_of_def Let_def sdiv_smod)
qed

lemma timespec_of_length:
  assumes "0 < millis"
  shows "fst (timespec_of millis) * 1000000000 + snd (timespec_of millis) = millis * 1000000"
  using assms by (auto simp: timespec_of_def Let_def sdiv_smod, presburger)

lemma timer_thread_ends:
  assumes "nanosleep_ok ns"
  shows "timer_thread ns millis = (if 0 \<le> millis then Called_back else Gave_up)"
proof (cases "0 \<le> millis")
  case True
  then obtain n where "ns (timespec_of millis) = replicate n (-1, EINTR) @ [(0, 0)]"
    using assms timespec_of_valid [of millis] unfolding nanosleep_ok_def by metis
  with True show ?thesis by (simp add: timer_thread_def sleep_loop_interrupted)
next
  case False
  then obtain rs where "ns (timespec_of millis) = (-1, EINVAL) # rs"
    using assms timespec_of_valid [of millis] unfolding nanosleep_ok_def by metis
  with False show ?thesis by (simp add: timer_thread_def)
qed

section \<open>Timeouts and intervals\<close>

text \<open>
  What the JavaScript of \<open>engine.c\<close> keeps: the callbacks by id, and through \<open>functions.c\<close> the
  last ids given out and the count of tasks. A callback is the list of timer operations it
  performs when it runs; \<open>Throw\<close> leaves it there. \<open>t_armed\<close> lists the timer threads that have
  been started and have not called back.
\<close>

datatype timer_op =
    Set_timeout int "timer_op list" | Clear_timeout nat
  | Set_interval int "timer_op list" | Clear_interval nat | Throw

datatype armed = Timeout nat | Interval nat

record timers =
  timeouts :: "nat \<rightharpoonup> timer_op list"
  intervals :: "nat \<rightharpoonup> int \<times> timer_op list"
  timeout_id :: nat
  interval_id :: nat
  t_count :: int
  t_armed :: "(int \<times> armed) list"

definition next_id :: "nat \<Rightarrow> nat" where
  "next_id i = (if i = 9007199254740991 then 0 else i + 1)"

text \<open>The two functions of \<open>functions.c\<close>; a thread that could not be started is not in the list.\<close>

definition function_set_timeout :: "js list \<Rightarrow> timers \<Rightarrow> js \<times> timers" where
  "function_set_timeout args s =
     (case args of
        [JNum n] \<Rightarrow>
          let millis = c_int n; i = next_id (timeout_id s) in
          (JNum (int i), s\<lparr>timeout_id := i, t_count := t_count s + 1,
             t_armed := t_armed s @ [(millis, Timeout i)]\<rparr>)
      | _ \<Rightarrow> (JNull, s))"

definition function_set_interval :: "js list \<Rightarrow> timers \<Rightarrow> js \<times> timers" where
  "function_set_interval args s =
     (case args of
        [JNum n, v] \<Rightarrow>
          let millis = c_int n in
          if v = JNull
          then let i = next_id (interval_id s) in
            (JNum (int i), s\<lparr>interval_id := i, t_count := t_count s + 1,
               t_armed := t_armed s @ [(millis, Interval i)]\<rparr>)
          else let i = nat (to_number v) in
            (JNum (int i), s\<lparr>t_armed := t_armed s @ [(millis, Interval i)]\<rparr>)
      | _ \<Rightarrow> (JNull, s))"

text \<open>The script: what \<open>setTimeout\<close>, \<open>clearTimeout\<close>, \<open>setInterval\<close> and \<open>clearInterval\<close> do.\<close>

definition js_setTimeout :: "timer_op list \<Rightarrow> int \<Rightarrow> timers \<Rightarrow> timers" where
  "js_setTimeout fn ms s =
     (let (v, s') = function_set_timeout [JNum ms] s; i = nat (to_number v) in
      s'\<lparr>timeouts := (timeouts s')(i \<mapsto> fn)\<rparr>)"

definition js_clearTimeout :: "nat \<Rightarrow> timers \<Rightarrow> timers" where
  "js_clearTimeout i s =
     (if timeouts s i \<noteq> None
      then s\<lparr>timeouts := (timeouts s)(i := None), t_count := t_count s - 1\<rparr> else s)"

definition js_setInterval :: "timer_op list \<Rightarrow> int \<Rightarrow> timers \<Rightarrow> timers" where
  "js_setInterval fn ms s =
     (let (v, s') = function_set_interval [JNum ms, JNull] s; i = nat (to_number v) in
      s'\<lparr>intervals := (intervals s')(i \<mapsto> (ms, fn))\<rparr>)"

definition js_clearInterval :: "nat \<Rightarrow> timers \<Rightarrow> timers" where
  "js_clearInterval i s =
     (if intervals s i \<noteq> None
      then s\<lparr>intervals := (intervals s)(i := None), t_count := t_count s - 1\<rparr> else s)"

text \<open>A callback's body: whether it ran to its end, and the state.\<close>

fun run_ops :: "timer_op list \<Rightarrow> timers \<Rightarrow> bool \<times> timers" where
  "run_ops [] s = (True, s)"
| "run_ops (Throw # ops) s = (False, s)"
| "run_ops (Set_timeout ms fn # ops) s = run_ops ops (js_setTimeout fn ms s)"
| "run_ops (Clear_timeout i # ops) s = run_ops ops (js_clearTimeout i s)"
| "run_ops (Set_interval ms fn # ops) s = run_ops ops (js_setInterval fn ms s)"
| "run_ops (Clear_interval i # ops) s = run_ops ops (js_clearInterval i s)"

text \<open>
  What a timer thread calls. \<open>finally\<close> takes the callback out of the store and signals the task
  complete however the callback ended, and without looking whether it is still in the store.
\<close>

definition js_run_timeout :: "nat \<Rightarrow> timers \<Rightarrow> timers" where
  "js_run_timeout i s =
     (case timeouts s i of
        None \<Rightarrow> s
      | Some fn \<Rightarrow> let s' = snd (run_ops fn s) in
          s'\<lparr>timeouts := (timeouts s')(i := None), t_count := t_count s' - 1\<rparr>)"

definition js_run_interval :: "nat \<Rightarrow> timers \<Rightarrow> timers" where
  "js_run_interval i s =
     (case intervals s i of
        None \<Rightarrow> s
      | Some (ms, fn) \<Rightarrow>
          let (finished, s') = run_ops fn s in
          if finished then snd (function_set_interval [JNum ms, JNum (int i)] s') else s')"

definition do_run_timeout :: "nat \<Rightarrow> timers \<Rightarrow> timers" where
  "do_run_timeout i s = js_run_timeout i s"

definition do_run_interval :: "nat \<Rightarrow> timers \<Rightarrow> timers" where
  "do_run_interval i s = js_run_interval i s"

text \<open>One armed timer thread comes to its end.\<close>

definition fire :: "(int \<times> int \<Rightarrow> (int \<times> int) list) \<Rightarrow> nat \<Rightarrow> timers \<Rightarrow> timers" where
  "fire ns k s =
     (if k < length (t_armed s)
      then let (millis, a) = t_armed s ! k;
               s' = s\<lparr>t_armed := take k (t_armed s) @ drop (Suc k) (t_armed s)\<rparr> in
           if timer_thread ns millis = Called_back
           then (case a of Timeout i \<Rightarrow> do_run_timeout i s' | Interval i \<Rightarrow> do_run_interval i s')
           else s'
      else s)"

section \<open>The count of tasks is the number of callbacks\<close>

text \<open>
  The balance: what is stored against what is counted. Ids are given out in increasing order
  while none has wrapped, so a new one is not in the store.
\<close>

definition stored :: "timers \<Rightarrow> int" where
  "stored s = int (card (dom (timeouts s))) + int (card (dom (intervals s)))"

definition ids_ok :: "timers \<Rightarrow> bool" where
  "ids_ok s \<longleftrightarrow> finite (dom (timeouts s)) \<and> finite (dom (intervals s)) \<and>
     (\<forall>i \<in> dom (timeouts s). i \<le> timeout_id s) \<and> (\<forall>i \<in> dom (intervals s). i \<le> interval_id s)"

definition room :: "nat \<Rightarrow> timers \<Rightarrow> bool" where
  "room n s \<longleftrightarrow> timeout_id s + n \<le> 9007199254740991 \<and> interval_id s + n \<le> 9007199254740991"

text \<open>What one operation does to the balance: nothing; and the ids stay ordered.\<close>

definition balanced_to :: "timers \<Rightarrow> timers \<Rightarrow> bool" where
  "balanced_to s s' \<longleftrightarrow> ids_ok s' \<and> stored s' - t_count s' = stored s - t_count s \<and>
     timeout_id s \<le> timeout_id s' \<and> timeout_id s' \<le> timeout_id s + 1 \<and>
     interval_id s \<le> interval_id s' \<and> interval_id s' \<le> interval_id s + 1"

lemma next_id_less: "i < 9007199254740991 \<Longrightarrow> next_id i = i + 1"
  by (simp add: next_id_def)

lemma card_dom_insert: "finite (dom m) \<Longrightarrow> m k = None \<Longrightarrow> card (dom (m(k \<mapsto> v))) = card (dom m) + 1"
  by (simp add: domIff)

lemma card_dom_remove:
  assumes "finite (dom m)" "m k \<noteq> None"
  shows "int (card (dom (m(k := None)))) = int (card (dom m)) - 1"
proof -
  have "0 < card (dom m)" using assms by (auto simp: card_gt_0_iff)
  then show ?thesis using assms by (simp add: card_Diff_singleton_if domIff)
qed

lemma not_stored:
  assumes "ids_ok s"
  shows "timeouts s (Suc (timeout_id s)) = None" "intervals s (Suc (interval_id s)) = None"
proof -
  have "Suc (timeout_id s) \<notin> dom (timeouts s)" "Suc (interval_id s) \<notin> dom (intervals s)"
    using assms unfolding ids_ok_def by (meson Suc_n_not_le_n)+
  then show "timeouts s (Suc (timeout_id s)) = None" "intervals s (Suc (interval_id s)) = None"
    by blast+
qed

lemma nat_id [simp]: "nat (1 + int k) = Suc k"
  by linarith

lemma js_setTimeout_eq:
  "timeout_id s < 9007199254740991 \<Longrightarrow> js_setTimeout fn ms s =
     s\<lparr>timeout_id := Suc (timeout_id s), t_count := t_count s + 1,
       t_armed := t_armed s @ [(c_int ms, Timeout (Suc (timeout_id s)))],
       timeouts := (timeouts s)(Suc (timeout_id s) \<mapsto> fn)\<rparr>"
  by (simp add: js_setTimeout_def function_set_timeout_def next_id_less)

lemma js_setInterval_eq:
  "interval_id s < 9007199254740991 \<Longrightarrow> js_setInterval fn ms s =
     s\<lparr>interval_id := Suc (interval_id s), t_count := t_count s + 1,
       t_armed := t_armed s @ [(c_int ms, Interval (Suc (interval_id s)))],
       intervals := (intervals s)(Suc (interval_id s) \<mapsto> (ms, fn))\<rparr>"
  by (simp add: js_setInterval_def function_set_interval_def next_id_less)

lemma setTimeout_balanced:
  assumes "ids_ok s" "room 1 s"
  shows "balanced_to s (js_setTimeout fn ms s)"
proof -
  have "card (dom ((timeouts s)(Suc (timeout_id s) \<mapsto> fn))) = card (dom (timeouts s)) + 1"
    by (rule card_dom_insert) (use assms not_stored in \<open>simp_all add: ids_ok_def\<close>)
  then show ?thesis
    using assms by (auto simp: js_setTimeout_eq room_def balanced_to_def ids_ok_def stored_def
        simp del: dom_fun_upd)  (auto intro: le_SucI)
qed

lemma setInterval_balanced:
  assumes "ids_ok s" "room 1 s"
  shows "balanced_to s (js_setInterval fn ms s)"
proof -
  have "card (dom ((intervals s)(Suc (interval_id s) \<mapsto> (ms, fn)))) = card (dom (intervals s)) + 1"
    by (rule card_dom_insert) (use assms not_stored in \<open>simp_all add: ids_ok_def\<close>)
  then show ?thesis
    using assms by (auto simp: js_setInterval_eq room_def balanced_to_def ids_ok_def stored_def
        simp del: dom_fun_upd)  (auto intro: le_SucI)
qed

lemma clearTimeout_balanced:
  assumes "ids_ok s"
  shows "balanced_to s (js_clearTimeout i s)" "timeouts (js_clearTimeout i s) = (timeouts s)(i := None)"
  using assms card_dom_remove [of "timeouts s" i]
  by (auto simp: js_clearTimeout_def balanced_to_def ids_ok_def stored_def)

lemma clearInterval_balanced:
  assumes "ids_ok s"
  shows "balanced_to s (js_clearInterval i s)" "timeouts (js_clearInterval i s) = timeouts s"
  using assms card_dom_remove [of "intervals s" i]
  by (auto simp: js_clearInterval_def balanced_to_def ids_ok_def stored_def)

text \<open>A callback's body keeps the balance; the entry \<open>i\<close> is gone iff the body cleared it.\<close>

definition clears :: "nat \<Rightarrow> timer_op list \<Rightarrow> bool" where
  "clears i fn \<longleftrightarrow> Clear_timeout i \<in> set (takeWhile (\<lambda>x. x \<noteq> Throw) fn)"

lemma run_ops_balanced:
  assumes "ids_ok s" "room (length fn) s"
  shows "ids_ok (snd (run_ops fn s)) \<and>
    stored (snd (run_ops fn s)) - t_count (snd (run_ops fn s)) = stored s - t_count s \<and>
    (i \<le> timeout_id s \<longrightarrow>
      (timeouts (snd (run_ops fn s)) i \<noteq> None) = (timeouts s i \<noteq> None \<and> \<not> clears i fn))"
  using assms
proof (induction fn s rule: run_ops.induct)
  case (3 ms fn ops s)
  have b: "balanced_to s (js_setTimeout fn ms s)"
    using 3 by (intro setTimeout_balanced) (auto simp: room_def)
  then have "room (length ops) (js_setTimeout fn ms s)" "ids_ok (js_setTimeout fn ms s)"
    using 3(3) by (auto simp: balanced_to_def room_def)
  moreover have "i \<le> timeout_id s \<longrightarrow> timeouts (js_setTimeout fn ms s) i = timeouts s i"
    using 3(3) by (auto simp: js_setTimeout_eq room_def)
  ultimately show ?case using 3(1) b by (auto simp: balanced_to_def clears_def)
next
  case (4 j ops s)
  have b: "balanced_to s (js_clearTimeout j s)" using 4 by (intro clearTimeout_balanced)
  then have "room (length ops) (js_clearTimeout j s)" "ids_ok (js_clearTimeout j s)"
    using 4(3) by (auto simp: balanced_to_def room_def js_clearTimeout_def)
  then show ?case using 4(1) b 4(2) by (auto simp: balanced_to_def clears_def clearTimeout_balanced)
next
  case (5 ms fn ops s)
  have b: "balanced_to s (js_setInterval fn ms s)"
    using 5 by (intro setInterval_balanced) (auto simp: room_def)
  then have "room (length ops) (js_setInterval fn ms s)" "ids_ok (js_setInterval fn ms s)"
    using 5(3) by (auto simp: balanced_to_def room_def)
  moreover have "timeouts (js_setInterval fn ms s) = timeouts s"
    using 5(3) by (auto simp: js_setInterval_eq room_def)
  ultimately show ?case using 5(1) b by (auto simp: balanced_to_def clears_def)
next
  case (6 j ops s)
  have b: "balanced_to s (js_clearInterval j s)" using 6 by (intro clearInterval_balanced)
  then have "room (length ops) (js_clearInterval j s)" "ids_ok (js_clearInterval j s)"
    using 6(3) by (auto simp: balanced_to_def room_def js_clearInterval_def)
  then show ?case using 6(1) b 6(2) by (auto simp: balanced_to_def clears_def clearInterval_balanced)
qed (auto simp: clears_def)

section \<open>Properties\<close>

text \<open>
  C19. While ids do not wrap, running a timeout's callback keeps the count of tasks equal to the
  number of callbacks stored, so that Planck exits once they are done; but a callback that
  clears its own timeout is counted off twice, which leaves the count one below.
\<close>

theorem run_timeout_balance:
  assumes "ids_ok s" "room (length fn) s" "timeouts s i = Some fn"
  shows "stored (js_run_timeout i s) - t_count (js_run_timeout i s) =
    stored s - t_count s + (if clears i fn then 1 else 0)"
proof -
  let ?s = "snd (run_ops fn s)"
  note body = run_ops_balanced [OF assms(1,2), of i]
  have "i \<le> timeout_id s" using assms(1,3) by (auto simp: ids_ok_def)
  with body assms(3) have i: "(timeouts ?s i \<noteq> None) = (\<not> clears i fn)" by simp
  show ?thesis
  proof (cases "clears i fn")
    case True
    with i have "(timeouts ?s)(i := None) = timeouts ?s" by auto
    with True body assms(3) show ?thesis by (simp add: js_run_timeout_def Let_def stored_def)
  next
    case False
    with i body have "int (card (dom ((timeouts ?s)(i := None)))) = int (card (dom (timeouts ?s))) - 1"
      by (intro card_dom_remove) (auto simp: ids_ok_def)
    with False body assms(3) show ?thesis by (simp add: js_run_timeout_def Let_def stored_def)
  qed
qed

text \<open>
  C20. A timeout's callback is run by its timer exactly if its time is not negative: a thread
  with a negative time gives up on the error of \<open>nanosleep\<close>, its callback stays stored and its
  task outstanding.
\<close>

theorem timeout_fires:
  assumes "nanosleep_ok ns" "- (2 ^ 31) \<le> ms" "ms < 2 ^ 31" "t_armed s = []" "timeout_id s < 9007199254740991"
  shows "fire ns 0 (js_setTimeout fn ms s) =
    (let i = timeout_id s + 1;
         s' = s\<lparr>timeouts := (timeouts s)(i \<mapsto> fn), timeout_id := i, t_count := t_count s + 1\<rparr> in
     if 0 \<le> ms then js_run_timeout i s' else s')"
  using assms
  by (cases s) (simp add: fire_def js_setTimeout_eq c_int_id timer_thread_ends do_run_timeout_def)

definition sample_timers :: timers where
  "sample_timers = \<lparr>timeouts = Map.empty, intervals = Map.empty, timeout_id = 0, interval_id = 0,
     t_count = 0, t_armed = []\<rparr>"

definition sample_sleep :: "int \<times> int \<Rightarrow> (int \<times> int) list" where
  "sample_sleep t = (if timespec_valid t then [(-1, EINTR), (0, 0)] else [(-1, EINVAL)])"

lemma run_timeout_balance_witness:
  "(let s = js_run_timeout 1 (js_setTimeout [Clear_timeout 1] 5 sample_timers) in
    stored s - t_count s) = 1"
proof -
  let ?s = "js_setTimeout [Clear_timeout 1] 5 sample_timers"
  have s: "?s = \<lparr>timeouts = [1 \<mapsto> [Clear_timeout 1]], intervals = Map.empty, timeout_id = 1,
      interval_id = 0, t_count = 1, t_armed = [(5, Timeout 1)]\<rparr>"
    by (simp add: js_setTimeout_def function_set_timeout_def sample_timers_def next_id_def c_int_def)
  have "stored ?s - t_count ?s = 0" unfolding s by (simp add: stored_def)
  moreover have "stored (js_run_timeout 1 ?s) - t_count (js_run_timeout 1 ?s) =
      stored ?s - t_count ?s + (if clears 1 [Clear_timeout 1] then 1 else 0)"
  proof (rule run_timeout_balance)
    show "ids_ok ?s" unfolding s by (simp add: ids_ok_def)
    show "room (length [Clear_timeout 1]) ?s" unfolding s by (simp add: room_def)
    show "timeouts ?s 1 = Some [Clear_timeout 1]" unfolding s by simp
  qed
  ultimately show ?thesis by (simp add: clears_def)
qed

lemma timeout_fires_witness:
  "t_count (fire sample_sleep 0 (js_setTimeout [] (-5) sample_timers)) = 1"
proof -
  have "nanosleep_ok sample_sleep"
    unfolding nanosleep_ok_def sample_sleep_def
    by (auto intro: exI [of _ "Suc 0"])
  then have "fire sample_sleep 0 (js_setTimeout [] (-5) sample_timers) =
     (let i = timeout_id sample_timers + 1;
         s' = sample_timers\<lparr>timeouts := (timeouts sample_timers)(i \<mapsto> []), timeout_id := i,
           t_count := t_count sample_timers + 1\<rparr> in
     if 0 \<le> (-5 :: int) then js_run_timeout i s' else s')"
    by (rule timeout_fires) (simp_all add: sample_timers_def)
  then show ?thesis by (simp add: sample_timers_def)
qed

end
