(* ===== verification/Io.thy ===== *)
theory Io
  imports Growable "HOL-Library.Sublist"
begin

text \<open>
  \<open>io.c\<close> over a model of the file system: a tree of directories and files with a current
  directory, on which the system calls do what POSIX says, permissions, links, \<open>.\<close> and \<open>..\<close>
  left aside. How much \<open>read\<close> and \<open>write\<close> move in one call, and the errors they meet, is a
  list of outcomes; where it ends, the calls move all they can. \<open>errno\<close> is part of the result
  of the functions that leave it for their caller.
\<close>

section \<open>Files\<close>

datatype node = File string | Dir

record filesys =
  nodes :: "string list \<Rightarrow> node option"
  cwd :: "string list"

definition names :: "string \<Rightarrow> string list" where
  "names path = strtok_all CHR ''/'' path"

definition resolve :: "filesys \<Rightarrow> string \<Rightarrow> string list" where
  "resolve fs path =
     (if path \<noteq> [] \<and> hd path = CHR ''/'' then names path else cwd fs @ names path)"

text \<open>The error of looking a path up that is not there.\<close>

definition lookup_err :: "filesys \<Rightarrow> string list \<Rightarrow> int" where
  "lookup_err fs ps =
     (if list_ex (\<lambda>n. case nodes fs (take n ps) of Some (File _) \<Rightarrow> True | _ \<Rightarrow> False) [0..<length ps]
      then ENOTDIR else ENOENT)"

text \<open>The system calls; 0 is success, anything else \<open>errno\<close>.\<close>

definition sys_mkdir :: "string \<Rightarrow> filesys \<Rightarrow> int \<times> filesys" where
  "sys_mkdir path fs =
     (let ps = resolve fs path in
      if path = [] then (ENOENT, fs)
      else if nodes fs ps \<noteq> None then (EEXIST, fs)
      else if nodes fs (butlast ps) \<noteq> Some Dir then (lookup_err fs ps, fs)
      else (0, fs\<lparr>nodes := (nodes fs)(ps \<mapsto> Dir)\<rparr>))"

definition sys_open_read :: "string \<Rightarrow> filesys \<Rightarrow> int + node" where
  "sys_open_read path fs =
     (if path = [] then Inl ENOENT
      else case nodes fs (resolve fs path) of
        None \<Rightarrow> Inl (lookup_err fs (resolve fs path))
      | Some n \<Rightarrow> Inr n)"

text \<open>Opening to write: \<open>excl\<close> is \<open>O_CREAT | O_EXCL\<close>, otherwise the mode is \<open>"w"\<close>.\<close>

definition sys_create :: "bool \<Rightarrow> string \<Rightarrow> filesys \<Rightarrow> int \<times> filesys" where
  "sys_create excl path fs =
     (let ps = resolve fs path in
      if path = [] then (ENOENT, fs)
      else case nodes fs ps of
        Some n \<Rightarrow> if excl then (EEXIST, fs)
          else (case n of Dir \<Rightarrow> (EISDIR, fs) | File _ \<Rightarrow> (0, fs\<lparr>nodes := (nodes fs)(ps \<mapsto> File [])\<rparr>))
      | None \<Rightarrow> if nodes fs (butlast ps) \<noteq> Some Dir then (lookup_err fs ps, fs)
          else (0, fs\<lparr>nodes := (nodes fs)(ps \<mapsto> File [])\<rparr>))"

definition sys_unlink :: "string \<Rightarrow> filesys \<Rightarrow> int \<times> filesys" where
  "sys_unlink path fs =
     (let ps = resolve fs path in
      if path = [] then (ENOENT, fs)
      else case nodes fs ps of
        None \<Rightarrow> (lookup_err fs ps, fs)
      | Some Dir \<Rightarrow> (EISDIR, fs)
      | Some (File _) \<Rightarrow> (0, fs\<lparr>nodes := (nodes fs)(ps := None)\<rparr>))"

definition set_file :: "string \<Rightarrow> string \<Rightarrow> filesys \<Rightarrow> filesys" where
  "set_file path c fs = fs\<lparr>nodes := (nodes fs)(resolve fs path \<mapsto> File c)\<rparr>"

section \<open>Reading a stream to its end\<close>

text \<open>
  \<open>read_all\<close>: the buffer as an array of its \<open>len\<close> bytes, those not yet written being \<open>None\<close>.
  The stream is what is left of it and whether it ends (or fails) there. \<open>None\<close> as result is
  undefined behaviour: a write outside the buffer, or a length that overflows its \<open>int\<close>;
  \<open>Some None\<close> is the NULL pointer.
\<close>

definition CHUNK_SIZE :: nat where "CHUNK_SIZE = 1024"

record rbuf =
  r_data :: "char option list"
  r_offset :: nat

definition read_grow :: "rbuf \<Rightarrow> rbuf option" where
  "read_grow b =
     (let len = length (r_data b) in
      if len - r_offset b < CHUNK_SIZE
      then let new_len = 2 * len + CHUNK_SIZE in
        if new_len < 2 ^ 31 then Some (b\<lparr>r_data := r_data b @ replicate (new_len - len) None\<rparr>) else None
      else Some b)"

definition read_chunk :: "rbuf \<Rightarrow> string \<Rightarrow> rbuf option" where
  "read_chunk b c =
     (if r_offset b + length c \<le> length (r_data b)
      then Some (b\<lparr>r_data := take (r_offset b) (r_data b) @ map Some c @ drop (r_offset b + length c) (r_data b),
        r_offset := r_offset b + length c\<rparr>)
      else None)"

function read_all_loop :: "string \<Rightarrow> bool \<Rightarrow> rbuf \<Rightarrow> char option list option option" where
  "read_all_loop s fails b =
     (let c = take CHUNK_SIZE s in
      case Option.bind (read_grow b) (\<lambda>b1. read_chunk b1 c) of
        None \<Rightarrow> None
      | Some b' \<Rightarrow>
          if length c < CHUNK_SIZE
          then if fails then Some None
            else Some (Some (take (r_offset b') (r_data b') @
              replicate (length (r_data b') - r_offset b') (Some NUL)))
          else read_all_loop (drop CHUNK_SIZE s) fails b')"
  by pat_completeness auto
termination
  by (relation "measure (\<lambda>(s, f, b). length s)") (auto simp: CHUNK_SIZE_def)

declare read_all_loop.simps [simp del]

definition read_all :: "string \<Rightarrow> bool \<Rightarrow> char option list option option" where
  "read_all s fails = read_all_loop s fails \<lparr>r_data = replicate (CHUNK_SIZE + 1) None, r_offset = 0\<rparr>"

section \<open>Whole files\<close>

text \<open>
  \<open>get_contents\<close>: \<open>fread\<close> of one item of the file's size returns 1 only if the file has bytes.
\<close>

definition get_contents :: "string \<Rightarrow> filesys \<Rightarrow> string option" where
  "get_contents path fs =
     (case sys_open_read path fs of
        Inl e \<Rightarrow> None
      | Inr Dir \<Rightarrow> None
      | Inr (File c) \<Rightarrow>
          let n = (if length c = 0 then 0 else 1 :: nat) in
          if n \<noteq> 1 then None else Some c)"

text \<open>
  \<open>write_contents\<close>: what each \<open>fwrite\<close> wrote, as a \<open>size_t\<close>. It is stored in an \<open>int\<close> and added
  to one: a number from 2 GiB on turns negative and ends the function, or, beyond 4 GiB, is cut,
  and a sum from 2 GiB on overflows. In all these cases the model ends with \<open>False\<close>: it does not
  follow the code further. The result is the file and whether the loop came to its end
  (\<open>False\<close>, too, where the outcomes run out).
\<close>

fun write_loop :: "nat list \<Rightarrow> string \<Rightarrow> string \<Rightarrow> string \<times> bool" where
  "write_loop [] rest out = (out, False)"
| "write_loop (k # ks) rest out =
     (let n = min k (length rest) in
      if 2 ^ 31 \<le> length out + n then (out @ take n rest, False)
      else if drop n rest = [] then (out @ take n rest, True)
      else write_loop ks (drop n rest) (out @ take n rest))"

definition write_contents :: "nat list \<Rightarrow> string \<Rightarrow> string \<Rightarrow> filesys \<Rightarrow> filesys \<times> bool" where
  "write_contents ks path contents fs =
     (case sys_create False path fs of
        (e, fs') \<Rightarrow>
          if e \<noteq> 0 then (fs', True)
          else let (out, ended) = write_loop ks contents [] in (set_file path out fs', ended))"

section \<open>Directories\<close>

definition mkdir_p :: "string \<Rightarrow> filesys \<Rightarrow> int \<times> filesys" where
  "mkdir_p path fs =
     (let (e, fs') = sys_mkdir path fs in
      if e \<noteq> 0 \<and> e = EEXIST then (0, fs') else (if e \<noteq> 0 then -1 else 0, fs'))"

text \<open>
  \<open>mkdir_parents\<close>: the path is taken apart at \<open>p\<close>, which runs from the second byte. The result,
  \<open>errno\<close> where it is \<open>-1\<close>, and the file system; the loop starts behind the end of an empty path
  (\<open>None\<close>).
\<close>

fun mkdir_loop :: "string \<Rightarrow> string \<Rightarrow> filesys \<Rightarrow> int \<times> int \<times> filesys" where
  "mkdir_loop pre [] fs =
     (let (e, fs') = sys_mkdir pre fs in
      if e \<noteq> 0 \<and> e \<noteq> EEXIST then (-1, e, fs') else (0, 0, fs'))"
| "mkdir_loop pre (c # cs) fs =
     (if c = CHR ''/''
      then let (e, fs') = sys_mkdir pre fs in
        if e \<noteq> 0 \<and> e \<noteq> EEXIST then (-1, e, fs') else mkdir_loop (pre @ [c]) cs fs'
      else mkdir_loop (pre @ [c]) cs fs)"

definition mkdir_parents :: "string \<Rightarrow> filesys \<Rightarrow> (int \<times> int \<times> filesys) option" where
  "mkdir_parents path fs =
     (if PATH_MAX - 1 < length path then Some (-1, ENAMETOOLONG, fs)
      else case path of [] \<Rightarrow> None | c # cs \<Rightarrow> Some (mkdir_loop [c] cs fs))"

section \<open>Copying\<close>

datatype rres = Rd nat | Rerr int
datatype wres = Wrote nat | Werr int

record io_env =
  io_reads :: "rres list"
  io_writes :: "wres list"
  io_close :: int

text \<open>A \<open>read\<close> delivers at least one byte, and no more than the buffer takes, if there is one.\<close>

fun chunk :: "rres list \<Rightarrow> nat" where
  "chunk (Rd k # _) = min 4096 (Suc k)"
| "chunk _ = 4096"

fun read_err :: "rres list \<Rightarrow> int option" where
  "read_err (Rerr e # _) = Some e"
| "read_err _ = None"

text \<open>Writing a block: whether it was written, \<open>errno\<close>, the target, and the outcomes left.\<close>

fun write_block :: "wres list \<Rightarrow> string \<Rightarrow> string \<Rightarrow> bool \<times> int \<times> string \<times> wres list" where
  "write_block [] blk out = (True, 0, out @ blk, [])"
| "write_block (Wrote k # ws) blk out =
     (let n = min k (length blk) in
      if drop n blk = [] then (True, 0, out @ take n blk, ws)
      else write_block ws (drop n blk) (out @ take n blk))"
| "write_block (Werr e # ws) blk out =
     (if e = EINTR then write_block ws blk out else (False, e, out, ws))"

lemma chunk_pos [simp]: "0 < chunk rs"
  by (induction rs rule: chunk.induct) simp_all

function copy_bytes :: "rres list \<Rightarrow> wres list \<Rightarrow> string \<Rightarrow> string \<Rightarrow> bool \<times> int \<times> string" where
  "copy_bytes rs ws src out =
     (case read_err rs of
        Some e \<Rightarrow> (False, e, out)
      | None \<Rightarrow>
        let blk = take (chunk rs) src in
        if blk = [] then (True, 0, out)
        else case write_block ws blk out of
          (ok, e, out', ws') \<Rightarrow>
            if ok then copy_bytes (tl rs) ws' (drop (chunk rs) src) out' else (False, e, out'))"
  by pat_completeness auto

termination
  by (relation "measure (\<lambda>(rs, ws, src, out). length src)") (auto simp: diff_less)

declare copy_bytes.simps [simp del]

text \<open>The result and \<open>errno\<close>. Reading a directory fails, after the target has been created.\<close>

definition copy_file_loop :: "io_env \<Rightarrow> string \<Rightarrow> string \<Rightarrow> filesys \<Rightarrow> int \<times> int \<times> filesys" where
  "copy_file_loop io from to fs =
     (case sys_open_read from fs of
        Inl e \<Rightarrow> (-1, e, fs)
      | Inr n \<Rightarrow>
        (case sys_create True to fs of
           (e, fs1) \<Rightarrow>
             if e \<noteq> 0 then (-1, e, fs1)
             else case n of
               Dir \<Rightarrow> (-1, EISDIR, fs1)
             | File src \<Rightarrow>
                 (case copy_bytes (io_reads io) (io_writes io) src [] of
                    (ok, e, out) \<Rightarrow>
                      let fs2 = set_file to out fs1 in
                      if \<not> ok then (-1, e, fs2)
                      else if io_close io \<noteq> 0 then (-1, io_close io, fs2)
                      else (0, 0, fs2))))"

definition copy_file_loop_unlinking :: "io_env \<Rightarrow> string \<Rightarrow> string \<Rightarrow> filesys \<Rightarrow> int \<times> int \<times> filesys" where
  "copy_file_loop_unlinking io from to fs =
     (case copy_file_loop io from to fs of
        (rv, e, fs1) \<Rightarrow>
          if rv = -1
          then if e = EEXIST
            then (case sys_unlink to fs1 of
                    (e', fs2) \<Rightarrow> if e' \<noteq> 0 then (-1, e', fs2) else copy_file_loop io from to fs2)
            else (-1, e, fs1)
          else (0, 0, fs1))"

definition copy_file :: "io_env \<Rightarrow> string \<Rightarrow> string \<Rightarrow> filesys \<Rightarrow> int \<times> int \<times> filesys" where
  "copy_file io from to fs = copy_file_loop_unlinking io from to fs"

end
