(* ===== verification/Io_Props.thy ===== *)
theory Io_Props
  imports Io
begin

text \<open>
  The properties of \<open>io.c\<close>: what a file read whole holds, the directories that
  \<open>mkdir_parents\<close> makes, and what copying does to the file system.
\<close>

section \<open>Reading\<close>

definition rbuf_ok :: "string \<Rightarrow> rbuf \<Rightarrow> bool" where
  "rbuf_ok done b \<longleftrightarrow> r_offset b = length done \<and> r_offset b \<le> length (r_data b) \<and>
     take (r_offset b) (r_data b) = map Some done"

text \<open>
  The lengths the buffer goes through, and the greatest that an \<open>int\<close> holds. From the twentieth
  on it is a multiple of the chunk, as the offset always is.
\<close>

definition grown :: "nat \<Rightarrow> nat" where
  "grown k = 2049 * 2 ^ k - 1024"

definition READ_MAX :: nat where
  "READ_MAX = 1074265088"

lemma grown_0: "grown 0 = CHUNK_SIZE + 1"
  by (simp add: grown_def CHUNK_SIZE_def)

lemma grown_pos: "1024 < 2049 * (2 :: nat) ^ k"
proof -
  have "1 \<le> (2 :: nat) ^ k" by simp
  then have "2049 * 1 \<le> 2049 * (2 :: nat) ^ k" by (rule mult_le_mono2)
  then show ?thesis by linarith
qed

lemma grown_Suc: "2 * grown k + CHUNK_SIZE = grown (Suc k)"
  using grown_pos [of k] by (simp add: grown_def CHUNK_SIZE_def)

lemma grown_mono: "j \<le> k \<Longrightarrow> grown j \<le> grown k"
  by (simp add: grown_def diff_le_mono)

lemma grown_max: "grown 19 = READ_MAX"
  by (simp add: grown_def READ_MAX_def)

lemma grown_fits: "grown k < 2 ^ 31 \<longleftrightarrow> k \<le> 19"
proof
  assume "k \<le> 19"
  then have "grown k \<le> grown 19" by (rule grown_mono)
  then show "grown k < 2 ^ 31" by (simp add: grown_max READ_MAX_def)
next
  assume *: "grown k < 2 ^ 31"
  show "k \<le> 19"
  proof (rule ccontr)
    assume "\<not> k \<le> 19"
    then have "grown 20 \<le> grown k" by (intro grown_mono) simp
    then show False using * by (simp add: grown_def)
  qed
qed

definition grown_ok :: "rbuf \<Rightarrow> bool" where
  "grown_ok b \<longleftrightarrow> (\<exists>k \<le> 19. length (r_data b) = grown k) \<and> CHUNK_SIZE dvd r_offset b"

text \<open>The buffer is grown where the chunk does not fit, unless it is full at its greatest length.\<close>

lemma read_grow_ok:
  assumes "rbuf_ok done b" "grown_ok b"
  shows "(read_grow b = None \<longleftrightarrow> r_offset b = READ_MAX) \<and> r_offset b \<le> READ_MAX \<and>
    (\<forall>b1. read_grow b = Some b1 \<longrightarrow> rbuf_ok done b1 \<and> r_offset b1 = r_offset b \<and>
       (\<exists>k \<le> 19. length (r_data b1) = grown k) \<and> r_offset b + CHUNK_SIZE \<le> length (r_data b1))"
proof -
  obtain k m where k: "k \<le> 19" "length (r_data b) = grown k" and m: "r_offset b = 1024 * m"
    using assms(2) by (auto simp: grown_ok_def CHUNK_SIZE_def)
  have off: "r_offset b \<le> grown k" "r_offset b \<le> READ_MAX"
    using assms(1) k grown_mono [of k 19] by (auto simp: rbuf_ok_def grown_max)
  show ?thesis
  proof (cases "grown k - r_offset b < CHUNK_SIZE")
    case enough: False
    then have "r_offset b \<noteq> READ_MAX"
      using off k grown_mono [of k 19] by (auto simp: CHUNK_SIZE_def grown_max)
    moreover have "read_grow b = Some b" using enough k(2) by (simp add: read_grow_def)
    ultimately show ?thesis using enough off assms(1) k by (auto simp: CHUNK_SIZE_def)
  next
    case small: True
    have room: "r_offset b + CHUNK_SIZE \<le> grown (Suc k)"
      using off(1) grown_pos [of k] by (simp add: grown_Suc [symmetric])
    show ?thesis
    proof (cases "k = 19")
      case True
      then have "grown k = 1024 * 1049087" by (simp add: grown_max READ_MAX_def)
      with small off(1) m have "m = 1049087" by (simp add: CHUNK_SIZE_def)
      moreover have "read_grow b = None"
        using small k(2) True grown_fits [of "Suc k"] by (simp add: read_grow_def grown_Suc)
      ultimately show ?thesis using m by (simp add: READ_MAX_def)
    next
      case False
      then have s: "Suc k \<le> 19" using k(1) by simp
      then have "grown (Suc k) < 2 ^ 31" by (simp only: grown_fits)
      then have g: "read_grow b = Some (b\<lparr>r_data := r_data b @ replicate (grown (Suc k) - grown k) None\<rparr>)"
        using small k(2) by (simp add: read_grow_def grown_Suc)
      have le: "grown k \<le> grown (Suc k)" by (rule grown_mono) simp
      have "r_offset b < READ_MAX"
        using room grown_mono [OF s] by (simp add: CHUNK_SIZE_def grown_max)
      moreover have "\<exists>j \<le> 19. length (r_data b @ replicate (grown (Suc k) - grown k) (None :: char option)) = grown j"
        using s le k(2) by (intro exI [of _ "Suc k"]) simp
      ultimately show ?thesis using assms(1) g le room k(2) off(2) by (auto simp: rbuf_ok_def)
    qed
  qed
qed

lemma read_chunk_ok:
  assumes "rbuf_ok done b" "r_offset b + length c \<le> length (r_data b)"
  shows "\<exists>b'. read_chunk b c = Some b' \<and> rbuf_ok (done @ c) b' \<and> length (r_data b') = length (r_data b) \<and>
    r_offset b' = r_offset b + length c"
  using assms by (auto simp: read_chunk_def rbuf_ok_def)

lemma read_all_loop_ok:
  assumes "rbuf_ok done b" "grown_ok b"
  shows "if length (done @ s) < READ_MAX
    then \<exists>k. read_all_loop s fails b =
      Some (if fails then None else Some (map Some (done @ s) @ replicate (Suc k) (Some NUL)))
    else read_all_loop s fails b = None"
  using assms
proof (induction s fails b arbitrary: "done" rule: read_all_loop.induct)
  case (1 s fails b)
  let ?c = "take CHUNK_SIZE s"
  note g = read_grow_ok [OF 1(2,3)]
  have len: "r_offset b = length done" using 1(2) by (simp add: rbuf_ok_def)
  show ?case
  proof (cases "read_grow b")
    case None
    then have "length done = READ_MAX" using g len by simp
    with None show ?thesis by (simp add: read_all_loop.simps [of s])
  next
    case (Some b1)
    then have b1: "rbuf_ok done b1" "r_offset b1 = r_offset b" "r_offset b + CHUNK_SIZE \<le> length (r_data b1)"
        "\<exists>k \<le> 19. length (r_data b1) = grown k" and less: "r_offset b < READ_MAX"
      using g by (auto simp: nat_less_le)
    have "r_offset b1 + length ?c \<le> length (r_data b1)" using b1(2,3) by (simp add: min_def)
    then obtain b' where b': "read_chunk b1 ?c = Some b'" "rbuf_ok (done @ ?c) b'"
        "length (r_data b') = length (r_data b1)" "r_offset b' = r_offset b + length ?c"
      using read_chunk_ok [OF b1(1), of ?c] b1(2) by auto
    show ?thesis
    proof (cases "length ?c < CHUNK_SIZE")
      case True
      then have c: "?c = s" by simp
      have "r_offset b' < length (r_data b')" using b' b1(3) True by linarith
      then obtain k where "length (r_data b') - r_offset b' = Suc k" by (metis Suc_diff_Suc)
      moreover have "take (r_offset b') (r_data b') = map Some (done @ s)"
        using b'(2) c by (auto simp: rbuf_ok_def)
      ultimately have "read_all_loop s fails b =
          Some (if fails then None else Some (map Some (done @ s) @ replicate (Suc k) (Some NUL)))"
        using Some b'(1) True c by (simp add: read_all_loop.simps [of s] min_def split: if_splits)
      moreover have "length (done @ s) < READ_MAX"
      proof -
        obtain m where "length done = 1024 * m" using 1(3) len by (auto simp: grown_ok_def CHUNK_SIZE_def)
        then show ?thesis using less len True c by (simp add: READ_MAX_def CHUNK_SIZE_def)
      qed
      ultimately show ?thesis by auto
    next
      case False
      have e: "(done @ ?c) @ drop CHUNK_SIZE s = done @ s" by simp
      have bind: "Option.bind (read_grow b) (\<lambda>b1. read_chunk b1 ?c) = Some b'" using Some b'(1) by simp
      have "length ?c \<le> CHUNK_SIZE" by simp
      with False have "length ?c = CHUNK_SIZE" by linarith
      then have ok: "grown_ok b'" using 1(3) b1(4) b'(3,4) by (simp add: grown_ok_def)
      have "read_all_loop s fails b = read_all_loop (drop CHUNK_SIZE s) fails b'"
        using bind False by (simp add: read_all_loop.simps [of s])
      then show ?thesis using 1(1) [OF refl bind False b'(2) ok, unfolded e] by simp
    qed
  qed
qed

section \<open>Looking paths up\<close>

lemma resolve_nodes [simp]: "resolve (fs\<lparr>nodes := m\<rparr>) path = resolve fs path"
  by (simp add: resolve_def)

lemma sys_create_ok:
  assumes "sys_create excl path fs = (0, fs')"
  shows "fs' = set_file path [] fs \<and> path \<noteq> []"
  using assms
  by (auto simp: sys_create_def set_file_def Let_def lookup_err_def split: if_splits option.splits node.splits)

lemma write_loop_ended: "write_loop ks rest out = (out', True) \<Longrightarrow> out' = out @ rest"
  by (induction ks rest out rule: write_loop.induct) (auto simp: Let_def min_def split: if_splits)

text \<open>A text of 2 GiB or more is never written to its end.\<close>

lemma write_loop_large: "2 ^ 31 \<le> length out + length rest \<Longrightarrow> \<not> snd (write_loop ks rest out)"
proof (induction ks rest out rule: write_loop.induct)
  case (2 k ks rest out)
  let ?n = "min k (length rest)"
  have "\<not> snd (write_loop ks (drop ?n rest) (out @ take ?n rest))"
    if "\<not> 2 ^ 31 \<le> length out + ?n" "drop ?n rest \<noteq> []"
    by (rule 2(1) [OF refl that]) (use 2(2) in simp)
  then show ?case using 2(2) by (auto simp: Let_def min_def)
qed simp

lemma write_loop_stuck: "rest \<noteq> [] \<Longrightarrow> write_loop (replicate n 0) rest out = (out, False)"
  by (induction n) simp_all

section \<open>Directories\<close>

text \<open>The path names of a string, taken apart at a slash.\<close>

lemma names_rec: "names s = (case strtok_next CHR ''/'' s of None \<Rightarrow> [] | Some (t, s') \<Rightarrow> t # names s')"
  unfolding names_def by (subst strtok_all.simps) simp

lemma names_slash [simp]: "names (CHR ''/'' # s) = names s"
  by (subst (1 2) names_rec) (simp add: strtok_next_def Let_def)

lemma until_slash:
  assumes "CHR ''/'' \<notin> set w"
  shows "dropWhile (\<lambda>x. x \<noteq> CHR ''/'') (w @ CHR ''/'' # s) = CHR ''/'' # s"
    "takeWhile (\<lambda>x. x \<noteq> CHR ''/'') (w @ CHR ''/'' # s) = w"
    "dropWhile (\<lambda>x. x \<noteq> CHR ''/'') w = []" "takeWhile (\<lambda>x. x \<noteq> CHR ''/'') w = w"
  using assms by (induction w) auto

lemma names_word:
  assumes "CHR ''/'' \<notin> set w"
  shows "names (w @ CHR ''/'' # s) = (if w = [] then [] else [w]) @ names s"
proof (cases w)
  case (Cons c cs)
  then have "c \<noteq> CHR ''/''" "CHR ''/'' \<notin> set cs" using assms by auto
  then have "strtok_next CHR ''/'' (w @ CHR ''/'' # s) = Some (w, s)"
    by (simp add: Cons strtok_next_def Let_def until_slash)
  with Cons show ?thesis by (subst names_rec) simp
qed simp

lemma names_last:
  assumes "CHR ''/'' \<notin> set w"
  shows "names w = (if w = [] then [] else [w])"
proof (cases w)
  case Nil
  then show ?thesis by (subst names_rec) (simp add: strtok_next_def)
next
  case (Cons c cs)
  then have "c \<noteq> CHR ''/''" "CHR ''/'' \<notin> set cs" using assms by auto
  then have "strtok_next CHR ''/'' w = Some (w, [])"
    by (simp add: Cons strtok_next_def Let_def until_slash del: dropWhile_eq_Nil_conv takeWhile_eq_all_conv)
  moreover have "names [] = []" by (subst names_rec) (simp add: strtok_next_def)
  ultimately show ?thesis using Cons by (subst names_rec) simp
qed

lemma names_append: "names (s @ CHR ''/'' # t) = names s @ names t"
proof (induction "length s" arbitrary: s rule: less_induct)
  case less
  let ?w = "takeWhile (\<lambda>c. c \<noteq> CHR ''/'') s"
  have w: "CHR ''/'' \<notin> set ?w" by (auto dest: set_takeWhileD)
  show ?case
  proof (cases "dropWhile (\<lambda>c. c \<noteq> CHR ''/'') s")
    case Nil
    then have "?w = s" by (simp add: dropWhile_eq_Nil_conv takeWhile_eq_all_conv)
    with w have "CHR ''/'' \<notin> set s" by simp
    then show ?thesis by (simp add: names_word names_last)
  next
    case (Cons x xs)
    then have "x = CHR ''/''" using hd_dropWhile [of "\<lambda>c. c \<noteq> CHR ''/''" s] by auto
    with Cons have s: "s = ?w @ CHR ''/'' # xs" by (metis takeWhile_dropWhile_id)
    have "length xs < length s" by (subst s) simp
    with less have "names (xs @ CHR ''/'' # t) = names xs @ names t" by blast
    moreover have "names s = (if ?w = [] then [] else [?w]) @ names xs"
      by (subst s) (simp only: names_word [OF w])
    moreover have "names (s @ CHR ''/'' # t) = names (?w @ CHR ''/'' # (xs @ CHR ''/'' # t))"
      by (subst s) simp
    ultimately show ?thesis by (simp add: names_word [OF w])
  qed
qed

text \<open>
  What \<open>mkdir_parents\<close> is to make: every prefix of the path that is not there a directory.
\<close>

definition mk_all :: "string list \<Rightarrow> filesys \<Rightarrow> filesys" where
  "mk_all ps fs = fs\<lparr>nodes := \<lambda>q. if prefix q ps \<and> nodes fs q = None then Some Dir else nodes fs q\<rparr>"

definition all_dirs :: "string list \<Rightarrow> filesys \<Rightarrow> bool" where
  "all_dirs ps fs \<longleftrightarrow> (\<forall>q. prefix q ps \<longrightarrow> nodes fs q = Some Dir)"

definition no_file_on :: "string list \<Rightarrow> filesys \<Rightarrow> bool" where
  "no_file_on ps fs \<longleftrightarrow> (\<forall>q c. prefix q ps \<longrightarrow> nodes fs q \<noteq> Some (File c))"

lemma node_dir: "n \<noteq> None \<Longrightarrow> (\<And>c. n \<noteq> Some (File c)) \<Longrightarrow> n = Some Dir"
  by (cases n) (auto, metis node.exhaust)

lemma all_dirs_mk_all: "no_file_on ps fs \<Longrightarrow> all_dirs ps (mk_all ps fs)"
  by (auto simp: all_dirs_def mk_all_def no_file_on_def intro: node_dir)

lemma mk_all_dirs: "all_dirs ps fs \<Longrightarrow> mk_all ps fs = fs"
  by (auto simp: mk_all_def all_dirs_def intro!: filesys.equality)

lemma mk_all_twice: "prefix ps qs \<Longrightarrow> mk_all qs (mk_all ps fs) = mk_all qs fs"
  by (cases fs) (auto simp: mk_all_def fun_eq_iff dest: prefix_order.trans)

lemma no_file_mk_all: "no_file_on qs fs \<Longrightarrow> no_file_on qs (mk_all ps fs)"
  by (auto simp: mk_all_def no_file_on_def)

lemma no_file_prefix: "no_file_on qs fs \<Longrightarrow> prefix ps qs \<Longrightarrow> no_file_on ps fs"
  by (auto simp: no_file_on_def dest: prefix_order.trans)

lemma resolve_mk_all [simp]: "resolve (mk_all ps fs) path = resolve fs path"
  by (simp add: mk_all_def)

text \<open>One \<open>mkdir\<close> below directories makes the prefixes of its path, or finds them made.\<close>

lemma sys_mkdir_mk_all:
  assumes "path \<noteq> []" "resolve fs path = ps @ w" "length w \<le> 1" "all_dirs ps fs" "no_file_on (ps @ w) fs"
  shows "\<exists>e. sys_mkdir path fs = (e, mk_all (ps @ w) fs) \<and> (e = 0 \<or> e = EEXIST)"
proof (cases "nodes fs (ps @ w)")
  case None
  then have "w \<noteq> []" using assms(4) by (auto simp: all_dirs_def)
  with assms(3) obtain x where w: "w = [x]" by (cases w) auto
  have "mk_all (ps @ w) fs = fs\<lparr>nodes := (nodes fs)(ps @ w \<mapsto> Dir)\<rparr>"
  proof -
    have "(\<lambda>q. if prefix q (ps @ w) \<and> nodes fs q = None then Some Dir else nodes fs q) =
        (nodes fs)(ps @ w \<mapsto> Dir)"
      using assms(4) None w by (auto simp: all_dirs_def fun_eq_iff)
    then show ?thesis by (simp only: mk_all_def)
  qed
  moreover have "nodes fs ps = Some Dir" using assms(4) by (simp add: all_dirs_def)
  ultimately show ?thesis using None assms(1,2) w by (auto simp: sys_mkdir_def Let_def butlast_append)
next
  case (Some n)
  then have "nodes fs (ps @ w) = Some Dir" using assms(5) by (intro node_dir) (auto simp: no_file_on_def)
  then have "all_dirs (ps @ w) fs"
    using assms(3,4) by (cases w) (auto simp: all_dirs_def)
  with Some assms(1,2) show ?thesis by (simp add: sys_mkdir_def Let_def mk_all_dirs)
qed

text \<open>The loop over the bytes of one name passes over them.\<close>

lemma mkdir_loop_word:
  "CHR ''/'' \<notin> set w \<Longrightarrow> mkdir_loop pre (w @ rest) fs = mkdir_loop (pre @ w) rest fs"
  by (induction w arbitrary: pre) auto

definition at_name :: "string \<Rightarrow> bool" where
  "at_name pre \<longleftrightarrow> pre = [] \<or> last pre = CHR ''/''"

lemma resolve_word:
  assumes "at_name pre" "CHR ''/'' \<notin> set w"
  shows "resolve fs (pre @ w) = resolve fs pre @ (if w = [] then [] else [w])"
proof (cases "pre = []")
  case True
  with assms(2) show ?thesis by (cases w) (auto simp: resolve_def names_last)
next
  case False
  with assms(1) obtain s where s: "pre = s @ [CHR ''/'']" by (metis at_name_def append_butlast_last_id)
  have "names (pre @ w) = names pre @ names w"
    using names_append [of s w] names_append [of s "[]"] unfolding s by (simp add: names_last)
  moreover have "hd (pre @ w) = hd pre" using False by simp
  ultimately show ?thesis using False assms(2) by (simp add: resolve_def names_last)
qed

lemma resolve_slash:
  assumes "pre \<noteq> []"
  shows "resolve fs (pre @ [CHR ''/'']) = resolve fs pre"
  using assms names_append [of pre "[]"] by (simp add: resolve_def names_last)

lemma resolve_prefix: "pre \<noteq> [] \<Longrightarrow> prefix (resolve fs pre) (resolve fs (pre @ CHR ''/'' # rest))"
  using names_append [of pre rest] by (simp add: resolve_def)

lemma mkdir_loop_mk_all:
  assumes "at_name pre" "pre = [] \<Longrightarrow> rest \<noteq> [] \<and> hd rest \<noteq> CHR ''/''"
    "all_dirs (resolve fs pre) fs" "no_file_on (resolve fs (pre @ rest)) fs"
  shows "mkdir_loop pre rest fs = (0, 0, mk_all (resolve fs (pre @ rest)) fs)"
  using assms
proof (induction "length rest" arbitrary: pre rest fs rule: less_induct)
  case less
  let ?w = "takeWhile (\<lambda>c. c \<noteq> CHR ''/'') rest"
  let ?ps = "resolve fs (pre @ ?w)"
  have w: "CHR ''/'' \<notin> set ?w" by (auto dest: set_takeWhileD)
  have ne: "pre @ ?w \<noteq> []" using less.prems(2) by (cases rest) auto
  have ps: "?ps = resolve fs pre @ (if ?w = [] then [] else [?w])"
    by (rule resolve_word [OF less.prems(1) w])
  have mkdir: "\<exists>e. sys_mkdir (pre @ ?w) fs = (e, mk_all ?ps fs) \<and> (e = 0 \<or> e = EEXIST)"
    if "no_file_on ?ps fs"
    using sys_mkdir_mk_all [OF ne ps _ less.prems(3) that [unfolded ps]] unfolding ps by simp
  show ?case
  proof (cases "dropWhile (\<lambda>c. c \<noteq> CHR ''/'') rest")
    case Nil
    then have r: "?w = rest" by (simp add: dropWhile_eq_Nil_conv takeWhile_eq_all_conv)
    have "mkdir_loop pre rest fs = mkdir_loop (pre @ rest) [] fs"
      using mkdir_loop_word [OF w, of pre "[]" fs] by (simp add: r)
    moreover have "no_file_on ?ps fs" using less.prems(4) by (simp only: r)
    then obtain e where "sys_mkdir (pre @ ?w) fs = (e, mk_all ?ps fs)" "e = 0 \<or> e = EEXIST"
      using mkdir by blast
    ultimately show ?thesis unfolding r by auto
  next
    case (Cons x xs)
    then have "x = CHR ''/''" using hd_dropWhile [of "\<lambda>c. c \<noteq> CHR ''/''" rest] by auto
    with Cons have r: "rest = ?w @ CHR ''/'' # xs" by (metis takeWhile_dropWhile_id)
    have pre: "prefix ?ps (resolve fs (pre @ rest))"
      using resolve_prefix [OF ne, of fs xs] by (subst (2) r) simp
    then have nf: "no_file_on ?ps fs" using less.prems(4) by (rule no_file_prefix [rotated])
    obtain e where e: "sys_mkdir (pre @ ?w) fs = (e, mk_all ?ps fs)" "e = 0 \<or> e = EEXIST"
      using mkdir [OF nf] by blast
    let ?fs = "mk_all ?ps fs" and ?pre = "(pre @ ?w) @ [CHR ''/'']"
    have "mkdir_loop pre rest fs = mkdir_loop (pre @ ?w) (CHR ''/'' # xs) fs"
      by (subst r) (rule mkdir_loop_word [OF w])
    also have "\<dots> = mkdir_loop ?pre xs ?fs" using e by auto
    also have "\<dots> = (0, 0, mk_all (resolve ?fs (?pre @ xs)) ?fs)"
    proof (rule less.hyps)
      show "length xs < length rest" by (subst r) simp
      show "at_name ?pre" by (simp add: at_name_def)
      show "all_dirs (resolve ?fs ?pre) ?fs"
        using all_dirs_mk_all [OF nf] resolve_slash [OF ne, of fs] by simp
      have "?pre @ xs = pre @ rest" by (subst (2) r) simp
      then show "no_file_on (resolve ?fs (?pre @ xs)) ?fs"
        using no_file_mk_all [OF less.prems(4)] by simp
    qed simp
    also have "?pre @ xs = pre @ rest" by (subst (2) r) simp
    finally show ?thesis using mk_all_twice [OF pre] by simp
  qed
qed

text \<open>A path inside the tree: its own prefixes and the current directory are no files.\<close>

lemma mkdir_parents_mk_all:
  assumes "path \<noteq> []" "length path < PATH_MAX" "all_dirs (cwd fs) fs" "no_file_on (resolve fs path) fs"
  shows "mkdir_parents path fs = Some (0, 0, mk_all (resolve fs path) fs)"
proof -
  obtain c cs where path: "path = c # cs" using assms(1) by (cases path) auto
  show ?thesis
  proof (cases "c = CHR ''/''")
    case True
    have "nodes fs [] = Some Dir" using assms(3) by (simp add: all_dirs_def)
    moreover have "names [CHR ''/''] = []" by (simp add: names_last)
    ultimately have "mkdir_loop [c] cs fs = (0, 0, mk_all (resolve fs ([c] @ cs)) fs)"
      using assms(4) True path
      by (intro mkdir_loop_mk_all) (auto simp: at_name_def resolve_def all_dirs_def)
    then show ?thesis using assms(2) path by (simp add: mkdir_parents_def)
  next
    case False
    have "mkdir_loop [] path fs = (0, 0, mk_all (resolve fs ([] @ path)) fs)"
      using assms(3,4) False path
      by (intro mkdir_loop_mk_all) (auto simp: at_name_def resolve_def names_last)
    then show ?thesis using assms(2) path False by (simp add: mkdir_parents_def)
  qed
qed

section \<open>Copying\<close>

text \<open>Where no write fails but for interruptions, a block is written and so is the file.\<close>

definition interrupted :: "wres \<Rightarrow> bool" where
  "interrupted w \<longleftrightarrow> (case w of Wrote _ \<Rightarrow> True | Werr e \<Rightarrow> e = EINTR)"

definition delivers :: "rres \<Rightarrow> bool" where
  "delivers r \<longleftrightarrow> (case r of Rd _ \<Rightarrow> True | Rerr _ \<Rightarrow> False)"

lemma write_block_ok:
  "list_all interrupted ws \<Longrightarrow>
   \<exists>ws'. write_block ws blk out = (True, 0, out @ blk, ws') \<and> list_all interrupted ws'"
proof (induction ws blk out rule: write_block.induct)
  case (2 k ws blk out)
  show ?case
  proof (cases "drop (min k (length blk)) blk = []")
    case True
    then have "take (min k (length blk)) blk = blk" by (simp add: min_def split: if_splits)
    with 2(2) True show ?thesis by simp
  next
    case False
    have "(out @ take (min k (length blk)) blk) @ drop (min k (length blk)) blk = out @ blk" by simp
    with 2 False show ?thesis by (simp del: append_assoc)
  qed
qed (auto simp: interrupted_def)

lemma copy_bytes_ok:
  "list_all delivers rs \<Longrightarrow> list_all interrupted ws \<Longrightarrow> copy_bytes rs ws src out = (True, 0, out @ src)"
proof (induction rs ws src out rule: copy_bytes.induct)
  case (1 rs ws src out)
  let ?blk = "take (chunk rs) src"
  from 1(2) have rs: "read_err rs = None" "list_all delivers (tl rs)"
    by (induction rs rule: read_err.induct) (simp_all add: delivers_def)
  show ?case
  proof (cases "src = []")
    case True
    then show ?thesis by (simp add: copy_bytes.simps [of rs] rs)
  next
    case False
    have "0 < chunk rs" by simp
    with False have ne: "?blk \<noteq> []" by simp
    obtain ws' where w: "write_block ws ?blk out = (True, 0, out @ ?blk, ws')" "list_all interrupted ws'"
      using write_block_ok [OF 1(3)] by blast
    have "copy_bytes (tl rs) ws' (drop (chunk rs) src) (out @ ?blk) = (True, 0, (out @ ?blk) @ drop (chunk rs) src)"
      by (rule 1(1) [OF rs(1) refl ne w(1) [symmetric] refl refl TrueI rs(2) w(2)])
    with w ne rs show ?thesis by (simp add: copy_bytes.simps [of rs])
  qed
qed

lemma set_file_nodes [simp]:
  "nodes (set_file path c fs) = (nodes fs)(resolve fs path \<mapsto> File c)"
  "resolve (set_file path c fs) p = resolve fs p"
  by (simp_all add: set_file_def)

lemma set_file_twice [simp]: "set_file path c (set_file path d fs) = set_file path c fs"
  by (simp add: set_file_def)

lemma sys_create_new:
  "path \<noteq> [] \<Longrightarrow> nodes fs (resolve fs path) = None \<Longrightarrow> nodes fs (butlast (resolve fs path)) = Some Dir \<Longrightarrow>
   sys_create excl path fs = (0, set_file path [] fs)"
  by (simp add: sys_create_def set_file_def Let_def)

lemma sys_create_exists:
  "path \<noteq> [] \<Longrightarrow> nodes fs (resolve fs path) = Some n \<Longrightarrow> sys_create True path fs = (EEXIST, fs)"
  by (simp add: sys_create_def Let_def)

lemma sys_open_file:
  "path \<noteq> [] \<Longrightarrow> nodes fs (resolve fs path) = Some n \<Longrightarrow> sys_open_read path fs = Inr n"
  by (simp add: sys_open_read_def)

lemma copy_file_loop_new:
  assumes "list_all delivers (io_reads io)" "list_all interrupted (io_writes io)" "io_close io = 0"
    "from \<noteq> []" "to \<noteq> []" "nodes fs (resolve fs from) = Some (File src)"
    "nodes fs (resolve fs to) = None" "nodes fs (butlast (resolve fs to)) = Some Dir"
  shows "copy_file_loop io from to fs = (0, 0, set_file to src fs)"
  using assms copy_bytes_ok [OF assms(1,2), of src "[]"]
  by (simp add: copy_file_loop_def sys_open_file sys_create_new)

section \<open>Properties\<close>

text \<open>
  C21. On a stream of fewer than 1074265088 bytes \<open>read_all\<close> stays inside its buffer, and if the
  stream ends without an error it returns its bytes followed by NULs, at least one of them, with
  no byte of the buffer left unset. On a longer one the \<open>int\<close> for the length of the buffer
  overflows.
\<close>

theorem read_all_whole:
  "if length s < 1074265088
   then \<exists>k. read_all s fails =
     Some (if fails then None else Some (map Some s @ replicate (Suc k) (Some NUL)))
   else read_all s fails = None"
proof -
  let ?b = "\<lparr>r_data = replicate (CHUNK_SIZE + 1) None, r_offset = 0\<rparr>"
  have "rbuf_ok [] ?b" "grown_ok ?b"
    using grown_0 by (auto simp: rbuf_ok_def grown_ok_def intro!: exI [of _ 0])
  from read_all_loop_ok [OF this, of s fails] show ?thesis
    unfolding read_all_def READ_MAX_def append_Nil .
qed

text \<open>
  C22. What \<open>write_contents\<close> has written whole \<open>get_contents\<close> gives back, except that an empty
  file counts as one that could not be read.
\<close>

theorem write_then_get:
  assumes "write_contents ks path c fs = (fs', True)" "fst (sys_create False path fs) = 0"
  shows "get_contents path fs' = (if c = [] then None else Some c)"
proof -
  obtain fs1 where fs1: "sys_create False path fs = (0, fs1)" using assms(2) by (metis prod.collapse)
  note create = sys_create_ok [OF fs1]
  obtain out where out: "write_loop ks c [] = (out, True)" "fs' = set_file path out fs1"
    using assms(1) fs1 by (auto simp: write_contents_def split: prod.splits)
  with write_loop_ended [OF out(1)] create show ?thesis
    by (simp add: get_contents_def sys_open_file)
qed

text \<open>
  C23. Where neither the path nor anything above it is a file, \<open>mkdir_parents\<close> succeeds, and
  what it changes is that every directory on the path that was missing is there.
\<close>

theorem mkdir_parents_makes:
  assumes "path \<noteq> []" "length path < PATH_MAX" "all_dirs (cwd fs) fs" "no_file_on (resolve fs path) fs"
  shows "\<exists>fs'. mkdir_parents path fs = Some (0, 0, fs') \<and> all_dirs (resolve fs path) fs' \<and>
    (\<forall>q. \<not> prefix q (resolve fs path) \<longrightarrow> nodes fs' q = nodes fs q)"
  using mkdir_parents_mk_all [OF assms] all_dirs_mk_all [OF assms(4)]
  by (auto simp: mk_all_def)

text \<open>
  C24. Where reading meets no error and writing none but interruptions, \<open>copy_file\<close> makes the
  target a copy of the source, whatever the calls move at a time, and changes nothing else; a
  file that was there is replaced.
\<close>

theorem copy_file_copies:
  assumes "list_all delivers (io_reads io)" "list_all interrupted (io_writes io)" "io_close io = 0"
    "from \<noteq> []" "to \<noteq> []" "resolve fs from \<noteq> resolve fs to"
    "nodes fs (resolve fs from) = Some (File src)" "nodes fs (resolve fs to) \<noteq> Some Dir"
    "nodes fs (butlast (resolve fs to)) = Some Dir" "resolve fs to \<noteq> []"
  shows "copy_file io from to fs = (0, 0, set_file to src fs)"
proof (cases "nodes fs (resolve fs to)")
  case None
  with copy_file_loop_new [OF assms(1-5,7)] assms(9) show ?thesis
    by (simp add: copy_file_def copy_file_loop_unlinking_def)
next
  case (Some n)
  then obtain c where n: "n = File c" using assms(8) by (cases n) auto
  let ?fs = "fs\<lparr>nodes := (nodes fs)(resolve fs to := None)\<rparr>"
  have "copy_file_loop io from to fs = (-1, EEXIST, fs)"
    using assms(4,5,7) Some by (simp add: copy_file_loop_def sys_open_file sys_create_exists)
  moreover have "sys_unlink to fs = (0, ?fs)" using Some n assms(5) by (simp add: sys_unlink_def Let_def)
  moreover have "butlast (resolve fs to) \<noteq> resolve fs to" using assms(10) by (metis append_butlast_last_id not_Cons_self2 self_append_conv)
  then have "copy_file_loop io from to ?fs = (0, 0, set_file to src ?fs)"
    using assms by (intro copy_file_loop_new) simp_all
  moreover have "set_file to src ?fs = set_file to src fs" by (simp add: set_file_def)
  ultimately show ?thesis by (simp add: copy_file_def copy_file_loop_unlinking_def)
qed

text \<open>
  C25. Copying a file onto itself loses it: the target exists, is unlinked, and then the source
  cannot be opened.
\<close>

theorem copy_onto_itself_deletes:
  assumes "from \<noteq> []" "to \<noteq> []" "resolve fs from = resolve fs to"
    "nodes fs (resolve fs to) = Some (File src)"
  shows "\<exists>e fs'. copy_file io from to fs = (-1, e, fs') \<and> nodes fs' (resolve fs to) = None"
proof -
  let ?fs = "fs\<lparr>nodes := (nodes fs)(resolve fs to := None)\<rparr>"
  have "copy_file_loop io from to fs = (-1, EEXIST, fs)"
    using assms by (simp add: copy_file_loop_def sys_open_file sys_create_exists)
  moreover have "sys_unlink to fs = (0, ?fs)" using assms by (simp add: sys_unlink_def Let_def)
  moreover have "copy_file_loop io from to ?fs = (-1, lookup_err ?fs (resolve fs to), ?fs)"
    using assms by (simp add: copy_file_loop_def sys_open_read_def)
  ultimately show ?thesis by (simp add: copy_file_def copy_file_loop_unlinking_def)
qed

section \<open>Witnesses\<close>

definition sample_fs :: filesys where
  "sample_fs = \<lparr>nodes = [[] \<mapsto> Dir, [''tmp''] \<mapsto> Dir, [''tmp'', ''a''] \<mapsto> File ''text''], cwd = [''tmp'']\<rparr>"

lemma sample_paths:
  "resolve sample_fs ''a'' = [''tmp'', ''a'']" "resolve sample_fs ''b'' = [''tmp'', ''b'']"
  "resolve sample_fs ''/tmp/a'' = [''tmp'', ''a'']" "resolve sample_fs ''c/d'' = [''tmp'', ''c'', ''d'']"
  using names_word [of "''tmp''" "''a''"] names_word [of "''c''" "''d''"]
  by (simp_all add: resolve_def sample_fs_def names_last)

lemma prefix_rec: "prefix q (x # xs) \<longleftrightarrow> q = [] \<or> (\<exists>zs. q = x # zs \<and> prefix zs xs)"
  by (cases q) auto

lemma write_then_get_witness:
  "get_contents ''b'' (fst (write_contents [2, 9] ''b'' ''xyz'' sample_fs)) = Some ''xyz''"
proof -
  have "sys_create False ''b'' sample_fs = (0, set_file ''b'' [] sample_fs)"
    by (rule sys_create_new) (simp_all add: sample_paths, simp_all add: sample_fs_def)
  then show ?thesis
    using write_then_get [of "[2, 9]" "''b''" "''xyz''" sample_fs] by (simp add: write_contents_def)
qed

lemma mkdir_parents_makes_witness:
  "\<exists>fs'. mkdir_parents ''c/d'' sample_fs = Some (0, 0, fs') \<and> all_dirs [''tmp'', ''c'', ''d''] fs'"
proof -
  have "all_dirs (cwd sample_fs) sample_fs"
    by (auto simp: all_dirs_def sample_fs_def prefix_rec)
  moreover have "no_file_on (resolve sample_fs ''c/d'') sample_fs"
    unfolding sample_paths by (auto simp: no_file_on_def sample_fs_def prefix_rec)
  ultimately show ?thesis
    using mkdir_parents_makes [of "''c/d''" sample_fs] unfolding sample_paths by auto
qed

lemma copy_file_copies_witness:
  "copy_file \<lparr>io_reads = [Rd 1], io_writes = [Wrote 1, Werr EINTR], io_close = 0\<rparr> ''a'' ''b'' sample_fs =
    (0, 0, set_file ''b'' ''text'' sample_fs)"
  by (rule copy_file_copies)
     (simp_all add: sample_paths delivers_def interrupted_def, simp_all add: sample_fs_def)

lemma copy_onto_itself_deletes_witness:
  "\<exists>e fs'. copy_file \<lparr>io_reads = [], io_writes = [], io_close = 0\<rparr> ''a'' ''/tmp/a'' sample_fs = (-1, e, fs') \<and>
    nodes fs' [''tmp'', ''a''] = None"
  using copy_onto_itself_deletes [of "''a''" "''/tmp/a''" sample_fs "''text''"]
  unfolding sample_paths by (simp add: sample_fs_def)

end
