(* ===== verification/Repl.thy ===== *)
theory Repl
  imports Str History
begin

text \<open>
  \<open>repl.c\<close>: the state of a session, its prompts, and \<open>process_line\<close>, which collects lines until
  they are readable and evaluates the forms in them.

  The engine is behind the functions of \<open>engine\<close>: whether a text begins with a readable form (it
  gives back the text after it), evaluation (it leaves the exit value), the current namespace and
  the indentation. Lines and the collected input are blocks of memory, whose owner changes on the
  way, so they carry an address and the world knows which blocks are live; the other strings of a
  session are values. \<open>Bad\<close> is undefined behaviour: freeing a block that is not live, reading one,
  or writing outside one.
\<close>

section \<open>State\<close>

type_synonym blk = "nat \<times> string"

record repl =
  current_ns :: string
  current_prompt :: "string option"
  history_path :: "string option"
  input :: "blk option"
  indent_space_count :: int
  previous_lines :: "string list"
  session_id :: int

definition make_repl :: repl where
  "make_repl = \<lparr>current_ns = ''cljs.user'', current_prompt = None, history_path = None, input = None,
     indent_space_count = 0, previous_lines = [], session_id = 0\<rparr>"

definition empty_previous_lines :: "repl \<Rightarrow> repl" where
  "empty_previous_lines r = r\<lparr>previous_lines := []\<rparr>"

text \<open>The fields of the configuration that the REPL reads.\<close>

record cfg =
  dumb_terminal :: bool
  cfg_theme :: string
  cfg_quiet :: bool
  hist_max :: nat

record 'e engine =
  is_readable :: "'e \<Rightarrow> string \<Rightarrow> string option"
  evaluate :: "string \<Rightarrow> string \<Rightarrow> int \<Rightarrow> string \<Rightarrow> 'e \<Rightarrow> 'e \<times> int"
  get_current_ns :: "'e \<Rightarrow> string option"
  indent_of :: "'e \<Rightarrow> string \<Rightarrow> int"
  print_newline :: "'e \<Rightarrow> bool"

text \<open>
  What the REPL does to the outside: evaluations (text, namespace, theme, session, whether the
  terminal size is given out, whether interrupts are caught), and output.
\<close>

datatype repl_event =
    Evaluated string string string int bool bool
  | Printed string
  | To_socket int string

datatype sender = To_stderr | Print_now | To_sock

record 'e world =
  w_engine :: 'e
  w_live :: "nat set"
  w_next :: nat
  w_history :: "string list"
  w_saved :: "(string \<times> string) option"
  w_exit :: int
  w_events :: "repl_event list"
  w_locked :: bool
  w_sender :: sender
  w_sock :: int

datatype 'a run_result = Fine 'a | Quit int | Bad | Endless

fun andthen :: "'a run_result \<Rightarrow> ('a \<Rightarrow> 'b run_result) \<Rightarrow> 'b run_result" where
  "andthen (Fine x) f = f x"
| "andthen (Quit n) f = Quit n"
| "andthen Bad f = Bad"
| "andthen Endless f = Endless"

section \<open>Blocks\<close>

definition new_blk :: "string \<Rightarrow> 'e world \<Rightarrow> blk \<times> 'e world" where
  "new_blk s w = ((w_next w, s), w\<lparr>w_live := insert (w_next w) (w_live w), w_next := Suc (w_next w)\<rparr>)"

definition free_blk :: "blk \<Rightarrow> 'e world \<Rightarrow> 'e world run_result" where
  "free_blk b w = (if fst b \<in> w_live w then Fine (w\<lparr>w_live := w_live w - {fst b}\<rparr>) else Bad)"

text \<open>Reading the text of a block.\<close>

definition read_blk :: "blk \<Rightarrow> 'e world \<Rightarrow> string run_result" where
  "read_blk b w = (if fst b \<in> w_live w then Fine (snd b) else Bad)"

text \<open>\<open>free\<close> of a pointer that may be NULL.\<close>

definition free_opt :: "blk option \<Rightarrow> 'e world \<Rightarrow> 'e world run_result" where
  "free_opt b w = (case b of None \<Rightarrow> Fine w | Some b \<Rightarrow> free_blk b w)"

definition emit_event :: "repl_event \<Rightarrow> 'e world \<Rightarrow> 'e world" where
  "emit_event ev w = w\<lparr>w_events := w_events w @ [ev]\<rparr>"

section \<open>Prompts and input\<close>

definition SEC_PROMPT :: string where "SEC_PROMPT = ''#_=> ''"

definition form_prompt :: "cfg \<Rightarrow> repl \<Rightarrow> bool \<Rightarrow> string option" where
  "form_prompt c r is_secondary =
     (let prefix_min_len = 2; ns = current_ns r; dumb = (session_id r \<noteq> 0 \<or> dumb_terminal c) in
      if \<not> is_secondary
      then if length ns < prefix_min_len \<and> \<not> dumb_terminal c
        then Some ('' '' @ ns @ ''=> '') else Some (str_concat ns ''=> '')
      else if \<not> dumb
        then let extra = (if length ns < prefix_min_len then 0 else length ns - prefix_min_len) in
          Some (replicate extra CHR '' '' @ SEC_PROMPT)
        else None)"

text \<open>\<open>get_input\<close>: what \<open>getline\<close> gave, its newline included.\<close>

definition get_input :: "string option \<Rightarrow> string option" where
  "get_input l =
     (case l of None \<Rightarrow> None
      | Some s \<Rightarrow> if s \<noteq> [] \<and> last s = CHR 0x0A then Some (butlast s) else Some s)"

definition display_prompt :: "string option \<Rightarrow> 'e world \<Rightarrow> 'e world" where
  "display_prompt p w = (case p of None \<Rightarrow> w | Some s \<Rightarrow> emit_event (Printed s) w)"

definition is_whitespace :: "string \<Rightarrow> bool" where
  "is_whitespace s = list_all isspace s"

definition is_exit_command :: "string \<Rightarrow> bool \<Rightarrow> bool" where
  "is_exit_command s is_socket_repl \<longleftrightarrow>
     s = '':cljs/quit'' \<or> s = ''quit'' \<or> s = ''exit'' \<or> s = [CHR 0x04] \<or>
     (is_socket_repl \<and> s = '':repl/quit'')"

section \<open>process\_line\<close>

text \<open>
  One readable form at the front of the input, \<open>balance\<close> being the text behind it: it is
  evaluated, unless blank. \<open>Inl\<close>: the evaluation set an exit value.
\<close>

definition evaluate_form :: "'e engine \<Rightarrow> cfg \<Rightarrow> repl \<Rightarrow> string \<Rightarrow> 'e world \<Rightarrow> bool \<times> 'e world" where
  "evaluate_form eng c r form w =
     (if \<not> is_whitespace form
      then let local = (session_id r = 0);
               theme = (if local then cfg_theme c else ''dumb'');
               (e, x) = evaluate eng (current_ns r) theme (session_id r) form (w_engine w);
               w1 = emit_event (Evaluated form (current_ns r) theme (session_id r) (\<not> dumb_terminal c) local)
                      (w\<lparr>w_engine := e, w_exit := x\<rparr>) in
           (x \<noteq> 0, w1)
      else (False, emit_event (Printed [CHR 0x0A]) w))"

definition update_ns :: "'e engine \<Rightarrow> cfg \<Rightarrow> 'e world \<Rightarrow> repl \<Rightarrow> repl" where
  "update_ns eng c w r =
     (case get_current_ns eng (w_engine w) of
        None \<Rightarrow> r
      | Some ns \<Rightarrow> let r' = r\<lparr>current_ns := ns\<rparr> in r'\<lparr>current_prompt := form_prompt c r' False\<rparr>)"

text \<open>Reading what the session has collected; the NULL pointer is not read.\<close>

definition read_input :: "repl \<Rightarrow> 'e world \<Rightarrow> string run_result" where
  "read_input r w = (case input r of None \<Rightarrow> Bad | Some b \<Rightarrow> read_blk b w)"

text \<open>
  The loop of \<open>process_line\<close>. The result says whether to leave the session. The engine's text is
  a block of its own; writing the NUL before it is outside the input if it is the longer one.
  After an exit value the input is freed, and the session keeps its address.
\<close>

fun process_forms ::
  "nat \<Rightarrow> 'e engine \<Rightarrow> cfg \<Rightarrow> bool \<Rightarrow> repl \<Rightarrow> 'e world \<Rightarrow> (bool \<times> repl \<times> 'e world) run_result" where
  "process_forms 0 eng c pasting r w = Endless"
| "process_forms (Suc n) eng c pasting r w =
     andthen (read_input r w) (\<lambda>text.
       case is_readable eng (w_engine w) text of
         Some balance \<Rightarrow>
           if length text < length balance then Bad
           else
             let (bal, w0) = new_blk balance w;
                 r0 = r\<lparr>input := map_option (\<lambda>(a, _). (a, take (length text - length balance) text)) (input r)\<rparr> in
             andthen (read_input r0 w0) (\<lambda>form.
               let (leave, w1) = evaluate_form eng c r0 form w0 in
               andthen (free_opt (input r0) w1) (\<lambda>w2.
                 if leave then Fine (True, r0, w2)
                 else
                   let r2 = update_ns eng c w2 (empty_previous_lines (r0\<lparr>input := Some bal\<rparr>)) in
                   andthen (read_blk bal w2) (\<lambda>blank.
                     if is_whitespace blank
                     then andthen (free_blk bal w2) (\<lambda>w3. Fine (False, r2\<lparr>input := None\<rparr>, w3))
                     else process_forms n eng c pasting r2 w2)))
       | None \<Rightarrow>
           let r1 = (if history_path r \<noteq> None \<and> \<not> pasting
                     then r\<lparr>indent_space_count := indent_of eng (w_engine w) text\<rparr> else r) in
           Fine (False, r1\<lparr>current_prompt := form_prompt c r1 True\<rparr>, w))"

definition add_to_history :: "cfg \<Rightarrow> repl \<Rightarrow> blk \<Rightarrow> bool \<Rightarrow> 'e world \<Rightarrow> 'e world run_result" where
  "add_to_history c r line split_on_newlines w =
     (case history_path r of
        None \<Rightarrow> Fine w
      | Some path \<Rightarrow>
          andthen (read_input r w) (\<lambda>text.
            if is_whitespace text then Fine w
            else andthen (read_blk line w) (\<lambda>input_line.
              let add = (\<lambda>l h. snd (linenoiseHistoryAdd (hist_max c) l h));
                  h = (if split_on_newlines then fold add (strtok_all CHR 0x0A input_line) (w_history w)
                       else add input_line (w_history w)) in
              Fine (w\<lparr>w_history := h, w_saved := Some (path, linenoiseHistorySave h)\<rparr>))))"

text \<open>The line becomes the input, or is appended to it, which moves the input to a new block.\<close>

definition accumulate :: "blk \<Rightarrow> repl \<Rightarrow> 'e world \<Rightarrow> (repl \<times> 'e world) run_result" where
  "accumulate line r w =
     (case input r of
        None \<Rightarrow> Fine (r\<lparr>input := Some line\<rparr>, w)
      | Some b \<Rightarrow>
          andthen (read_blk b w) (\<lambda>text. andthen (free_blk b w) (\<lambda>w1.
            andthen (read_blk line w1) (\<lambda>l.
              let (b', w2) = new_blk (text @ [CHR 0x0A] @ l) w1 in
              Fine (r\<lparr>input := Some b'\<rparr>, w2)))))"

definition process_line ::
  "nat \<Rightarrow> 'e engine \<Rightarrow> cfg \<Rightarrow> bool \<Rightarrow> repl \<Rightarrow> blk \<Rightarrow> bool \<Rightarrow> 'e world \<Rightarrow>
   (bool \<times> repl \<times> 'e world) run_result" where
  "process_line n eng c pasting r line split_on_newlines w =
     andthen (accumulate line r w) (\<lambda>(r1, w1). andthen (read_blk line w1) (\<lambda>l.
       let r2 = r1\<lparr>previous_lines := previous_lines r1 @ [l]\<rparr> in
       andthen (read_input r2 w1) (\<lambda>text.
         if is_exit_command text (session_id r2 \<noteq> 0)
         then if session_id r2 = 0 then Quit 0 else Fine (True, r2, w1)
         else andthen (add_to_history c r2 line split_on_newlines w1) (\<lambda>w2.
           process_forms n eng c pasting r2 w2))))"

end
