(* ===== verification/Repl_Loop.thy ===== *)
theory Repl_Loop
  imports Repl
begin

text \<open>
  \<open>repl.c\<close>: the loop that reads lines from the terminal, and the sessions of the socket REPL.
  What the terminal gives is a list of readings; where it ends the loop waits. The C variable
  \<open>input_line\<close> keeps pointing at the last line, which \<open>process_line\<close> may have taken over.
\<close>

section \<open>The command line loop\<close>

datatype reading = Line_read string | Interrupted | Closed

definition lock_print :: "'e world \<Rightarrow> 'e world run_result" where
  "lock_print w = (if w_locked w then Endless else Fine (w\<lparr>w_locked := True\<rparr>))"

definition unlock_print :: "'e world \<Rightarrow> 'e world" where
  "unlock_print w = w\<lparr>w_locked := False\<rparr>"

definition set_print_sender :: "sender \<Rightarrow> 'e world \<Rightarrow> 'e world" where
  "set_print_sender s w = w\<lparr>w_sender := s\<rparr>"

text \<open>The lines of a small input one by one, each a copy.\<close>

fun process_tokens ::
  "nat \<Rightarrow> 'e engine \<Rightarrow> cfg \<Rightarrow> bool \<Rightarrow> string list \<Rightarrow> repl \<Rightarrow> 'e world \<Rightarrow>
   (bool \<times> repl \<times> 'e world) run_result" where
  "process_tokens n eng c pasting [] r w = Fine (False, r, w)"
| "process_tokens n eng c pasting (t # ts) r w =
     (let (b, w1) = new_blk t w in
      andthen (process_line n eng c pasting (r\<lparr>indent_space_count := 0\<rparr>) b False w1)
        (\<lambda>(break_out, r', w'). if break_out then Fine (True, r', w')
          else process_tokens n eng c pasting ts r' w'))"

definition process_input ::
  "nat \<Rightarrow> 'e engine \<Rightarrow> cfg \<Rightarrow> bool \<Rightarrow> blk \<Rightarrow> repl \<Rightarrow> 'e world \<Rightarrow> (bool \<times> repl \<times> 'e world) run_result" where
  "process_input n eng c pasting line r w =
     andthen (read_blk line w) (\<lambda>l.
       if input r \<noteq> None \<and> length l = 0
       then process_line n eng c pasting (r\<lparr>indent_space_count := 0\<rparr>) line False w
       else if length l < 16384
       then process_tokens n eng c pasting (strtok_all CHR 0x0A l) r w
       else process_line n eng c pasting (r\<lparr>indent_space_count := 0\<rparr>) line True w)"

text \<open>
  Reading one line, with the lock taken: \<open>Inl\<close> where the loop goes on without a line (\<open>True\<close>)
  or ends (\<open>False\<close>). A dumb terminal frees the previous line first, line editing frees it once
  the new line is there.
\<close>

definition read_dumb ::
  "reading \<Rightarrow> blk option \<Rightarrow> repl \<Rightarrow> 'e world \<Rightarrow> ((bool \<times> blk option) + blk) run_result \<times> 'e world" where
  "read_dumb got old r w =
     (let w1 = display_prompt (current_prompt r) w in
      case free_opt old w1 of
        Fine w2 \<Rightarrow>
          (case get_input (case got of Line_read s \<Rightarrow> Some s | _ \<Rightarrow> None) of
             None \<Rightarrow> (Fine (Inl (False, None)), emit_event (Printed [CHR 0x0A]) w2)
           | Some s \<Rightarrow>
               let (b, w3) = new_blk s w2 in
               (case lock_print w3 of Fine w4 \<Rightarrow> (Fine (Inr b), w4) | _ \<Rightarrow> (Endless, w3)))
      | _ \<Rightarrow> (Bad, w1))"

definition read_edited ::
  "'e engine \<Rightarrow> bool \<Rightarrow> reading \<Rightarrow> blk option \<Rightarrow> 'e world \<Rightarrow>
   ((bool \<times> blk option) + blk) run_result \<times> 'e world" where
  "read_edited eng ready got old w =
     (let w1 = (if ready then set_print_sender Print_now w else w);
          w2 = (if ready \<and> \<not> print_newline eng (w_engine w1) then emit_event (Printed [CHR 0x0A]) w1 else w1);
          reset = (\<lambda>v. if ready then set_print_sender To_stderr v else v) in
      case got of
        Line_read s \<Rightarrow>
          let (b, w3) = new_blk s w2 in
          (case lock_print w3 of
             Fine w4 \<Rightarrow>
               (case free_opt old (reset w4) of Fine w5 \<Rightarrow> (Fine (Inr b), w5) | _ \<Rightarrow> (Bad, w4))
           | _ \<Rightarrow> (Endless, w3))
      | Interrupted \<Rightarrow>
          (case lock_print w2 of
             Fine w3 \<Rightarrow> (Fine (Inl (True, old)), unlock_print (emit_event (Printed [CHR 0x0A]) (reset w3)))
           | _ \<Rightarrow> (Endless, w2))
      | Closed \<Rightarrow>
          (case lock_print w2 of
             Fine w3 \<Rightarrow> (Fine (Inl (False, old)), unlock_print ((reset w3)\<lparr>w_exit := 0\<rparr>))
           | _ \<Rightarrow> (Endless, w2)))"

text \<open>After an interrupt: the collected input is dropped (and its block never freed).\<close>

definition drop_input :: "cfg \<Rightarrow> repl \<Rightarrow> repl" where
  "drop_input c r =
     (let r1 = empty_previous_lines (r\<lparr>input := None, indent_space_count := 0\<rparr>) in
      r1\<lparr>current_prompt := form_prompt c r1 False\<rparr>)"

fun run_cmdline_loop ::
  "nat \<Rightarrow> 'e engine \<Rightarrow> cfg \<Rightarrow> bool \<Rightarrow> bool \<Rightarrow> reading list \<Rightarrow> blk option \<Rightarrow> repl \<Rightarrow> 'e world \<Rightarrow>
   (repl \<times> 'e world) run_result" where
  "run_cmdline_loop n eng c pasting ready [] old r w = Endless"
| "run_cmdline_loop n eng c pasting ready (got # gots) old r w =
     (case (if dumb_terminal c then read_dumb got old r w else read_edited eng ready got old w) of
        (Fine (Inl (go_on, old')), w1) \<Rightarrow>
          if go_on then run_cmdline_loop n eng c pasting ready gots old' (drop_input c r) w1
          else andthen (free_opt old' w1) (\<lambda>w2. Fine (r, w2))
      | (Fine (Inr line), w1) \<Rightarrow>
          andthen (process_input n eng c pasting line r w1) (\<lambda>(break_out, r', w2).
            if break_out then andthen (free_blk line (unlock_print w2)) (\<lambda>w3. Fine (r', w3))
            else run_cmdline_loop n eng c pasting ready gots (Some line) r' (unlock_print w2))
      | (Bad, w1) \<Rightarrow> Bad
      | (_, w1) \<Rightarrow> Endless)"

section \<open>Socket sessions\<close>

text \<open>
  A new connection: its session, numbered by a counter, after the first prompt was formed.
  Writing to the socket is an event; \<open>sent\<close> says whether it succeeded.
\<close>

definition accepted_socket_repl_connection ::
  "cfg \<Rightarrow> int \<Rightarrow> int \<Rightarrow> int \<Rightarrow> 'e world \<Rightarrow> int \<times> repl \<times> int \<times> 'e world" where
  "accepted_socket_repl_connection c sock counter sent w =
     (let r = make_repl; r1 = r\<lparr>current_prompt := form_prompt c r False\<rparr>;
          r2 = r1\<lparr>session_id := counter + 1\<rparr> in
      (counter + 1, r2, sent,
       case current_prompt r2 of None \<Rightarrow> w | Some p \<Rightarrow> emit_event (To_socket sock p) w))"

text \<open>What was printed while a session's line is processed goes to the socket of that session.\<close>

definition socket_sender :: "string \<Rightarrow> 'e world \<Rightarrow> 'e world" where
  "socket_sender text w = (if w_sock w \<noteq> 0 then emit_event (To_socket (w_sock w) text) w else w)"

text \<open>The result: the error to report, whether to close, the session and the world.\<close>

definition socket_repl_data_arrived ::
  "nat \<Rightarrow> 'e engine \<Rightarrow> cfg \<Rightarrow> bool \<Rightarrow> string option \<Rightarrow> int \<Rightarrow> int \<Rightarrow> repl \<Rightarrow> 'e world \<Rightarrow>
   (int \<times> bool \<times> repl \<times> 'e world) run_result" where
  "socket_repl_data_arrived n eng c pasting data sock sent r w =
     (case data of
        None \<Rightarrow> Fine (0, True, r, w)
      | Some d \<Rightarrow>
        let text = (if str_has_suffix d [CHR 0x0D, CHR 0x0A] = 0 then take (length d - 2) d else d) in
        andthen (lock_print (w\<lparr>w_sock := sock\<rparr>)) (\<lambda>w1.
          let (b, w2) = new_blk text (set_print_sender To_sock w1) in
          andthen (process_line n eng c pasting r b False w2) (\<lambda>(leave, r', w3).
            let w4 = unlock_print ((set_print_sender To_stderr w3)\<lparr>w_sock := 0\<rparr>) in
            case current_prompt r' of
              Some p \<Rightarrow> if \<not> leave then Fine (sent, leave, r', emit_event (To_socket sock p) w4)
                else Fine (0, leave, r', w4)
            | None \<Rightarrow> Fine (0, leave, r', w4))))"

section \<open>Starting\<close>

definition history_file :: "string \<Rightarrow> string" where
  "history_file home = home @ ''/'' @ ''.planck_history''"

text \<open>
  \<open>run_repl\<close> up to its loop, for a terminal with line editing: the history file of \<open>HOME\<close> is read
  and the keymap loaded, whose failure ends the run with its exit value.
\<close>

definition start_repl ::
  "cfg \<Rightarrow> string option \<Rightarrow> (string \<Rightarrow> string option) \<Rightarrow> int \<Rightarrow> 'e world \<Rightarrow> int + repl \<times> 'e world" where
  "start_repl c home read_file keymap_status w =
     (let r = make_repl; r1 = r\<lparr>current_prompt := form_prompt c r False\<rparr> in
      if dumb_terminal c then Inr (r1, w)
      else case home of
        None \<Rightarrow> Inr (r1, w)
      | Some h \<Rightarrow>
          let path = history_file h;
              w1 = w\<lparr>w_history := snd (linenoiseHistoryLoad (hist_max c) (read_file path) (w_history w)),
                     w_exit := keymap_status\<rparr> in
          if keymap_status \<noteq> 0 then Inl keymap_status
          else Inr (r1\<lparr>history_path := Some path\<rparr>, w1))"

definition run_repl ::
  "nat \<Rightarrow> 'e engine \<Rightarrow> cfg \<Rightarrow> bool \<Rightarrow> bool \<Rightarrow> string option \<Rightarrow> (string \<Rightarrow> string option) \<Rightarrow> int \<Rightarrow>
   reading list \<Rightarrow> 'e world \<Rightarrow> int run_result" where
  "run_repl n eng c pasting ready home read_file keymap_status gots w =
     (case start_repl c home read_file keymap_status w of
        Inl status \<Rightarrow> Fine status
      | Inr (r, w1) \<Rightarrow>
          andthen (run_cmdline_loop n eng c pasting ready gots None r w1) (\<lambda>(r', w2). Fine (w_exit w2)))"

end
