(* ===== verification/Repl_Ends.thy ===== *)
theory Repl_Ends
  imports Repl_Loop
begin

text \<open>
  The fuel of the REPL's loops: a text of \<open>n\<close> bytes has at most \<open>n\<close> forms, if the engine leaves
  over less than it was given or only blanks, and what the session collects is no longer than the
  lines it was given, with one byte more for each.
\<close>

text \<open>What the engine promises: the text left over is shorter, or all of it is blank.\<close>

definition engine_ok :: "'e engine \<Rightarrow> bool" where
  "engine_ok eng \<longleftrightarrow> (\<forall>e t b. is_readable eng e t = Some b \<longrightarrow>
     length b < length t \<or> (length b = length t \<and> is_whitespace b))"

lemma engine_ok_length: "engine_ok eng \<Longrightarrow> is_readable eng e t = Some b \<Longrightarrow> length b \<le> length t"
  unfolding engine_ok_def by (metis less_imp_le order_refl)

lemma update_ns_keeps [simp]:
  "input (update_ns eng c w r) = input r" "session_id (update_ns eng c w r) = session_id r"
  "previous_lines (update_ns eng c w r) = previous_lines r"
  by (simp_all add: update_ns_def Let_def split: option.splits)

declare process_forms.simps [simp del]

definition ends :: "('a \<Rightarrow> bool) \<Rightarrow> 'a run_result \<Rightarrow> bool" where
  "ends P res \<longleftrightarrow> res \<noteq> Endless \<and> (\<forall>x. res = Fine x \<longrightarrow> P x)"

lemma ends_simps [simp]:
  "ends P (Fine x) \<longleftrightarrow> P x" "ends P (Quit n)" "ends P Bad" "\<not> ends P Endless"
  by (simp_all add: ends_def)

lemma ends_andthen:
  "ends Q res \<Longrightarrow> (\<And>x. Q x \<Longrightarrow> ends P (f x)) \<Longrightarrow> ends P (andthen res f)"
  by (cases res) auto

lemma ends_mono: "ends Q res \<Longrightarrow> (\<And>x. Q x \<Longrightarrow> P x) \<Longrightarrow> ends P res"
  by (cases res) auto

lemma ends_free_blk [simp]: "ends (\<lambda>_. True) (free_blk b w)"
  by (simp add: free_blk_def)

lemma ends_free_opt [simp]: "ends (\<lambda>_. True) (free_opt b w)"
  by (cases b) (simp_all add: free_opt_def)

lemma ends_read_blk: "ends (\<lambda>t. t = snd b) (read_blk b w)"
  by (simp add: read_blk_def)

lemma ends_read_input: "input r = Some (a, t) \<Longrightarrow> ends (\<lambda>x. x = t) (read_input r w)"
  by (simp add: read_input_def read_blk_def)

lemma ends_read_blk_then: "ends P (f (snd b)) \<Longrightarrow> ends P (andthen (read_blk b w) f)"
  by (simp add: read_blk_def)

lemma ends_read_input_then: "input r = Some (a, t) \<Longrightarrow> ends P (f t) \<Longrightarrow> ends P (andthen (read_input r w) f)"
  by (simp add: read_input_def read_blk_def)

lemma ends_add_to_history: "ends (\<lambda>_. True) (add_to_history c r line sp w)"
  by (auto simp: add_to_history_def read_input_def read_blk_def Let_def split: option.splits)

text \<open>The bytes collected, and one for the line end to come.\<close>

definition in_len :: "repl \<Rightarrow> nat" where
  "in_len r = (case input r of None \<Rightarrow> 0 | Some (_, t) \<Rightarrow> Suc (length t))"

lemma in_len_Some: "input r = Some (a, t) \<Longrightarrow> in_len r = Suc (length t)"
  by (simp add: in_len_def)

lemma in_len_None: "input r = None \<Longrightarrow> in_len r = 0"
  by (simp add: in_len_def)

definition at_most :: "nat \<Rightarrow> bool \<times> repl \<times> 'e world \<Rightarrow> bool" where
  "at_most k = (\<lambda>(leave, r', w'). in_len r' \<le> k)"

text \<open>One round of the loop, for a text that begins with a readable form and for one that does not.\<close>

lemma evaluate_form_input [simp]: "evaluate_form eng c (r\<lparr>input := i\<rparr>) = evaluate_form eng c r"
  by (simp add: fun_eq_iff evaluate_form_def Let_def)

lemma process_forms_unreadable:
  assumes "input r = Some (a, t)" "is_readable eng (w_engine w) t = None"
  shows "process_forms (Suc n) eng c pasting r w =
    (if a \<notin> w_live w then Bad
     else let r1 = (if history_path r \<noteq> None \<and> \<not> pasting
                    then r\<lparr>indent_space_count := indent_of eng (w_engine w) t\<rparr> else r) in
       Fine (False, r1\<lparr>current_prompt := form_prompt c r1 True\<rparr>, w))"
  using assms by (simp add: process_forms.simps read_input_def read_blk_def)

lemma process_forms_readable:
  assumes "input r = Some (a, t)" "is_readable eng (w_engine w) t = Some balance"
    "length balance \<le> length t" "new_blk balance w = (bal, w0)"
    "evaluate_form eng c r (take (length t - length balance) t) w0 = (leave, w1)"
  shows "process_forms (Suc n) eng c pasting r w =
    (if a \<notin> w_live w then Bad
     else andthen (free_blk (a, take (length t - length balance) t) w1) (\<lambda>w2.
       if leave then Fine (True, r\<lparr>input := Some (a, take (length t - length balance) t)\<rparr>, w2)
       else
         let r2 = update_ns eng c w2 (empty_previous_lines (r\<lparr>input := Some bal\<rparr>)) in
         andthen (read_blk bal w2) (\<lambda>blank.
           if is_whitespace blank then andthen (free_blk bal w2) (\<lambda>w3. Fine (False, r2\<lparr>input := None\<rparr>, w3))
           else process_forms n eng c pasting r2 w2)))"
proof -
  have "w_live w \<subseteq> w_live w0" using assms(4) by (auto simp: new_blk_def)
  then show ?thesis
    using assms by (cases leave) (auto simp: process_forms.simps read_input_def read_blk_def free_opt_def Let_def)
qed

lemma process_forms_ends:
  "engine_ok eng \<Longrightarrow> input r = Some (a, t) \<Longrightarrow> length t < n \<Longrightarrow>
   ends (at_most (in_len r)) (process_forms n eng c pasting r w)"
proof (induction n arbitrary: r a t w)
  case (Suc n)
  note prems = Suc.prems
  show ?case
  proof (cases "is_readable eng (w_engine w) t")
    case None
    show ?thesis by (simp add: process_forms_unreadable [OF prems(2) None] Let_def at_most_def in_len_def)
  next
    case (Some balance)
    obtain bal w0 where w0: "new_blk balance w = (bal, w0)" "snd bal = balance"
      by (cases "new_blk balance w") (auto simp: new_blk_def)
    obtain leave w1 where w1: "evaluate_form eng c r (take (length t - length balance) t) w0 = (leave, w1)" by fastforce
    have len: "length balance \<le> length t" "is_whitespace balance \<or> length balance < n"
      using engine_ok_length [OF prems(1) Some] prems(1,3) Some unfolding engine_ok_def by fastforce+
    define r2 where "r2 = (\<lambda>w2 :: 'a world. update_ns eng c w2 (empty_previous_lines (r\<lparr>input := Some bal\<rparr>)))"
    have r2: "input (r2 w2) = Some (fst bal, balance)" "in_len (r2 w2) \<le> in_len r" for w2
      using w0(2) len(1) in_len_Some [OF prems(2)]
      by (cases bal; simp add: r2_def empty_previous_lines_def in_len_def)+
    have rec: "ends (at_most (in_len r)) (process_forms n eng c pasting (r2 w2) w2)" if "\<not> is_whitespace balance" for w2
      by (rule ends_mono [OF Suc.IH [OF prems(1) r2(1)]]) (use len(2) that r2(2) [of w2] in \<open>auto simp: at_most_def\<close>)
    have last: "ends (at_most (in_len r)) (andthen (free_blk bal w2) (\<lambda>w3. Fine (False, (r2 w2)\<lparr>input := None\<rparr>, w3)))" for w2
      by (rule ends_andthen [OF ends_free_blk]) (simp add: at_most_def in_len_None)
    have form: "at_most (in_len r) (True, r\<lparr>input := Some (a, take (length t - length balance) t)\<rparr>, w2)" for w2 :: "'a world"
      using prems(2) by (simp add: at_most_def in_len_def)
    show ?thesis
      using form rec last
      by (auto simp: process_forms_readable [OF prems(2) Some len(1) w0(1) w1] w0(2) Let_def r2_def
        intro!: ends_andthen [OF ends_free_blk] ends_read_blk_then)
  qed
qed simp

lemma process_line_ends:
  assumes "engine_ok eng" "in_len r + length (snd line) < n"
  shows "ends (at_most (in_len r + Suc (length (snd line)))) (process_line n eng c pasting r line sp w)"
proof -
  let ?k = "in_len r + length (snd line)"
  have acc: "ends (\<lambda>(r1, w1). \<exists>a t. input r1 = Some (a, t) \<and> length t = ?k) (accumulate line r w)"
    by (cases line) (auto simp: accumulate_def in_len_def new_blk_def free_blk_def read_blk_def split: option.splits)
  have forms: "ends (at_most (Suc ?k)) (process_forms n eng c pasting r2 w2)"
    if "input r2 = Some (a, t)" "length t = ?k" for r2 w2 a t
    using process_forms_ends [OF assms(1) that(1)] assms(2) that in_len_Some [OF that(1)] by metis
  have tail: "ends (at_most (Suc ?k)) (andthen (read_input r2 w1) (\<lambda>text.
        if is_exit_command text (session_id r2 \<noteq> 0)
        then if session_id r2 = 0 then Quit 0 else Fine (True, r2, w1)
        else andthen (add_to_history c r2 line sp w1) (\<lambda>w2. process_forms n eng c pasting r2 w2)))"
    if "input r2 = Some (a, t)" "length t = ?k" for r2 w1 a t
    by (rule ends_andthen [OF ends_read_input [OF that(1)]])
      (use that forms in_len_Some [OF that(1)] in
        \<open>auto simp: at_most_def intro!: ends_andthen [OF ends_add_to_history]\<close>)
  show ?thesis
    unfolding process_line_def
  proof (rule ends_andthen [OF acc])
    fix x :: "repl \<times> 'a world"
    assume "case x of (r1, w1) \<Rightarrow> \<exists>a t. input r1 = Some (a, t) \<and> length t = ?k"
    then obtain r1 w1 a t where x: "x = (r1, w1)" "input r1 = Some (a, t)" "length t = ?k" by auto
    define r2 where "r2 = r1\<lparr>previous_lines := previous_lines r1 @ [snd line]\<rparr>"
    have "input r2 = Some (a, t)" using x(2) by (simp add: r2_def)
    from tail [OF this x(3), of w1, unfolded r2_def]
    show "ends (at_most (in_len r + Suc (length (snd line)))) (case x of (r1, w1) \<Rightarrow> andthen (read_blk line w1) (\<lambda>l.
        let r2 = r1\<lparr>previous_lines := previous_lines r1 @ [l]\<rparr> in
        andthen (read_input r2 w1) (\<lambda>text.
          if is_exit_command text (session_id r2 \<noteq> 0)
          then if session_id r2 = 0 then Quit 0 else Fine (True, r2, w1)
          else andthen (add_to_history c r2 line sp w1) (\<lambda>w2. process_forms n eng c pasting r2 w2))))"
      unfolding x(1) prod.case Let_def add_Suc_right by (rule ends_read_blk_then)
  qed
qed

lemma in_len_indent [simp]: "in_len (r\<lparr>indent_space_count := i\<rparr>) = in_len r"
  by (cases "input r") (auto simp: in_len_def)

lemma process_tokens_ends:
  "engine_ok eng \<Longrightarrow> in_len r + (\<Sum>t\<leftarrow>ts. Suc (length t)) \<le> n \<Longrightarrow>
   ends (at_most (in_len r + (\<Sum>t\<leftarrow>ts. Suc (length t)))) (process_tokens n eng c pasting ts r w)"
proof (induction ts arbitrary: r w)
  case (Cons t ts)
  obtain b w1 where b: "new_blk t w = (b, w1)" "snd b = t" by (cases "new_blk t w") (auto simp: new_blk_def)
  have first: "ends (at_most (in_len r + Suc (length t)))
      (process_line n eng c pasting (r\<lparr>indent_space_count := 0\<rparr>) b False w1)"
    using process_line_ends [OF Cons.prems(1), of "r\<lparr>indent_space_count := 0\<rparr>" b n] Cons.prems(2) b(2) by simp
  have rest: "ends (at_most (in_len r + (\<Sum>t\<leftarrow>t # ts. Suc (length t)))) (process_tokens n eng c pasting ts r' w')"
    if "in_len r' \<le> in_len r + Suc (length t)" for r' w'
    by (rule ends_mono [OF Cons.IH [OF Cons.prems(1)]]) (use that Cons.prems(2) in \<open>auto simp: at_most_def\<close>)
  have "ends (at_most (in_len r + (\<Sum>t\<leftarrow>t # ts. Suc (length t))))
      (andthen (process_line n eng c pasting (r\<lparr>indent_space_count := 0\<rparr>) b False w1)
        (\<lambda>(break_out, r', w'). if break_out then Fine (True, r', w') else process_tokens n eng c pasting ts r' w'))"
    by (rule ends_andthen [OF first]) (use rest in \<open>auto simp: at_most_def split: prod.splits\<close>)
  then show ?case by (simp add: b)
qed (simp add: at_most_def)

lemma strtok_all_size: "(\<Sum>t\<leftarrow>strtok_all d s. Suc (length t)) \<le> Suc (length s)"
proof (induction d s rule: strtok_all.induct)
  case (1 d s)
  show ?case
  proof (cases "strtok_next d s")
    case None
    then show ?thesis by (subst strtok_all.simps) simp
  next
    case (Some p)
    obtain u s' where p: "p = (u, s')" by (cases p)
    with Some have step: "strtok_all d s = u # strtok_all d s'" by (subst strtok_all.simps) simp
    obtain x xs where xs: "dropWhile (\<lambda>c. c = d) s = x # xs" "u = x # takeWhile (\<lambda>c. c \<noteq> d) xs"
        "s' = drop 1 (dropWhile (\<lambda>c. c \<noteq> d) xs)"
      using Some p by (auto elim: strtok_next_SomeE)
    define rest where "rest = dropWhile (\<lambda>c. c \<noteq> d) xs"
    have "length (x # xs) \<le> length s" unfolding xs(1) [symmetric] by (rule length_dropWhile_le)
    moreover have "length (takeWhile (\<lambda>c. c \<noteq> d) xs) + length rest = length xs"
      unfolding rest_def by (metis length_append takeWhile_dropWhile_id)
    ultimately have u: "length u + length rest \<le> length s" using xs(2) by simp
    have s': "s' = drop 1 rest" by (simp add: xs(3) rest_def)
    have nil: "strtok_all d [] = []" by (subst strtok_all.simps) (simp add: strtok_next_def)
    show ?thesis
    proof (cases rest)
      case Nil
      with u s' nil show ?thesis by (simp add: step)
    next
      case (Cons y ys)
      with u s' 1 [OF Some p [symmetric]] show ?thesis by (simp add: step)
    qed
  qed
qed

lemma process_input_ends:
  assumes "engine_ok eng" "in_len r + Suc (length (snd line)) \<le> n"
  shows "ends (at_most (in_len r + Suc (length (snd line)))) (process_input n eng c pasting line r w)"
proof -
  have one: "ends (at_most (in_len r + Suc (length (snd line))))
      (process_line n eng c pasting (r\<lparr>indent_space_count := 0\<rparr>) line sp w)" for sp
    using process_line_ends [OF assms(1), of "r\<lparr>indent_space_count := 0\<rparr>" line n] assms(2) by simp
  have "ends (at_most (in_len r + Suc (length (snd line))))
      (process_tokens n eng c pasting (strtok_all CHR 0x0A (snd line)) r w)"
    by (rule ends_mono [OF process_tokens_ends [OF assms(1)]])
      (use strtok_all_size [of "CHR 0x0A" "snd line"] assms(2) in \<open>auto simp: at_most_def\<close>)
  with one show ?thesis
    unfolding process_input_def
    by (intro ends_andthen [OF ends_read_blk]) (simp only: if_split, blast)
qed

section \<open>The command line loop\<close>

text \<open>The bytes of the lines to come, with one more for each.\<close>

definition read_size :: "reading list \<Rightarrow> nat" where
  "read_size gots = (\<Sum>g\<leftarrow>gots. case g of Line_read s \<Rightarrow> Suc (length s) | _ \<Rightarrow> 0)"

text \<open>Reading a line never waits for the lock, and is asked for another line only where there is one.\<close>

definition line_of :: "reading \<Rightarrow> (bool \<times> blk option) + blk \<Rightarrow> 'e world \<Rightarrow> bool" where
  "line_of got x w \<longleftrightarrow>
     (case x of Inl (go_on, _) \<Rightarrow> go_on \<longrightarrow> got = Interrupted \<and> \<not> w_locked w
      | Inr b \<Rightarrow> (\<exists>s. got = Line_read s \<and> length (snd b) \<le> length s))"

lemma free_opt_lock: "free_opt b w = Fine w' \<Longrightarrow> w_locked w' = w_locked w"
  by (cases b) (auto simp: free_opt_def free_blk_def split: if_splits)

lemma free_opt_cases: "(\<exists>w'. free_opt b w = Fine w') \<or> free_opt b w = Bad"
  by (cases b) (simp_all add: free_opt_def free_blk_def)

lemma read_dumb_ends:
  assumes "\<not> w_locked w" "read_dumb got old r w = (res, w1)"
  shows "res = Bad \<or> (\<exists>x. res = Fine x \<and> line_of got x w1)"
proof -
  let ?w = "display_prompt (current_prompt r) w"
  have unlocked: "\<not> w_locked ?w" using assms(1) by (simp add: display_prompt_def emit_event_def split: option.splits)
  consider w2 where "free_opt old ?w = Fine w2" "\<not> w_locked w2" | "free_opt old ?w = Bad"
    using free_opt_cases [of old ?w] free_opt_lock [of old ?w] unlocked by auto
  then show ?thesis
  proof cases
    case 1
    then show ?thesis using assms(2)
      by (cases got) (auto simp: read_dumb_def Let_def lock_print_def new_blk_def line_of_def get_input_def
        split: if_splits)
  qed (use assms(2) in \<open>simp add: read_dumb_def Let_def\<close>)
qed

lemma read_edited_ends:
  assumes "\<not> w_locked w" "read_edited eng ready got old w = (res, w1)"
  shows "res = Bad \<or> (\<exists>x. res = Fine x \<and> line_of got x w1)"
  using assms free_opt_cases
  by (cases got) (auto simp: read_edited_def Let_def lock_print_def new_blk_def line_of_def set_print_sender_def
    emit_event_def unlock_print_def split: if_splits run_result.splits prod.splits)

lemma loop_ends:
  "engine_ok eng \<Longrightarrow> Closed \<in> set gots \<Longrightarrow> in_len r + read_size gots \<le> n \<Longrightarrow> \<not> w_locked w \<Longrightarrow>
   run_cmdline_loop n eng c pasting ready gots old r w \<noteq> Endless"
proof (induction gots arbitrary: old r w)
  case (Cons got gots)
  obtain res w1 where read: "(if dumb_terminal c then read_dumb got old r w else read_edited eng ready got old w) = (res, w1)"
    by (cases "if dumb_terminal c then read_dumb got old r w else read_edited eng ready got old w")
  then consider "res = Bad" | x where "res = Fine x" "line_of got x w1"
    using read_dumb_ends [OF Cons.prems(4)] read_edited_ends [OF Cons.prems(4)] by (metis (full_types))
  then show ?case
  proof cases
    case (2 x)
    show ?thesis
    proof (cases x)
      case (Inl p)
      obtain go_on old' where p: "p = (go_on, old')" by (cases p)
      have next_line: "run_cmdline_loop n eng c pasting ready gots old' (drop_input c r) w1 \<noteq> Endless" if "go_on"
        by (rule Cons.IH [OF Cons.prems(1)])
          (use that 2(2) Inl p Cons.prems(2,3) in
            \<open>auto simp: line_of_def in_len_def drop_input_def empty_previous_lines_def Let_def read_size_def\<close>)
      show ?thesis
      proof (cases go_on)
        case True
        then show ?thesis using next_line read 2(1) Inl p by simp
      next
        case False
        then show ?thesis using free_opt_cases [of old' w1] read 2(1) Inl p by auto
      qed
    next
      case (Inr b)
      then obtain l where l: "got = Line_read l" "length (snd b) \<le> length l" using 2(2) by (auto simp: line_of_def)
      have size: "in_len r + Suc (length (snd b)) + read_size gots \<le> n" "Closed \<in> set gots"
        using l Cons.prems(2,3) by (auto simp: read_size_def)
      have "ends (\<lambda>_. True) (andthen (process_input n eng c pasting b r w1) (\<lambda>(break_out, r', w2).
          if break_out then andthen (free_blk b (unlock_print w2)) (\<lambda>w3. Fine (r', w3))
          else run_cmdline_loop n eng c pasting ready gots (Some b) r' (unlock_print w2)))"
      proof (rule ends_andthen [OF process_input_ends [OF Cons.prems(1)]])
        show "in_len r + Suc (length (snd b)) \<le> n" using size(1) by simp
        fix y :: "bool \<times> repl \<times> 'a world"
        assume y: "at_most (in_len r + Suc (length (snd b))) y"
        obtain br r' w2 where y': "y = (br, r', w2)" by (cases y)
        have "run_cmdline_loop n eng c pasting ready gots (Some b) r' (unlock_print w2) \<noteq> Endless"
          by (rule Cons.IH [OF Cons.prems(1) size(2)]) (use y y' size(1) in \<open>simp_all add: at_most_def unlock_print_def\<close>)
        moreover have "ends (\<lambda>_. True) (andthen (free_blk b (unlock_print w2)) (\<lambda>w3. Fine (r', w3)))"
          by (rule ends_andthen [OF ends_free_blk]) simp
        ultimately show "ends (\<lambda>_. True) (case y of (break_out, r', w2) \<Rightarrow>
            if break_out then andthen (free_blk b (unlock_print w2)) (\<lambda>w3. Fine (r', w3))
            else run_cmdline_loop n eng c pasting ready gots (Some b) r' (unlock_print w2))"
          by (simp add: y' ends_def)
      qed
      then show ?thesis using read 2(1) Inr by (simp add: ends_def)
    qed
  qed (use read in simp)
qed simp

end
