(* ===== verification/Repl_Props.thy ===== *)
theory Repl_Props
  imports Repl_Ends
begin

text \<open>
  The properties of the REPL: the memory its lines live in, what it evaluates, and the
  isolation of socket sessions.
\<close>

section \<open>Memory\<close>

definition safe_run :: "('a \<Rightarrow> bool) \<Rightarrow> 'a run_result \<Rightarrow> bool" where
  "safe_run P res \<longleftrightarrow> res \<noteq> Bad \<and> (\<forall>x. res = Fine x \<longrightarrow> P x)"

lemma safe_run_simps [simp]:
  "safe_run P (Fine x) \<longleftrightarrow> P x" "safe_run P (Quit n)" "safe_run P Endless" "\<not> safe_run P Bad"
  by (simp_all add: safe_run_def)

lemma safe_run_andthen:
  "safe_run Q res \<Longrightarrow> (\<And>x. Q x \<Longrightarrow> safe_run P (f x)) \<Longrightarrow> safe_run P (andthen res f)"
  by (cases res) auto

text \<open>
  The blocks in \<open>X\<close> are live and not the session's input, which is live if there is one; blocks
  to come are not live.
\<close>

definition mem_ok :: "nat set \<Rightarrow> repl \<Rightarrow> 'e world \<Rightarrow> bool" where
  "mem_ok X r w \<longleftrightarrow> (\<forall>a \<in> w_live w. a < w_next w) \<and> X \<subseteq> w_live w \<and>
     (\<forall>b. input r = Some b \<longrightarrow> fst b \<in> w_live w \<and> fst b \<notin> X)"

text \<open>A session that is left no longer reads its input, which may have been freed.\<close>

definition mem_post :: "nat set \<Rightarrow> 'e world \<Rightarrow> bool \<times> repl \<times> 'e world \<Rightarrow> bool" where
  "mem_post X w = (\<lambda>(leave, r', w').
     mem_ok X (if leave then r'\<lparr>input := None\<rparr> else r') w' \<and> w_locked w' = w_locked w)"

lemma mem_ok_None: "mem_ok X r w \<Longrightarrow> mem_ok X (r\<lparr>input := None\<rparr>) w"
  by (simp add: mem_ok_def)

lemma evaluate_form_keeps:
  "w_live (snd (evaluate_form eng c r form w)) = w_live w \<and> w_next (snd (evaluate_form eng c r form w)) = w_next w \<and>
   w_locked (snd (evaluate_form eng c r form w)) = w_locked w"
  by (simp add: evaluate_form_def emit_event_def Let_def split_beta)

lemma process_forms_safe:
  "engine_ok eng \<Longrightarrow> mem_ok X r w \<Longrightarrow> input r \<noteq> None \<Longrightarrow>
   safe_run (mem_post X w) (process_forms n eng c pasting r w)"
proof (induction n arbitrary: r w)
  case (Suc n)
  note prems = Suc.prems
  obtain a t where inp: "input r = Some (a, t)" using prems(3) by auto
  have a: "a \<in> w_live w" "a \<notin> X" "a < w_next w" using prems(2) inp by (auto simp: mem_ok_def)
  show ?case
  proof (cases "is_readable eng (w_engine w) t")
    case None
    show ?thesis
      using prems(2) a by (simp add: process_forms_unreadable [OF inp None] Let_def mem_post_def mem_ok_def)
  next
    case (Some balance)
    obtain bal w0 where w0: "new_blk balance w = (bal, w0)" by (cases "new_blk balance w")
    have blk: "bal = (w_next w, balance)"
        "w0 = w\<lparr>w_live := insert (w_next w) (w_live w), w_next := Suc (w_next w)\<rparr>"
      using w0 by (simp_all add: new_blk_def)
    let ?form = "take (length t - length balance) t"
    obtain leave w1 where w1: "evaluate_form eng c r ?form w0 = (leave, w1)"
      by (cases "evaluate_form eng c r ?form w0")
    define w2 where "w2 = w1\<lparr>w_live := w_live w1 - {a}\<rparr>"
    let ?r2 = "update_ns eng c w2 (empty_previous_lines (r\<lparr>input := Some bal\<rparr>))"
    have k: "w_live w1 = insert (fst bal) (w_live w)" "w_next w1 = Suc (w_next w)" "fst bal = w_next w"
        "w_locked w1 = w_locked w"
      using evaluate_form_keeps [of eng c r ?form w0, unfolded w1 snd_conv] blk by simp_all
    have bal: "fst bal \<notin> X" "fst bal \<noteq> a" using prems(2) k(3) a by (auto simp: mem_ok_def)
    have free: "free_blk (a, ?form) w1 = Fine w2" using a k by (simp add: free_blk_def w2_def)
    have m2: "mem_ok X ?r2 w2" "mem_ok X (r\<lparr>input := None\<rparr>) w2" "w_locked w2 = w_locked w"
      "mem_ok X (?r2\<lparr>input := None\<rparr>) (w2\<lparr>w_live := w_live w2 - {fst bal}\<rparr>)" "fst bal \<in> w_live w2"
      using prems(2) k a bal by (auto simp: mem_ok_def w2_def empty_previous_lines_def less_Suc_eq)
    have len: "length balance \<le> length t" using engine_ok_length [OF prems(1) Some] .
    have blank: "read_blk bal w2 = Fine balance" "free_blk bal w2 = Fine (w2\<lparr>w_live := w_live w2 - {fst bal}\<rparr>)"
      using m2(5) blk(1) by (simp_all add: read_blk_def free_blk_def)
    have "safe_run (mem_post X w2) (process_forms n eng c pasting ?r2 w2)"
      by (rule Suc.IH [OF prems(1) m2(1)]) (simp add: empty_previous_lines_def)
    then show ?thesis
      using m2 a
      by (simp add: process_forms_readable [OF inp Some len w0 w1] free blank Let_def mem_post_def
          del: update_ns_keeps)
  qed
qed (simp add: process_forms.simps)

text \<open>Adding to the history reads the line and the input, and changes only the history.\<close>

lemma add_to_history_Fine:
  assumes "input r = Some (a, t)" "a \<in> w_live w" "fst line \<in> w_live w"
  shows "\<exists>h s. add_to_history c r line sp w = Fine (w\<lparr>w_history := h, w_saved := s\<rparr>)"
proof -
  have same: "\<exists>h s. w = w\<lparr>w_history := h, w_saved := s\<rparr>"
    by (rule exI [of _ "w_history w"], rule exI [of _ "w_saved w"]) simp
  show ?thesis
    using assms same by (auto simp: add_to_history_def read_input_def read_blk_def Let_def split: option.splits)
qed

lemma mem_ok_history [simp]: "mem_ok X r (w\<lparr>w_history := h, w_saved := s\<rparr>) = mem_ok X r w"
  by (simp add: mem_ok_def)

text \<open>The line a session is given: live, and the session's own if it becomes the input.\<close>

definition gets :: "nat set \<Rightarrow> blk \<Rightarrow> repl \<Rightarrow> 'e world \<Rightarrow> bool" where
  "gets X line r w \<longleftrightarrow> mem_ok X r w \<and> fst line \<in> w_live w \<and> (input r = None \<longrightarrow> fst line \<notin> X) \<and>
     (\<forall>b. input r = Some b \<longrightarrow> fst b \<noteq> fst line)"

lemma accumulate_safe:
  assumes "gets X line r w"
  shows "safe_run (\<lambda>(r', w'). mem_ok X r' w' \<and> w_locked w' = w_locked w \<and> (\<exists>a t. input r' = Some (a, t)) \<and>
    fst line \<in> w_live w' \<and> session_id r' = session_id r) (accumulate line r w)"
proof (cases "input r")
  case None
  with assms show ?thesis by (cases line) (auto simp: accumulate_def gets_def mem_ok_def)
next
  case (Some b)
  obtain a t where b: "b = (a, t)" by (cases b)
  have "a \<in> w_live w" "a \<notin> X" "\<forall>x \<in> w_live w. x < w_next w" "X \<subseteq> w_live w" "w_next w \<notin> X"
      "fst line \<in> w_live w" "fst line \<noteq> a"
    using assms Some b by (auto simp: gets_def mem_ok_def)
  with Some b show ?thesis
    by (auto simp: accumulate_def free_blk_def read_blk_def new_blk_def mem_ok_def less_Suc_eq)
qed

text \<open>What comes after the line was taken in.\<close>

lemma process_line_taken:
  assumes "accumulate line r w = Fine (r1, w1)" "input r1 = Some (a, t)" "a \<in> w_live w1" "fst line \<in> w_live w1"
    and "r2 = r1\<lparr>previous_lines := previous_lines r1 @ [snd line]\<rparr>"
  shows "process_line n eng c pasting r line sp w =
    (if is_exit_command t (session_id r1 \<noteq> 0)
     then if session_id r1 = 0 then Quit 0 else Fine (True, r2, w1)
     else andthen (add_to_history c r2 line sp w1) (process_forms n eng c pasting r2))"
  using assms by (simp add: process_line_def read_blk_def read_input_def Let_def)

lemma process_line_safe:
  fixes eng :: "'e engine"
  assumes "engine_ok eng" "gets X line r w"
  shows "safe_run (mem_post X w) (process_line n eng c pasting r line sp w)"
proof (cases "accumulate line r w")
  case (Fine x)
  obtain r1 w1 where x: "x = (r1, w1)" by (cases x)
  define r2 where "r2 = r1\<lparr>previous_lines := previous_lines r1 @ [snd line]\<rparr>"
  obtain a t where t: "input r1 = Some (a, t)" and m: "mem_ok X r1 w1" "w_locked w1 = w_locked w" "fst line \<in> w_live w1"
    using accumulate_safe [OF assms(2)] Fine x by auto
  have a: "a \<in> w_live w1" using m(1) t by (auto simp: mem_ok_def)
  have r2: "input r2 = Some (a, t)" "mem_ok X r2 w1" using t m(1) by (simp_all add: r2_def mem_ok_def)
  obtain h s where h: "add_to_history c r2 line sp w1 = Fine (w1\<lparr>w_history := h, w_saved := s\<rparr>)"
    using add_to_history_Fine [OF r2(1) a m(3)] by blast
  have "safe_run (mem_post X w) (process_forms n eng c pasting r2 (w1\<lparr>w_history := h, w_saved := s\<rparr>))"
    using process_forms_safe [OF assms(1), of X r2 "w1\<lparr>w_history := h, w_saved := s\<rparr>"] m(2) r2
    by (simp add: mem_post_def)
  then show ?thesis
    unfolding process_line_taken [OF Fine [unfolded x] t a m(3) r2_def] h andthen.simps
    using r2(2) m(2) by (simp add: mem_post_def mem_ok_None)
qed (use accumulate_safe [OF assms(2)] in \<open>simp_all add: process_line_def\<close>)

text \<open>A fresh copy of a line is nobody else's.\<close>

lemma new_blk_gets:
  assumes "mem_ok X r w" "new_blk s w = (b, w')" "input r' = input r"
  shows "gets X b r' w'" "mem_ok X r w'" "w_locked w' = w_locked w"
  using assms by (auto simp: new_blk_def gets_def mem_ok_def less_Suc_eq split: option.splits)

lemma process_tokens_safe:
  "engine_ok eng \<Longrightarrow> mem_ok X r w \<Longrightarrow> safe_run (mem_post X w) (process_tokens n eng c pasting ts r w)"
proof (induction n eng c pasting ts r w rule: process_tokens.induct)
  case (1 n eng c pasting r w)
  then show ?case by (simp add: mem_post_def)
next
  case (2 n eng c pasting t ts r w)
  obtain b w1 where b: "new_blk t w = (b, w1)" by (cases "new_blk t w")
  have g: "gets X b (r\<lparr>indent_space_count := 0\<rparr>) w1" "w_locked w1 = w_locked w"
    using new_blk_gets [OF 2(3) b] by simp_all
  have "safe_run (mem_post X w) (andthen (process_line n eng c pasting (r\<lparr>indent_space_count := 0\<rparr>) b False w1)
      (\<lambda>(break_out, r', w'). if break_out then Fine (True, r', w') else process_tokens n eng c pasting ts r' w'))"
  proof (rule safe_run_andthen [OF process_line_safe [OF 2(2) g(1)]])
    fix x
    assume x: "mem_post X w1 x"
    obtain br r' w' where x': "x = (br, r', w')" by (cases x)
    with x g(2) have m: "br \<Longrightarrow> mem_ok X (r'\<lparr>input := None\<rparr>) w'" "\<not> br \<Longrightarrow> mem_ok X r' w'" "w_locked w' = w_locked w"
      by (simp_all add: mem_post_def)
    have "safe_run (mem_post X w') (process_tokens n eng c pasting ts r' w')" if "\<not> br"
      using 2(1) [OF b [symmetric] refl that 2(2) m(2)] that by simp
    then show "safe_run (mem_post X w) (case x of (break_out, r', w') \<Rightarrow>
        if break_out then Fine (True, r', w') else process_tokens n eng c pasting ts r' w')"
      using m x' by (simp add: mem_post_def)
  qed
  then show ?case by (simp add: b)
qed

lemma process_input_safe:
  assumes "engine_ok eng" "mem_ok {fst line} r w" "length (snd line) < 16384"
  shows "safe_run (mem_post {fst line} w) (process_input n eng c pasting line r w)"
proof -
  have live: "fst line \<in> w_live w" using assms(2) by (simp add: mem_ok_def)
  have "gets {fst line} line (r\<lparr>indent_space_count := 0\<rparr>) w" if "input r \<noteq> None"
    using assms(2) that by (auto simp: gets_def mem_ok_def)
  then show ?thesis
    using live assms(3) process_tokens_safe [OF assms(1,2)] process_line_safe [OF assms(1)]
    by (simp add: process_input_def read_blk_def)
qed

section \<open>The loop\<close>

definition old_of :: "blk option \<Rightarrow> nat set" where
  "old_of old = (case old of None \<Rightarrow> {} | Some b \<Rightarrow> {fst b})"

definition small :: "reading \<Rightarrow> bool" where
  "small got \<longleftrightarrow> (case got of Line_read s \<Rightarrow> length s < 16384 | _ \<Rightarrow> True)"

text \<open>What reading a line leaves: the old block freed or forgotten, the new one owned by the loop.\<close>

definition read_post :: "repl \<Rightarrow> (bool \<times> blk option) + blk \<Rightarrow> 'e world \<Rightarrow> bool" where
  "read_post r x w \<longleftrightarrow>
     (case x of Inl (_, old) \<Rightarrow> mem_ok (old_of old) r w \<and> \<not> w_locked w
      | Inr b \<Rightarrow> mem_ok {fst b} r w \<and> length (snd b) < 16384)"

lemma mem_ok_new:
  assumes "mem_ok X r w" "new_blk s w = (b, w')"
  shows "mem_ok {fst b} r w' \<and> snd b = s"
  using assms by (auto simp: new_blk_def mem_ok_def less_Suc_eq split: option.splits)

lemma mem_ok_cong:
  "w_live w' = w_live w \<Longrightarrow> w_next w' = w_next w \<Longrightarrow> mem_ok X r w' = mem_ok X r w"
  by (simp add: mem_ok_def)

lemma mem_ok_upd [simp]:
  "mem_ok X r (w\<lparr>w_sender := s\<rparr>) = mem_ok X r w" "mem_ok X r (w\<lparr>w_events := ev\<rparr>) = mem_ok X r w"
  "mem_ok X r (w\<lparr>w_locked := b\<rparr>) = mem_ok X r w" "mem_ok X r (w\<lparr>w_exit := i\<rparr>) = mem_ok X r w"
  "mem_ok X r (w\<lparr>w_sock := i\<rparr>) = mem_ok X r w"
  by (simp_all add: mem_ok_def)

lemma mem_ok_less: "mem_ok X r w \<Longrightarrow> mem_ok {} r w"
  by (auto simp: mem_ok_def split: option.splits)

lemma free_opt_safe:
  assumes "mem_ok (old_of old) r w"
  shows "\<exists>w'. free_opt old w = Fine w' \<and> mem_ok {} r w' \<and> w_locked w' = w_locked w"
  using assms
  by (cases old) (auto simp: free_opt_def old_of_def free_blk_def mem_ok_def split: option.splits)

lemma get_input_small: "get_input (Some s) = Some t \<Longrightarrow> length t \<le> length s"
  by (auto simp: get_input_def split: if_splits)

lemma read_dumb_safe:
  assumes "mem_ok (old_of old) r w" "small got" "\<not> w_locked w"
  shows "\<exists>x w'. read_dumb got old r w = (Fine x, w') \<and> read_post r x w'"
proof -
  let ?w = "display_prompt (current_prompt r) w"
  have w: "mem_ok X r ?w = mem_ok X r w" "w_locked ?w = w_locked w" for X
    by (simp_all add: display_prompt_def emit_event_def mem_ok_def split: option.splits)
  obtain w1 where w1: "free_opt old ?w = Fine w1" "mem_ok {} r w1" "w_locked w1 = w_locked w"
    using free_opt_safe [of old r ?w] assms(1) w by auto
  have inl: "\<exists>x w'. read_dumb got old r w = (Fine x, w') \<and> read_post r x w'"
    if "get_input (case got of Line_read s \<Rightarrow> Some s | _ \<Rightarrow> None) = None"
    using w1 assms(3) that mem_ok_cong [of "emit_event (Printed [CHR 0x0A]) w1" w1 "{}" r]
    by (simp add: read_dumb_def read_post_def old_of_def emit_event_def)
  show ?thesis
  proof (cases "get_input (case got of Line_read s \<Rightarrow> Some s | _ \<Rightarrow> None)")
    case None
    then show ?thesis by (rule inl)
  next
    case (Some s)
    then have s: "length s < 16384"
      using assms(2) get_input_small by (cases got) (fastforce simp: small_def get_input_def)+
    obtain b w2 where b: "new_blk s w1 = (b, w2)" by (cases "new_blk s w1")
    have "\<not> w_locked w2" using b w1(3) assms(3) by (auto simp: new_blk_def)
    with Some w1 b s mem_ok_new [OF w1(2) b] mem_ok_cong [of "w2\<lparr>w_locked := True\<rparr>" w2 "{fst b}" r] show ?thesis
      by (simp add: read_dumb_def lock_print_def read_post_def)
  qed
qed

text \<open>Freeing the old line after the new one has been made keeps the new one.\<close>

lemma free_old_keeps:
  assumes "mem_ok (old_of old) r w" "new_blk s w = (b, w3)" "w_live w4 = w_live w3" "w_next w4 = w_next w3"
  shows "\<exists>w5. free_opt old w4 = Fine w5 \<and> mem_ok {fst b} r w5 \<and> w_locked w5 = w_locked w4"
  using assms
  by (cases old) (auto simp: free_opt_def old_of_def free_blk_def mem_ok_def new_blk_def less_Suc_eq)

lemma read_edited_safe:
  assumes "mem_ok (old_of old) r w" "small got" "\<not> w_locked w"
  shows "\<exists>x w'. read_edited eng ready got old w = (Fine x, w') \<and> read_post r x w'"
proof -
  define w1 where "w1 = (if ready then set_print_sender Print_now w else w)"
  define w2 where "w2 = (if ready \<and> \<not> print_newline eng (w_engine w1) then emit_event (Printed [CHR 0x0A]) w1 else w1)"
  have k: "w_live w2 = w_live w" "w_next w2 = w_next w" "\<not> w_locked w2"
    using assms(3) by (simp_all add: w2_def w1_def set_print_sender_def emit_event_def)
  have m: "mem_ok X r w2 = mem_ok X r w" for X using k by (simp add: mem_ok_def)
  note unfold_read = read_edited_def Let_def w1_def [symmetric] w2_def [symmetric]
  note defs = lock_print_def k(3) read_post_def set_print_sender_def unlock_print_def emit_event_def
  show ?thesis
  proof (cases got)
    case (Line_read s)
    obtain b w3 where b: "new_blk s w2 = (b, w3)" by (cases "new_blk s w2")
    define w4 where "w4 = (if ready then set_print_sender To_stderr (w3\<lparr>w_locked := True\<rparr>) else w3\<lparr>w_locked := True\<rparr>)"
    have k3: "\<not> w_locked w3" "snd b = s" using b k(3) by (auto simp: new_blk_def)
    have "w_live w4 = w_live w3" "w_next w4 = w_next w3" "w_locked w4"
      by (simp_all add: w4_def set_print_sender_def)
    then obtain w5 where w5: "free_opt old w4 = Fine w5" "mem_ok {fst b} r w5" "w_locked w5"
      using free_old_keeps [OF _ b, of old r w4] m assms(1) by blast
    show ?thesis
      using Line_read b assms(2) k3 w5 unfolding unfold_read w4_def
      by (cases ready) (simp_all add: defs small_def)
  next
    case Interrupted
    with m assms(1) show ?thesis unfolding unfold_read by (cases ready) (simp_all add: defs)
  next
    case Closed
    with m assms(1) show ?thesis unfolding unfold_read by (cases ready) (simp_all add: defs)
  qed
qed

lemma loop_safe:
  "engine_ok eng \<Longrightarrow> list_all small gots \<Longrightarrow> mem_ok (old_of old) r w \<Longrightarrow> \<not> w_locked w \<Longrightarrow>
   run_cmdline_loop n eng c pasting ready gots old r w \<noteq> Bad"
proof (induction n eng c pasting ready gots old r w rule: run_cmdline_loop.induct)
  case (2 n eng c pasting ready got gots old r w)
  have "small got" "list_all small gots" using 2(4) by simp_all
  obtain x w1 where x: "(if dumb_terminal c then read_dumb got old r w else read_edited eng ready got old w) =
      (Fine x, w1)" and post: "read_post r x w1"
    using read_dumb_safe [OF 2(5) \<open>small got\<close> 2(6)] read_edited_safe [OF 2(5) \<open>small got\<close> 2(6), of eng ready]
    by (cases "dumb_terminal c") auto
  show ?case
  proof (cases x)
    case (Inl p)
    obtain go_on old' where p: "p = (go_on, old')" by (cases p)
    have m: "mem_ok (old_of old') r w1" "\<not> w_locked w1" using post Inl p by (simp_all add: read_post_def)
    then have d: "mem_ok (old_of old') (drop_input c r) w1"
      by (simp add: mem_ok_def drop_input_def empty_previous_lines_def Let_def)
    obtain w2 where w2: "free_opt old' w1 = Fine w2" using free_opt_safe [OF m(1)] by blast
    have "run_cmdline_loop n eng c pasting ready gots old' (drop_input c r) w1 \<noteq> Bad" if "go_on"
      using 2(1) [OF x [symmetric] refl Inl p [symmetric] that 2(3) \<open>list_all small gots\<close> d m(2)] .
    with x Inl p w2 show ?thesis by simp
  next
    case (Inr line)
    have m: "mem_ok {fst line} r w1" "length (snd line) < 16384" using post Inr by (simp_all add: read_post_def)
    have "safe_run (\<lambda>_. True) (andthen (process_input n eng c pasting line r w1) (\<lambda>(break_out, r', w2).
            if break_out then andthen (free_blk line (unlock_print w2)) (\<lambda>w3. Fine (r', w3))
            else run_cmdline_loop n eng c pasting ready gots (Some line) r' (unlock_print w2)))"
    proof (rule safe_run_andthen [OF process_input_safe [OF 2(3) m]])
      fix y
      assume y: "mem_post {fst line} w1 y"
      obtain br r' w2 where y': "y = (br, r', w2)" by (cases y)
      with y have m1: "\<not> br \<Longrightarrow> mem_ok {fst line} r' (unlock_print w2)" "fst line \<in> w_live (unlock_print w2)"
          "\<not> w_locked (unlock_print w2)"
        by (auto simp: mem_post_def unlock_print_def mem_ok_def split: if_splits)
      then have "free_blk line (unlock_print w2) \<noteq> Bad" by (simp add: free_blk_def mem_ok_def)
      then have f: "safe_run (\<lambda>_. True) (andthen (free_blk line (unlock_print w2)) (\<lambda>w3. Fine (r', w3)))"
        by (cases "free_blk line (unlock_print w2)") auto
      have "mem_ok (old_of (Some line)) r' (unlock_print w2)" if "\<not> br" using m1(1) [OF that] by (simp add: old_of_def)
      then have "run_cmdline_loop n eng c pasting ready gots (Some line) r' (unlock_print w2) \<noteq> Bad" if "\<not> br"
        using 2(2) [OF x [symmetric] refl Inr that 2(3) \<open>list_all small gots\<close> _ m1(3)] that by simp
      then have l: "safe_run (\<lambda>_. True) (run_cmdline_loop n eng c pasting ready gots (Some line) r' (unlock_print w2))"
        if "\<not> br" using that by (simp add: safe_run_def)
      show "safe_run (\<lambda>_. True) (case y of (break_out, r', w2) \<Rightarrow>
            if break_out then andthen (free_blk line (unlock_print w2)) (\<lambda>w3. Fine (r', w3))
            else run_cmdline_loop n eng c pasting ready gots (Some line) r' (unlock_print w2))"
        using f l y' by simp
    qed
    with x Inr show ?thesis by (simp add: safe_run_def)
  qed
qed simp

section \<open>Evaluation\<close>

text \<open>The lines joined by newlines, as the input collects them.\<close>

fun joined :: "string list \<Rightarrow> string" where
  "joined [] = []"
| "joined [l] = l"
| "joined (l # ls) = l @ [CHR 0x0A] @ joined ls"

lemma joined_snoc: "ls \<noteq> [] \<Longrightarrow> joined (ls @ [l]) = joined ls @ [CHR 0x0A] @ l"
  by (induction ls rule: joined.induct) auto

text \<open>What is the input after the lines \<open>ps\<close>; the input's block is live.\<close>

definition collected :: "string list \<Rightarrow> repl \<Rightarrow> 'e world \<Rightarrow> bool" where
  "collected ps r w \<longleftrightarrow> mem_ok {} r w \<and>
     (if ps = [] then input r = None else \<exists>a. input r = Some (a, joined ps))"

lemma accumulate_collected:
  assumes "collected ps r w" "new_blk l w = (b, w1)"
  shows "\<exists>a r' w'. accumulate b (r\<lparr>indent_space_count := 0\<rparr>) w1 = Fine (r', w') \<and> a \<in> w_live w' \<and> fst b \<in> w_live w' \<and>
    r' = r\<lparr>indent_space_count := 0, input := Some (a, joined (ps @ [l]))\<rparr> \<and>
    mem_ok {} r' w' \<and> w_engine w' = w_engine w \<and> w_events w' = w_events w \<and> (ps = [] \<longrightarrow> a = fst b)"
proof (cases "ps = []")
  case True
  with assms show ?thesis
    by (cases b) (auto simp: collected_def accumulate_def new_blk_def mem_ok_def less_Suc_eq)
next
  case False
  then obtain a where a: "input r = Some (a, joined ps)" "a \<in> w_live w" "\<forall>x \<in> w_live w. x < w_next w"
    using assms(1) by (auto simp: collected_def mem_ok_def)
  with assms(2) False show ?thesis
    by (auto simp: accumulate_def free_blk_def read_blk_def new_blk_def mem_ok_def joined_snoc less_Suc_eq
        intro!: exI [of _ "Suc (w_next w)"])
qed

text \<open>What a session does with a line that is no exit command: the history, then the forms.\<close>

lemma process_line_collected:
  assumes "collected ps r w" "new_blk l w = (b, w1)" "\<not> is_exit_command (joined (ps @ [l])) (session_id r \<noteq> 0)"
  obtains a r2 w2 where
    "process_line n eng c pasting (r\<lparr>indent_space_count := 0\<rparr>) b sp w1 = process_forms n eng c pasting r2 w2"
    "r2 = r\<lparr>indent_space_count := 0, input := Some (a, joined (ps @ [l])), previous_lines := previous_lines r @ [l]\<rparr>"
    "mem_ok {} r2 w2" "a \<in> w_live w2" "w_engine w2 = w_engine w" "w_events w2 = w_events w" "ps = [] \<longrightarrow> a = fst b"
proof -
  obtain a r1 w' where acc: "accumulate b (r\<lparr>indent_space_count := 0\<rparr>) w1 = Fine (r1, w')" "a \<in> w_live w'" "fst b \<in> w_live w'"
      "r1 = r\<lparr>indent_space_count := 0, input := Some (a, joined (ps @ [l]))\<rparr>" "mem_ok {} r1 w'"
      "w_engine w' = w_engine w" "w_events w' = w_events w" "ps = [] \<longrightarrow> a = fst b"
    using accumulate_collected [OF assms(1,2)] by blast
  define r2 where "r2 = r1\<lparr>previous_lines := previous_lines r1 @ [snd b]\<rparr>"
  have i: "input r1 = Some (a, joined (ps @ [l]))" "input r2 = Some (a, joined (ps @ [l]))" "session_id r1 = session_id r"
    by (simp_all add: r2_def acc(4))
  obtain h s where h: "add_to_history c r2 b sp w' = Fine (w'\<lparr>w_history := h, w_saved := s\<rparr>)"
    using add_to_history_Fine [OF i(2) acc(2,3)] by blast
  show ?thesis
  proof (rule that)
    show "process_line n eng c pasting (r\<lparr>indent_space_count := 0\<rparr>) b sp w1 =
        process_forms n eng c pasting r2 (w'\<lparr>w_history := h, w_saved := s\<rparr>)"
      using process_line_taken [OF acc(1) i(1) acc(2,3) r2_def] assms(3) i(3) h by simp
    have "snd b = l" using assms(2) by (auto simp: new_blk_def)
    then show "r2 = r\<lparr>indent_space_count := 0, input := Some (a, joined (ps @ [l])), previous_lines := previous_lines r @ [l]\<rparr>"
      by (simp add: r2_def acc(4))
    show "mem_ok {} r2 (w'\<lparr>w_history := h, w_saved := s\<rparr>)" using acc(5) by (simp add: r2_def mem_ok_def)
  qed (simp_all add: acc)
qed

text \<open>A line after which the text is not yet readable is kept.\<close>

lemma process_line_incomplete:
  assumes "collected ps r w" "new_blk l w = (b, w1)" "is_readable eng (w_engine w) (joined (ps @ [l])) = None"
    "\<not> is_exit_command (joined (ps @ [l])) (session_id r \<noteq> 0)"
  shows "\<exists>r' w'. process_line (Suc n) eng c pasting (r\<lparr>indent_space_count := 0\<rparr>) b sp w1 = Fine (False, r', w') \<and>
    collected (ps @ [l]) r' w' \<and> w_engine w' = w_engine w \<and> w_events w' = w_events w \<and>
    session_id r' = session_id r \<and> current_ns r' = current_ns r"
proof -
  obtain a r2 w2 where pl: "process_line (Suc n) eng c pasting (r\<lparr>indent_space_count := 0\<rparr>) b sp w1 =
      process_forms (Suc n) eng c pasting r2 w2"
    and r2: "r2 = r\<lparr>indent_space_count := 0, input := Some (a, joined (ps @ [l])), previous_lines := previous_lines r @ [l]\<rparr>"
    and w2: "mem_ok {} r2 w2" "a \<in> w_live w2" "w_engine w2 = w_engine w" "w_events w2 = w_events w"
    by (rule process_line_collected [OF assms(1,2,4)])
  have i: "input r2 = Some (a, joined (ps @ [l]))" by (simp add: r2)
  have "is_readable eng (w_engine w2) (joined (ps @ [l])) = None" using assms(3) w2(3) by simp
  from process_forms_unreadable [where n = n and c = c and pasting = pasting, OF i this]
  show ?thesis
    using pl w2 unfolding Let_def
    by (auto simp: collected_def mem_ok_def r2)
qed

definition theme_of :: "cfg \<Rightarrow> repl \<Rightarrow> string" where
  "theme_of c r = (if session_id r = 0 then cfg_theme c else ''dumb'')"

text \<open>A line that makes the text readable to its end has it evaluated.\<close>

lemma process_line_complete:
  assumes "collected ps r w" "new_blk l w = (b, w1)" "is_readable eng (w_engine w) (joined (ps @ [l])) = Some []"
    "\<not> is_exit_command (joined (ps @ [l])) (session_id r \<noteq> 0)" "\<not> is_whitespace (joined (ps @ [l]))"
    "evaluate eng (current_ns r) (theme_of c r) (session_id r) (joined (ps @ [l])) (w_engine w) = (e', 0)"
  shows "\<exists>r' w'. process_line (Suc n) eng c pasting (r\<lparr>indent_space_count := 0\<rparr>) b sp w1 = Fine (False, r', w') \<and>
    input r' = None \<and> previous_lines r' = [] \<and> w_engine w' = e' \<and>
    w_events w' = w_events w @ [Evaluated (joined (ps @ [l])) (current_ns r) (theme_of c r) (session_id r)
      (\<not> dumb_terminal c) (session_id r = 0)] \<and> (ps = [] \<longrightarrow> fst b \<notin> w_live w' \<and> fst b < w_next w')"
proof -
  let ?t = "joined (ps @ [l])"
  obtain a r2 w2 where pl: "process_line (Suc n) eng c pasting (r\<lparr>indent_space_count := 0\<rparr>) b sp w1 =
      process_forms (Suc n) eng c pasting r2 w2"
    and r2: "r2 = r\<lparr>indent_space_count := 0, input := Some (a, ?t), previous_lines := previous_lines r @ [l]\<rparr>"
    and m: "mem_ok {} r2 w2" "a \<in> w_live w2" "w_engine w2 = w_engine w" "w_events w2 = w_events w" "ps = [] \<longrightarrow> a = fst b"
    by (rule process_line_collected [OF assms(1,2,4)])
  obtain bal w3 where w3: "new_blk [] w2 = (bal, w3)" by (cases "new_blk [] w2")
  obtain leave w4 where w4: "evaluate_form eng c r2 ?t w3 = (leave, w4)" by (cases "evaluate_form eng c r2 ?t w3")
  define w5 where "w5 = w4\<lparr>w_live := w_live w4 - {a}\<rparr>"
  define w6 where "w6 = w5\<lparr>w_live := w_live w5 - {fst bal}\<rparr>"
  have i: "input r2 = Some (a, ?t)" "session_id r2 = session_id r" "current_ns r2 = current_ns r"
    by (simp_all add: r2)
  have b: "fst bal = w_next w2" "snd bal = []" "w_live w3 = insert (w_next w2) (w_live w2)"
      "w_engine w3 = w_engine w" "w_events w3 = w_events w" "w_next w3 = Suc (w_next w2)"
    using w3 m(3,4) by (auto simp: new_blk_def)
  have ev: "leave = False" "w_engine w4 = e'" "w_events w4 = w_events w @ [Evaluated ?t (current_ns r) (theme_of c r)
      (session_id r) (\<not> dumb_terminal c) (session_id r = 0)]"
    using w4 assms(5,6) i b by (auto simp: evaluate_form_def Let_def emit_event_def theme_of_def)
  have keeps: "w_live w4 = w_live w3" "w_next w4 = w_next w3"
    using evaluate_form_keeps [of eng c r2 ?t w3, unfolded w4 snd_conv] by simp_all
  have a: "a < w_next w2" using m(1,2) by (simp add: mem_ok_def)
  have blks: "free_blk (a, ?t) w4 = Fine w5" "read_blk bal w5 = Fine []" "free_blk bal w5 = Fine w6"
    using keeps a b m(2) by (simp_all add: free_blk_def read_blk_def w5_def w6_def)
  define r3 where "r3 = update_ns eng c w5 (empty_previous_lines (r2\<lparr>input := Some bal\<rparr>))"
  have readable: "is_readable eng (w_engine w2) ?t = Some []" using assms(3) m(3) by simp
  have "process_forms (Suc n) eng c pasting r2 w2 = Fine (False, r3\<lparr>input := None\<rparr>, w6)"
    using process_forms_readable [where n = n and pasting = pasting, OF i(1) readable _ w3, of c leave w4] w4 m(2) ev(1) blks
    by (simp add: is_whitespace_def Let_def r3_def)
  moreover have "previous_lines r3 = []" by (simp add: r3_def empty_previous_lines_def)
  moreover have "a < w_next w6" using keeps a b(6) by (simp add: w6_def w5_def)
  ultimately show ?thesis using pl ev m(5) by (cases "ps = []") (simp_all add: w5_def w6_def)
qed

text \<open>The lines before the last one leave the text unreadable.\<close>

definition reads_as :: "'e engine \<Rightarrow> 'e \<Rightarrow> bool \<Rightarrow> string list \<Rightarrow> bool" where
  "reads_as eng e sock ls \<longleftrightarrow> ls \<noteq> [] \<and> \<not> is_whitespace (joined ls) \<and> is_readable eng e (joined ls) = Some [] \<and>
     (\<forall>k. 0 < k \<and> k < length ls \<longrightarrow> is_readable eng e (joined (take k ls)) = None) \<and>
     (\<forall>k. 0 < k \<and> k \<le> length ls \<longrightarrow> \<not> is_exit_command (joined (take k ls)) sock)"

lemma process_tokens_joined:
  assumes "reads_as eng (w_engine w) (session_id r \<noteq> 0) (ps @ ts)" "ts \<noteq> []" "collected ps r w"
    "evaluate eng (current_ns r) (theme_of c r) (session_id r) (joined (ps @ ts)) (w_engine w) = (e', 0)"
  shows "\<exists>r' w'. process_tokens (Suc n) eng c pasting ts r w = Fine (False, r', w') \<and>
    input r' = None \<and> previous_lines r' = [] \<and> w_engine w' = e' \<and>
    w_events w' = w_events w @ [Evaluated (joined (ps @ ts)) (current_ns r) (theme_of c r) (session_id r)
      (\<not> dumb_terminal c) (session_id r = 0)]"
  using assms
proof (induction ts arbitrary: ps r w)
  case (Cons t ts)
  obtain b w1 where b: "new_blk t w = (b, w1)" by (cases "new_blk t w")
  have take: "take (Suc (length ps)) (ps @ t # ts) = ps @ [t]" by simp
  have noexit: "\<not> is_exit_command (joined (ps @ [t])) (session_id r \<noteq> 0)"
    using Cons.prems(1) take unfolding reads_as_def
    by (metis Suc_leI length_append length_Cons less_add_same_cancel1 zero_less_Suc)
  show ?case
  proof (cases "ts = []")
    case True
    then show ?thesis
      using process_line_complete [OF Cons.prems(3) b _ noexit, of eng c e' n pasting False] Cons.prems(1,4) b
      by (auto simp: reads_as_def)
  next
    case False
    have unread: "is_readable eng (w_engine w) (joined (ps @ [t])) = None"
      using Cons.prems(1) False take unfolding reads_as_def
      by (metis add_Suc_right length_append length_Cons length_greater_0_conv less_add_same_cancel1 zero_less_Suc
          add_less_cancel_left Suc_less_eq)
    obtain r1 w2 where r1: "process_line (Suc n) eng c pasting (r\<lparr>indent_space_count := 0\<rparr>) b False w1 = Fine (False, r1, w2)"
        "collected (ps @ [t]) r1 w2" "w_engine w2 = w_engine w" "w_events w2 = w_events w"
        "session_id r1 = session_id r" "current_ns r1 = current_ns r"
      using process_line_incomplete [OF Cons.prems(3) b unread noexit] by blast
    have "theme_of c r1 = theme_of c r" by (simp add: theme_of_def r1(5))
    then show ?thesis
      using Cons.IH [of w2 r1 "ps @ [t]"] Cons.prems(1,4) False r1 b by simp
  qed
qed simp

section \<open>Sockets\<close>

text \<open>A run that does not end the process, and what holds where it comes to its end.\<close>

definition stays :: "('a \<Rightarrow> bool) \<Rightarrow> 'a run_result \<Rightarrow> bool" where
  "stays P res \<longleftrightarrow> (\<forall>k. res \<noteq> Quit k) \<and> (\<forall>x. res = Fine x \<longrightarrow> P x)"

lemma stays_simps [simp]:
  "stays P (Fine x) \<longleftrightarrow> P x" "\<not> stays P (Quit n)" "stays P Bad" "stays P Endless"
  by (simp_all add: stays_def)

lemma stays_andthen:
  "stays Q res \<Longrightarrow> (\<And>x. Q x \<Longrightarrow> stays P (f x)) \<Longrightarrow> stays P (andthen res f)"
  by (cases res) auto

lemma stays_blocks:
  "stays (\<lambda>_. True) (free_blk b w)" "stays (\<lambda>_. True) (free_opt ob w)" "stays (\<lambda>_. True) (read_blk b w)"
  "stays (\<lambda>_. True) (read_input r w)" "stays (\<lambda>_. True) (add_to_history c r line sp w)"
  by (auto simp: free_blk_def free_opt_def read_blk_def read_input_def add_to_history_def Let_def split: option.splits)

definition same_session :: "repl \<Rightarrow> bool \<times> repl \<times> 'e world \<Rightarrow> bool" where
  "same_session r = (\<lambda>(leave, r', w'). session_id r' = session_id r)"

lemma process_forms_session: "stays (same_session r) (process_forms n eng c pasting r w)"
proof (induction n arbitrary: r pasting w)
  case (Suc n)
  have rec: "stays (same_session r) (process_forms n eng c p r2 w2)" if "session_id r2 = session_id r" for r2 p w2
    using Suc [of r2 p w2] that by (simp add: same_session_def)
  show ?case
    unfolding process_forms.simps
    by (rule stays_andthen [OF stays_blocks(4)])
      (auto simp: Let_def same_session_def [of r] empty_previous_lines_def split: option.splits prod.splits
        intro!: stays_andthen [OF stays_blocks(4)] stays_andthen [OF stays_blocks(2)]
          stays_andthen [OF stays_blocks(3)] stays_andthen [OF stays_blocks(1)]
          rec [unfolded same_session_def [of r]])
qed (simp add: process_forms.simps)

lemma process_line_session:
  assumes "session_id r \<noteq> 0"
  shows "stays (same_session r) (process_line n eng c pasting r line sp w)"
proof -
  have acc: "stays (\<lambda>(r1, w1). session_id r1 = session_id r) (accumulate line r w)"
    by (auto simp: accumulate_def new_blk_def split: option.splits
      intro!: stays_andthen [OF stays_blocks(3)] stays_andthen [OF stays_blocks(1)])
  have forms: "stays (same_session r) (process_forms n eng c pasting r2 w2)" if "session_id r2 = session_id r" for r2 w2
    using process_forms_session [of r2 n eng c pasting w2] that by (simp add: same_session_def)
  show ?thesis
    unfolding process_line_def
    by (rule stays_andthen [OF acc])
      (auto simp: Let_def assms same_session_def [of r] intro!: stays_andthen [OF stays_blocks(3)]
        stays_andthen [OF stays_blocks(4)] stays_andthen [OF stays_blocks(5)]
        forms [unfolded same_session_def [of r]])
qed

section \<open>Properties\<close>

text \<open>
  On a terminal with line editing the secondary prompt is as wide as the primary one, for
  every namespace with a name.
\<close>

lemma prompts_align:
  assumes "current_ns r \<noteq> []" "session_id r = 0" "\<not> dumb_terminal c"
  shows "\<exists>p q. form_prompt c r False = Some p \<and> form_prompt c r True = Some q \<and> length p = length q"
proof -
  have "length (current_ns r) \<noteq> 0" using assms(1) by simp
  then have "length (current_ns r) = 1 \<or> 2 \<le> length (current_ns r)" by linarith
  then show ?thesis using assms(2,3) by (auto simp: form_prompt_def Let_def SEC_PROMPT_def str_concat_def)
qed

text \<open>
  C27. Lines that together are one readable text, and none of whose beginnings is, are evaluated
  once, joined by newlines, in the namespace and with the theme of the session; the session is
  then ready for the next input.
\<close>

theorem lines_evaluated_once:
  assumes "reads_as eng (w_engine w) (session_id r \<noteq> 0) ls" "mem_ok {} r w" "input r = None"
    "evaluate eng (current_ns r) (theme_of c r) (session_id r) (joined ls) (w_engine w) = (e', 0)"
  shows "\<exists>r' w'. process_tokens (Suc n) eng c pasting ls r w = Fine (False, r', w') \<and>
    input r' = None \<and> previous_lines r' = [] \<and> w_engine w' = e' \<and>
    w_events w' = w_events w @ [Evaluated (joined ls) (current_ns r) (theme_of c r) (session_id r)
      (\<not> dumb_terminal c) (session_id r = 0)]"
  using process_tokens_joined [of eng w r "[]" ls c e' n pasting] assms
  by (simp add: reads_as_def collected_def)

text \<open>
  C28. The command line loop frees and reads only live memory, on any lines below 16384 bytes,
  interrupts and ends of input, if the text the engine leaves over is shorter than what it was
  given, or blank. Once the input ends the loop returns or leaves the process: as much fuel as
  there are bytes to read, and one for each line, is enough for it.
\<close>

theorem cmdline_loop_safe:
  assumes "engine_ok eng" "list_all small gots" "mem_ok {} r w" "\<not> w_locked w"
  shows "run_cmdline_loop n eng c pasting ready gots None r w \<noteq> Bad \<and>
    (Closed \<in> set gots \<and> in_len r + read_size gots \<le> n \<longrightarrow>
      run_cmdline_loop n eng c pasting ready gots None r w \<noteq> Endless)"
proof (intro conjI impI)
  show "run_cmdline_loop n eng c pasting ready gots None r w \<noteq> Bad"
    by (rule loop_safe) (use assms in \<open>simp_all add: old_of_def\<close>)
  show "run_cmdline_loop n eng c pasting ready gots None r w \<noteq> Endless"
    if "Closed \<in> set gots \<and> in_len r + read_size gots \<le> n"
    by (rule loop_ends) (use assms that in simp_all)
qed

text \<open>A line that is no longer live is freed again when the next one is read.\<close>

lemma reads_after_free:
  assumes "fst b \<notin> w_live w" "fst b < w_next w" "\<not> w_locked w" "dumb_terminal c \<or> got \<noteq> Interrupted"
  shows "run_cmdline_loop n eng c pasting ready (got # gots) (Some b) r w = Bad"
proof (cases "dumb_terminal c")
  case True
  have "fst b \<notin> w_live (display_prompt p w)" for p
    using assms(1) by (simp add: display_prompt_def emit_event_def split: option.splits)
  then have "fst (read_dumb got (Some b) r w) = Bad"
    by (simp add: read_dumb_def free_opt_def free_blk_def Let_def)
  then obtain w1 where "read_dumb got (Some b) r w = (Bad, w1)" by (metis prod.collapse)
  with True show ?thesis by simp
next
  case False
  note defs = read_edited_def new_blk_def free_opt_def free_blk_def set_print_sender_def emit_event_def
    lock_print_def unlock_print_def
  show ?thesis
  proof (cases got)
    case (Line_read s)
    have "\<exists>w1. read_edited eng ready got (Some b) w = (Bad, w1)"
      using assms(1-3) Line_read by (auto simp: defs Let_def)
    with False show ?thesis by auto
  next
    case Closed
    have "\<exists>w1. read_edited eng ready got (Some b) w = (Fine (Inl (False, Some b)), w1) \<and> fst b \<notin> w_live w1"
      using assms(1-3) Closed by (auto simp: defs Let_def)
    with False show ?thesis by (auto simp: free_opt_def free_blk_def)
  qed (use assms(4) False in simp)
qed

text \<open>Reading the first line, on either terminal: a new block, made in a world like the old one.\<close>

lemma reads_first:
  assumes "\<not> w_locked w" "LF0 = CHR 0x0A" "LF0 \<notin> set s" "s \<noteq> []"
  obtains w2 b w3 where "(if dumb_terminal c then read_dumb (Line_read s) None r w
      else read_edited eng ready (Line_read s) None w) = (Fine (Inr b), w3)"
    "new_blk s w2 = (b, w3)" "w_engine w2 = w_engine w" "w_live w2 = w_live w" "w_next w2 = w_next w"
proof (cases "dumb_terminal c")
  case True
  define w2 where "w2 = (display_prompt (current_prompt r) w)\<lparr>w_locked := True\<rparr>"
  obtain b w3 where b: "new_blk s w2 = (b, w3)" by (cases "new_blk s w2")
  have "last s \<noteq> CHR 0x0A" using assms(2-4) last_in_set by metis
  then have "get_input (Some s) = Some s" by (simp add: get_input_def)
  moreover have "\<not> w_locked (display_prompt (current_prompt r) w)"
    using assms(1) by (simp add: display_prompt_def emit_event_def split: option.splits)
  ultimately have "read_dumb (Line_read s) None r w = (Fine (Inr b), w3)"
    using b by (auto simp: read_dumb_def free_opt_def lock_print_def new_blk_def w2_def Let_def)
  moreover have "w_engine w2 = w_engine w" "w_live w2 = w_live w" "w_next w2 = w_next w"
    by (simp_all add: w2_def display_prompt_def emit_event_def split: option.splits)
  ultimately show ?thesis using that [of b w3 w2] True b by simp
next
  case False
  define w1 where "w1 = (if ready then set_print_sender Print_now w else w)"
  define w1' where "w1' = (if ready \<and> \<not> print_newline eng (w_engine w1) then emit_event (Printed [CHR 0x0A]) w1 else w1)"
  define w2 where "w2 = (if ready then set_print_sender To_stderr w1' else w1')\<lparr>w_locked := True\<rparr>"
  obtain b w3 where b: "new_blk s w2 = (b, w3)" by (cases "new_blk s w2")
  have k: "\<not> w_locked w1'" "w_engine w1' = w_engine w" "w_live w1' = w_live w" "w_next w1' = w_next w"
    using assms(1) by (simp_all add: w1'_def w1_def set_print_sender_def emit_event_def)
  have "read_edited eng ready (Line_read s) None w = (Fine (Inr b), w3)"
    using b k(1) unfolding read_edited_def Let_def w1_def [symmetric] w1'_def [symmetric]
    by (auto simp: new_blk_def free_opt_def lock_print_def w2_def set_print_sender_def)
  moreover have "w_engine w2 = w_engine w" "w_live w2 = w_live w" "w_next w2 = w_next w"
    using k by (simp_all add: w2_def set_print_sender_def)
  ultimately show ?thesis using that [of b w3 w2] False b by simp
qed

lemma read_new: "new_blk s w = (b, w') \<Longrightarrow> read_blk b w' = Fine s"
  by (auto simp: new_blk_def read_blk_def)

lemma long_line_loop:
  assumes "dumb_terminal c \<or> got \<noteq> Interrupted" "input r = None" "session_id r = 0" "mem_ok {} r w" "\<not> w_locked w"
    "16384 \<le> length s" "CHR 0x0A \<notin> set s" "\<not> is_exit_command s False" "\<not> is_whitespace s"
    "is_readable eng (w_engine w) s = Some []" "evaluate eng (current_ns r) (cfg_theme c) 0 s (w_engine w) = (e', 0)"
  shows "run_cmdline_loop (Suc n) eng c pasting ready (Line_read s # got # gots) None r w = Bad"
proof -
  have "s \<noteq> []" using assms(6) by auto
  then obtain w2 b w3 where rd: "(if dumb_terminal c then read_dumb (Line_read s) None r w
      else read_edited eng ready (Line_read s) None w) = (Fine (Inr b), w3)"
    and b: "new_blk s w2 = (b, w3)" and k: "w_engine w2 = w_engine w" "w_live w2 = w_live w" "w_next w2 = w_next w"
    using reads_first [OF assms(5) refl assms(7), of c r eng ready thesis] by blast
  have "collected [] r w2" using assms(2,4) k by (simp add: collected_def mem_ok_def)
  then obtain r' w' where pl: "process_line (Suc n) eng c pasting (r\<lparr>indent_space_count := 0\<rparr>) b True w3 = Fine (False, r', w')"
      "fst b \<notin> w_live w'" "fst b < w_next w'"
    using process_line_complete [of "[]" r w2 s b w3 eng c e' n pasting True] b assms(3,8-11) k
    by (auto simp: theme_of_def)
  have sb: "snd b = s" using b by (auto simp: new_blk_def)
  have "process_input (Suc n) eng c pasting b r w3 = Fine (False, r', w')"
    using pl(1) assms(2,6) sb read_new [OF b] by (simp add: process_input_def)
  moreover have "run_cmdline_loop (Suc n) eng c pasting ready (got # gots) (Some b) r' (unlock_print w') = Bad"
    using pl(2,3) assms(1) by (intro reads_after_free) (simp_all add: unlock_print_def)
  ultimately show ?thesis using rd by simp
qed

text \<open>
  C29. A line of 16384 bytes or more, once evaluated, is freed twice: \<open>process_line\<close> takes the
  line itself over and frees it, and the loop frees it again when it has read the next one or
  ends (on a dumb terminal, before it reads on).
\<close>

theorem long_line_freed_twice:
  assumes "dumb_terminal c \<or> got \<noteq> Interrupted" "input r = None" "session_id r = 0" "mem_ok {} r w" "\<not> w_locked w"
    "16384 \<le> length s" "CHR 0x0A \<notin> set s" "\<not> is_exit_command s False" "\<not> is_whitespace s"
    "is_readable eng (w_engine w) s = Some []" "evaluate eng (current_ns r) (cfg_theme c) 0 s (w_engine w) = (e', 0)"
  shows "run_cmdline_loop (Suc n) eng c pasting ready (Line_read s # got # gots) None r w = Bad"
  by (rule long_line_loop [OF assms])

text \<open>
  What a session does with the data: the line without its line end is processed under the lock,
  and \<open>end_of_data\<close> puts the printing back and shows the prompt.
\<close>

definition end_of_data ::
  "int \<Rightarrow> int \<Rightarrow> bool \<times> repl \<times> 'e world \<Rightarrow> (int \<times> bool \<times> repl \<times> 'e world) run_result" where
  "end_of_data sock sent = (\<lambda>(leave, r', w3).
     let w4 = unlock_print ((set_print_sender To_stderr w3)\<lparr>w_sock := 0\<rparr>) in
     case current_prompt r' of
       Some p \<Rightarrow> if \<not> leave then Fine (sent, leave, r', emit_event (To_socket sock p) w4)
         else Fine (0, leave, r', w4)
     | None \<Rightarrow> Fine (0, leave, r', w4))"

lemma socket_data_processed:
  assumes "\<not> w_locked w"
  obtains b w2 where "new_blk (if str_has_suffix d [CHR 0x0D, CHR 0x0A] = 0 then take (length d - 2) d else d)
      (set_print_sender To_sock (w\<lparr>w_sock := sock, w_locked := True\<rparr>)) = (b, w2)"
    and "socket_repl_data_arrived n eng c pasting (Some d) sock sent r w =
      andthen (process_line n eng c pasting r b False w2) (end_of_data sock sent)"
proof -
  obtain b w2 where b: "new_blk (if str_has_suffix d [CHR 0x0D, CHR 0x0A] = 0 then take (length d - 2) d else d)
      (set_print_sender To_sock (w\<lparr>w_sock := sock, w_locked := True\<rparr>)) = (b, w2)" by fastforce
  show ?thesis
    by (rule that [OF b]) (simp add: socket_repl_data_arrived_def Let_def lock_print_def assms b end_of_data_def)
qed

lemma end_of_data_restores:
  "\<exists>err w'. end_of_data sock sent (leave, r', w3) = Fine (err, leave, r', w') \<and> mem_ok {} r' w' = mem_ok {} r' w3 \<and>
    \<not> w_locked w' \<and> w_sender w' = To_stderr \<and> w_sock w' = 0"
  by (auto simp: end_of_data_def Let_def unlock_print_def set_print_sender_def emit_event_def split: option.splits)

lemma andthen_fine: "andthen res f = Fine y \<longleftrightarrow> (\<exists>x. res = Fine x \<and> f x = Fine y)"
  by (cases res) auto

lemma exit_command_leaves:
  assumes "process_line n eng c pasting r b False w = Fine (leave, r', w')" "input r = None" "session_id r \<noteq> 0"
    and "is_exit_command (snd b) True"
  shows "leave"
  using assms by (cases b) (auto simp: process_line_def accumulate_def read_blk_def read_input_def Let_def
    andthen_fine split: if_splits)

text \<open>
  C30. Data that arrives at a session of the socket REPL is always dealt with, for an engine that
  leaves over less than it was given, or only blanks: it never ends the process and touches only
  live memory, and with fuel for the bytes collected and those that arrive it does not run on.
  Afterwards the session is the same one, the print lock is free, no socket is set for the output,
  and no print sender is set, whichever was set before: the one that the line editor had put in
  place, for printing while a line is edited, is lost. With nothing collected, a line that is an
  exit command, with its line end or without one, closes the session.
\<close>

theorem socket_session_isolated:
  fixes eng :: "'e engine"
  assumes "engine_ok eng" "mem_ok {} r w" "\<not> w_locked w" "session_id r \<noteq> 0" "in_len r + length d < n"
  shows "\<exists>err leave r' w'. socket_repl_data_arrived n eng c pasting (Some d) sock sent r w = Fine (err, leave, r', w') \<and>
    session_id r' = session_id r \<and> (\<not> leave \<longrightarrow> mem_ok {} r' w') \<and>
    \<not> w_locked w' \<and> w_sender w' = To_stderr \<and> w_sock w' = 0 \<and>
    (input r = None \<and> (\<exists>cmd. (d = cmd \<or> d = cmd @ [CHR 0x0D, CHR 0x0A]) \<and> is_exit_command cmd True) \<longrightarrow> leave)"
proof -
  let ?d = "if str_has_suffix d [CHR 0x0D, CHR 0x0A] = 0 then take (length d - 2) d else d"
  obtain b w2 where b: "new_blk ?d (set_print_sender To_sock (w\<lparr>w_sock := sock, w_locked := True\<rparr>)) = (b, w2)"
    and res: "socket_repl_data_arrived n eng c pasting (Some d) sock sent r w =
      andthen (process_line n eng c pasting r b False w2) (end_of_data sock sent)"
    by (rule socket_data_processed [OF assms(3)])
  have m: "mem_ok {} r (set_print_sender To_sock (w\<lparr>w_sock := sock, w_locked := True\<rparr>))"
    using assms(2) by (simp add: set_print_sender_def)
  have "length (snd b) \<le> length d" using b by (auto simp: new_blk_def)
  then have "process_line n eng c pasting r b False w2 \<noteq> Endless"
    using process_line_ends [OF assms(1), of r b n c pasting False w2] assms(5) by (simp add: ends_def)
  moreover have safe: "safe_run (mem_post {} w2) (process_line n eng c pasting r b False w2)"
    by (rule process_line_safe [OF assms(1) new_blk_gets(1) [OF m b]]) simp
  moreover have "process_line n eng c pasting r b False w2 \<noteq> Quit k" for k
    using process_line_session [OF assms(4), of n eng c pasting b False w2] by (simp add: stays_def)
  ultimately obtain leave r' w3 where x: "process_line n eng c pasting r b False w2 = Fine (leave, r', w3)"
    by (metis prod_cases3 run_result.exhaust safe_run_simps(4))
  have quits: "leave" if "input r = None" "d = cmd \<or> d = cmd @ [CHR 0x0D, CHR 0x0A]" "is_exit_command cmd True" for cmd
  proof -
    have "\<not> suffix [CHR 0x0D, CHR 0x0A] cmd" using that(3) by (auto simp: is_exit_command_def suffix_def)
    then have "snd b = cmd" using b that(2) by (auto simp: new_blk_def str_has_suffix_0 suffix_def)
    then show ?thesis using exit_command_leaves [OF x that(1) assms(4)] that(3) by simp
  qed
  obtain err w' where f: "end_of_data sock sent (leave, r', w3) = Fine (err, leave, r', w')"
      "mem_ok {} r' w' = mem_ok {} r' w3" "\<not> w_locked w'" "w_sender w' = To_stderr" "w_sock w' = 0"
    using end_of_data_restores by blast
  have "\<not> leave \<longrightarrow> mem_ok {} r' w3" using safe x by (auto simp: mem_post_def)
  moreover have "session_id r' = session_id r"
    using process_line_session [OF assms(4), of n eng c pasting b False w2] x by (simp add: same_session_def)
  ultimately show ?thesis using res x f quits by auto
qed

section \<open>Witnesses\<close>

definition sample_engine :: "nat engine" where
  "sample_engine = \<lparr>is_readable = (\<lambda>e t. if t \<noteq> [] \<and> last t = CHR '')'' then Some [] else None),
     evaluate = (\<lambda>ns theme sid t e. (Suc e, 0)), get_current_ns = (\<lambda>e. Some ''cljs.user''),
     indent_of = (\<lambda>e t. 2), print_newline = (\<lambda>e. True)\<rparr>"

definition sample_cfg :: cfg where
  "sample_cfg = \<lparr>dumb_terminal = True, cfg_theme = ''plain'', cfg_quiet = False, hist_max = 100\<rparr>"

definition sample_world :: "nat world" where
  "sample_world = \<lparr>w_engine = 0, w_live = {}, w_next = 0, w_history = [], w_saved = None, w_exit = 0,
     w_events = [], w_locked = False, w_sender = To_stderr, w_sock = 0\<rparr>"

lemma sample_mem: "mem_ok {} make_repl sample_world"
  by (simp add: mem_ok_def make_repl_def sample_world_def)

lemma sample_engine_ok: "engine_ok sample_engine"
  by (auto simp: engine_ok_def sample_engine_def)

lemma less_two: "k < Suc (Suc 0) \<longleftrightarrow> k = 0 \<or> k = Suc 0" "k \<le> Suc (Suc 0) \<longleftrightarrow> k = 0 \<or> k = Suc 0 \<or> k = Suc (Suc 0)"
  for k :: nat
  by auto

lemma lines_evaluated_once_witness:
  "\<exists>r' w'. process_tokens 1 sample_engine sample_cfg False [''(+ 1'', ''2)''] make_repl sample_world =
      Fine (False, r', w') \<and>
    w_events w' = [Evaluated (''(+ 1'' @ [CHR 0x0A] @ ''2)'') ''cljs.user'' ''plain'' 0 False True]"
proof -
  have "reads_as sample_engine (w_engine sample_world) (session_id make_repl \<noteq> 0) [''(+ 1'', ''2)'']"
    by (auto simp: reads_as_def less_two sample_engine_def is_whitespace_def is_exit_command_def isspace_def)
  then show ?thesis
    using lines_evaluated_once [OF _ sample_mem, of sample_engine "[''(+ 1'', ''2)'']" sample_cfg 1 0 False]
    by (auto simp: make_repl_def sample_engine_def sample_world_def sample_cfg_def theme_of_def)
qed

lemma cmdline_loop_safe_witness:
  "run_cmdline_loop 9 sample_engine sample_cfg False True [Line_read ''(+ 1'', Closed] None make_repl sample_world \<noteq> Bad \<and>
   run_cmdline_loop 9 sample_engine sample_cfg False True [Line_read ''(+ 1'', Closed] None make_repl sample_world \<noteq> Endless"
  using cmdline_loop_safe [OF sample_engine_ok, of "[Line_read ''(+ 1'', Closed]" make_repl sample_world 9 sample_cfg False True]
    sample_mem
  by (simp add: small_def sample_world_def in_len_def make_repl_def read_size_def)

lemma long_line_freed_twice_witness:
  "\<exists>s. run_cmdline_loop (Suc 0) sample_engine sample_cfg False True [Line_read s, Closed] None make_repl sample_world = Bad"
proof -
  obtain k :: nat where k: "k = 16384" by blast
  let ?s = "replicate k CHR ''x'' @ '')''"
  have s: "length ?s = Suc k" "CHR 0x0A \<notin> set ?s" "CHR '')'' \<in> set ?s" "CHR ''x'' \<in> set ?s"
    using k by auto
  then have "\<not> is_whitespace ?s" by (auto simp: is_whitespace_def list_all_iff isspace_def)
  moreover have "\<not> is_exit_command ?s False"
    using s(3) by (auto simp: is_exit_command_def dest!: arg_cong [where f = last])
  ultimately have "run_cmdline_loop (Suc 0) sample_engine sample_cfg False True (Line_read ?s # Closed # [])
      None make_repl sample_world = Bad"
    using s k
    by (intro long_line_freed_twice [OF _ _ _ sample_mem])
       (simp_all add: make_repl_def sample_cfg_def sample_world_def sample_engine_def)
  then show ?thesis by blast
qed

lemma socket_session_isolated_witness:
  "\<exists>err r' w'. socket_repl_data_arrived 20 sample_engine sample_cfg False
      (Some ('':repl/quit'' @ [CHR 0x0D, CHR 0x0A])) 7 0 (make_repl\<lparr>session_id := 1\<rparr>) sample_world =
    Fine (err, True, r', w') \<and> session_id r' = 1 \<and> \<not> w_locked w'"
proof -
  let ?r = "make_repl\<lparr>session_id := 1\<rparr>" and ?d = "'':repl/quit'' @ [CHR 0x0D, CHR 0x0A]"
  have "mem_ok {} ?r sample_world" "\<not> w_locked sample_world" "session_id ?r \<noteq> 0" "in_len ?r + length ?d < 20"
    by (simp_all add: mem_ok_def make_repl_def sample_world_def in_len_def)
  from socket_session_isolated [OF sample_engine_ok this, of sample_cfg False 7 0]
  obtain err leave r' w' where
    res: "socket_repl_data_arrived 20 sample_engine sample_cfg False (Some ?d) 7 0 ?r sample_world = Fine (err, leave, r', w')"
      "session_id r' = session_id ?r" "\<not> w_locked w'"
      "input ?r = None \<and> (\<exists>cmd. (?d = cmd \<or> ?d = cmd @ [CHR 0x0D, CHR 0x0A]) \<and> is_exit_command cmd True) \<longrightarrow> leave"
    by blast
  have "is_exit_command '':repl/quit'' True" "input ?r = None" by (simp_all add: is_exit_command_def make_repl_def)
  with res(4) have leave by blast
  with res(1-3) show ?thesis by simp
qed

end
