(* ===== verification/Highlight.thy ===== *)
theory Highlight
  imports Planck_Prelude "HOL-Library.Signed_Division"
begin

text \<open>
  The bracket highlighting of \<open>repl.c\<close>: \<open>highlight\<close> moves the cursor to the bracket that matches
  the one just typed, and \<open>do_highlight_restore\<close> moves it back, called by a timer thread and, when
  the next key comes first, by \<open>highlight_cancel\<close>. A sequence number decides which of the two
  restores. A step of a thread is one of its critical sections or its output.
\<close>

section \<open>Cursor moves\<close>

datatype cursor_move = Up int | Down int | Forward int | Back int

fun displacement :: "cursor_move \<Rightarrow> int \<times> int" where
  "displacement (Up n) = (- n, 0)"
| "displacement (Down n) = (n, 0)"
| "displacement (Forward n) = (0, n)"
| "displacement (Back n) = (0, - n)"

definition total :: "cursor_move list \<Rightarrow> int \<times> int" where
  "total ms = (sum_list (map (fst \<circ> displacement) ms), sum_list (map (snd \<circ> displacement) ms))"

lemma total_append: "total (xs @ ys) = (fst (total xs) + fst (total ys), snd (total xs) + snd (total ys))"
  by (simp add: total_def)

section \<open>State\<close>

record hl_restore =
  hl_id :: "32 word"
  num_lines_up :: int
  relative_horiz :: int

record hl =
  restore_sequence :: "32 word"
  last_restore :: hl_restore
  timers_started :: "hl_restore list"
  moves :: "cursor_move list"

definition hl_init :: hl where
  "hl_init = \<lparr>restore_sequence = 0,
     last_restore = \<lparr>hl_id = 0, num_lines_up = 0, relative_horiz = 0\<rparr>, timers_started = [], moves = []\<rparr>"

section \<open>Highlighting\<close>

text \<open>
  Where to: the engine's coordinates, corrected for a line that the terminal wraps. \<open>None\<close>: no
  hop, because there is nothing to match or the line is too long for the correction.
\<close>

definition highlight_hop :: "(int \<times> int) option \<Rightarrow> int \<Rightarrow> int \<Rightarrow> int \<Rightarrow> (int \<times> int) option" where
  "highlight_hop coords pos terminal_width prompt_length =
     (let (up, highlight_pos) = (case coords of None \<Rightarrow> (-1, 0) | Some p \<Rightarrow> p);
          current_pos = pos + 1 in
      if up = -1 then None
      else
        let horiz = highlight_pos - current_pos;
            cursor_absolute_pos = current_pos + prompt_length + 1;
            highlight_absolute_pos = highlight_pos + prompt_length;
            wraps = (cursor_absolute_pos > terminal_width \<and> - horiz \<ge> cursor_absolute_pos smod terminal_width);
            horiz' = (if wraps then (- (- horiz - terminal_width)) smod terminal_width else horiz);
            up' = (if wraps then up + 1 + (terminal_width * (cursor_absolute_pos sdiv terminal_width)
                      - highlight_absolute_pos) sdiv terminal_width else up) in
        if cursor_absolute_pos > 3 * terminal_width - prompt_length then None else Some (up', horiz'))"

definition hop_moves :: "int \<Rightarrow> int \<Rightarrow> cursor_move list" where
  "hop_moves up horiz =
     (if up \<noteq> 0 then [Up up] else []) @
     (if horiz < 0 then [Back (- horiz)] else if horiz > 0 then [Forward horiz] else [])"

definition highlight :: "char \<Rightarrow> (int \<times> int) option \<Rightarrow> int \<Rightarrow> int \<Rightarrow> int \<Rightarrow> hl \<Rightarrow> hl" where
  "highlight current coords pos terminal_width prompt_length s =
     (if current = CHR '']'' \<or> current = CHR ''}'' \<or> current = CHR '')''
      then case highlight_hop coords pos terminal_width prompt_length of
        None \<Rightarrow> s
      | Some (up, horiz) \<Rightarrow>
          let i = restore_sequence s + 1;
              h = \<lparr>hl_id = i, num_lines_up = up, relative_horiz = horiz\<rparr> in
          s\<lparr>moves := moves s @ hop_moves up horiz, restore_sequence := i, last_restore := h,
            timers_started := timers_started s @ [h]\<rparr>
      else s)"

section \<open>Restoring\<close>

definition restore_moves :: "hl_restore \<Rightarrow> cursor_move list" where
  "restore_moves h =
     (if num_lines_up h \<noteq> 0 then [Down (num_lines_up h)] else []) @
     (if relative_horiz h < 0 then [Forward (- relative_horiz h)]
      else if relative_horiz h > 0 then [Back (relative_horiz h)] else [])"

text \<open>The steps of \<open>do_highlight_restore\<close>: reading the sequence, counting it up, the output.\<close>

datatype hl_pc = Hl_start | Hl_claim | Hl_output | Hl_done

fun restore_step :: "hl_restore \<Rightarrow> hl_pc \<Rightarrow> hl \<Rightarrow> hl_pc \<times> hl" where
  "restore_step h Hl_start s = (if hl_id h = restore_sequence s then (Hl_claim, s) else (Hl_done, s))"
| "restore_step h Hl_claim s = (Hl_output, s\<lparr>restore_sequence := restore_sequence s + 1\<rparr>)"
| "restore_step h Hl_output s = (Hl_done, s\<lparr>moves := moves s @ restore_moves h\<rparr>)"
| "restore_step h Hl_done s = (Hl_done, s)"

text \<open>All steps without another thread in between.\<close>

definition do_highlight_restore :: "hl_restore \<Rightarrow> hl \<Rightarrow> hl" where
  "do_highlight_restore h s =
     (if hl_id h = restore_sequence s
      then s\<lparr>restore_sequence := restore_sequence s + 1, moves := moves s @ restore_moves h\<rparr>
      else s)"

definition highlight_cancel :: "hl \<Rightarrow> hl" where
  "highlight_cancel s = (if hl_id (last_restore s) \<noteq> 0 then do_highlight_restore (last_restore s) s else s)"

text \<open>Two threads restore the same hop; the schedule says which moves next.\<close>

fun race :: "hl_restore \<Rightarrow> bool list \<Rightarrow> hl_pc \<Rightarrow> hl_pc \<Rightarrow> hl \<Rightarrow> hl_pc \<times> hl_pc \<times> hl" where
  "race h [] p q s = (p, q, s)"
| "race h (first # sched) p q s =
     (if first then let (p', s') = restore_step h p s in race h sched p' q s'
      else let (q', s') = restore_step h q s in race h sched p q' s')"

lemma restore_steps:
  "race h [True, True, True] Hl_start q s =
    (Hl_done, q, do_highlight_restore h s)"
  by (simp add: do_highlight_restore_def)

section \<open>Properties\<close>

lemma total_hop: "total (hop_moves up horiz @ restore_moves \<lparr>hl_id = i, num_lines_up = up, relative_horiz = horiz\<rparr>) = (0, 0)"
  by (simp add: total_def hop_moves_def restore_moves_def)

text \<open>
  C31. A highlight is undone once: whether the timer or the next key comes first, and although
  both then try, the cursor is back where it was, if the restoring routine is not interrupted
  by the other thread.
\<close>

theorem highlight_restored:
  assumes "s' = highlight current coords pos width plen s" "restore_sequence s + 1 \<noteq> 0"
    "timers_started s' = timers_started s @ [h]"
  shows "total (moves (highlight_cancel (do_highlight_restore h s'))) = total (moves s) \<and>
    total (moves (do_highlight_restore h (highlight_cancel s'))) = total (moves s)"
proof -
  obtain up horiz where hop: "highlight_hop coords pos width plen = Some (up, horiz)"
    and c: "current = CHR '']'' \<or> current = CHR ''}'' \<or> current = CHR '')''"
    using assms by (auto simp: highlight_def split: if_splits option.splits)
  let ?i = "restore_sequence s + 1"
  let ?h = "\<lparr>hl_id = ?i, num_lines_up = up, relative_horiz = horiz\<rparr>"
  have s': "s' = s\<lparr>moves := moves s @ hop_moves up horiz, restore_sequence := ?i, last_restore := ?h,
            timers_started := timers_started s @ [?h]\<rparr>"
    using assms(1) hop c by (simp add: highlight_def Let_def)
  with assms(3) have h: "h = ?h" by simp
  have "?i \<noteq> ?i + 1" by simp
  then show ?thesis
    using s' h assms(2) total_hop [of up horiz ?i]
    by (simp add: highlight_cancel_def do_highlight_restore_def total_append)
qed

text \<open>
  Interrupted, both restore: if the timer thread and the cancelling thread have both read
  the sequence number before either counts it up, the cursor ends as far off as the hop went.
\<close>

lemma highlight_race:
  assumes "s' = highlight current coords pos width plen s" "timers_started s' = timers_started s @ [h]"
  shows "\<exists>s''. race h [True, False, True, False, True, False] Hl_start Hl_start s' = (Hl_done, Hl_done, s'') \<and>
    total (moves s'') = (fst (total (moves s)) + num_lines_up h, snd (total (moves s)) - relative_horiz h)"
proof -
  obtain up horiz where hop: "highlight_hop coords pos width plen = Some (up, horiz)"
    and c: "current = CHR '']'' \<or> current = CHR ''}'' \<or> current = CHR '')''"
    using assms by (auto simp: highlight_def split: if_splits option.splits)
  let ?i = "restore_sequence s + 1"
  let ?h = "\<lparr>hl_id = ?i, num_lines_up = up, relative_horiz = horiz\<rparr>"
  have s': "s' = s\<lparr>moves := moves s @ hop_moves up horiz, restore_sequence := ?i, last_restore := ?h,
            timers_started := timers_started s @ [?h]\<rparr>"
    using assms(1) hop c by (simp add: highlight_def Let_def)
  with assms(2) have h: "h = ?h" by simp
  have "total (restore_moves ?h) = (up, - horiz)" by (simp add: total_def restore_moves_def)
  then show ?thesis
    using s' h total_hop [of up horiz ?i] by (simp add: total_append)
qed

definition sample_hop :: hl where
  "sample_hop = highlight CHR '')'' (Some (0, 0)) 5 80 10 hl_init"

lemma sample_hop_timers:
  "timers_started sample_hop = timers_started hl_init @ [\<lparr>hl_id = 1, num_lines_up = 0, relative_horiz = -6\<rparr>]"
  by (simp add: sample_hop_def highlight_def highlight_hop_def hl_init_def Let_def)

lemma highlight_restored_witness:
  "total (moves (highlight_cancel (do_highlight_restore \<lparr>hl_id = 1, num_lines_up = 0, relative_horiz = -6\<rparr> sample_hop))) = (0, 0)"
  using highlight_restored [OF sample_hop_def _ sample_hop_timers]
  by (simp add: hl_init_def total_def)

end
