(* ===== verification/Shell.thy ===== *)
theory Shell
  imports Io Js
begin

text \<open>
  \<open>shell.c\<close>: running a program, feeding its input and collecting what it prints. The child is
  a parameter: what it writes on its two outputs, what each \<open>poll\<close> and the reads and the write
  after it return, and what \<open>waitpid\<close> reports. A read of uninitialised memory, or an access
  outside a buffer, is \<open>Crashed\<close>; \<open>Waiting\<close> means that the listed polls did not suffice.
\<close>

section \<open>The arguments\<close>

text \<open>The command: \<open>None\<close> is the NULL pointer.\<close>

definition cmd :: "js \<Rightarrow> string list option" where
  "cmd array =
     (let argc = array_get_count array in
      if 0 < argc
      then let vals = map (array_get_value_at_index array) [0..<nat argc] in
        if \<forall>v \<in> set vals. is_str v then Some (map (the \<circ> value_to_c_string) vals) else None
      else None)"

text \<open>The environment; the outer \<open>None\<close> is a name or value that is no string.\<close>

definition env_entry :: "js \<Rightarrow> string option" where
  "env_entry keyVal =
     (case (value_to_c_string (array_get_value_at_index keyVal 0),
            value_to_c_string (array_get_value_at_index keyVal 1)) of
        (Some k, Some v) \<Rightarrow> Some (k @ ''='' @ v)
      | _ \<Rightarrow> None)"

definition env :: "js \<Rightarrow> string list option option" where
  "env m =
     (let argc = array_get_count m in
      if 0 < argc
      then let es = map (\<lambda>i. env_entry (array_get_value_at_index m i)) [0..<nat argc] in
        if None \<in> set es then None else Some (Some (map the es))
      else Some None)"

text \<open>The input: bytes, as a C string.\<close>

definition in_bytes :: "js \<Rightarrow> string" where
  "in_bytes array =
     map (\<lambda>i. char_of (nat (to_number (array_get_value_at_index array i) mod 256)))
       [0..<nat (array_get_count array)]"

section \<open>One pipe from the child\<close>

definition BLOCK_SIZE :: nat where "BLOCK_SIZE = 4096"

definition first_block :: "rbuf option \<Rightarrow> rbuf" where
  "first_block b =
     (case b of Some b \<Rightarrow> b | None \<Rightarrow> \<lparr>r_data = replicate BLOCK_SIZE None, r_offset = 0\<rparr>)"

definition num_to_read :: "rbuf \<Rightarrow> nat" where
  "num_to_read b = BLOCK_SIZE - r_offset b mod BLOCK_SIZE"

definition store_block :: "rbuf \<Rightarrow> string \<Rightarrow> rbuf option" where
  "store_block b s =
     (case read_chunk b s of
        None \<Rightarrow> None
      | Some b' \<Rightarrow>
          Some (if length s = num_to_read b
                then b'\<lparr>r_data := realloc_c (r_data b') (r_offset b' + BLOCK_SIZE)\<rparr> else b'))"

text \<open>
  What the pipe holds and how a read of it goes: \<open>Avail k\<close> lets a read return at most \<open>k\<close> bytes,
  and at least one if the child has more to write.
\<close>

datatype avail = Avail nat | Read_fails

datatype pipe_read = Bytes string | End_of_file | Failed

fun sys_read :: "avail \<Rightarrow> nat \<Rightarrow> string \<Rightarrow> pipe_read \<times> string" where
  "sys_read Read_fails n left = (Failed, left)"
| "sys_read (Avail k) n left =
     (if left = [] then (End_of_file, [])
      else let m = min n (max 1 k) in (Bytes (take m left), drop m left))"

text \<open>The result is 1, 0 at the end of the output and \<open>-1\<close> on an error, which is also reported.\<close>

fun read_child_pipe :: "pipe_read \<Rightarrow> rbuf \<Rightarrow> (int \<times> rbuf) option" where
  "read_child_pipe (Bytes s) b =
     (case store_block b s of None \<Rightarrow> None | Some b' \<Rightarrow> Some (1, b'))"
| "read_child_pipe End_of_file b =
     (case wr (r_data b) (r_offset b) (Some NUL) of
        None \<Rightarrow> None | Some d \<Rightarrow> Some (0, b\<lparr>r_data := d\<rparr>))"
| "read_child_pipe Failed b = Some (-1, b)"

record chan =
  ch_buf :: "rbuf option"
  ch_eof :: bool
  ch_left :: string

text \<open>A pipe whose end has been seen is polled as \<open>-1\<close> and has no events.\<close>

definition serve_pipe :: "avail option \<Rightarrow> chan \<Rightarrow> (int \<times> chan) option" where
  "serve_pipe ev c =
     (if ch_eof c then Some (1, c)
      else case ev of
        None \<Rightarrow> Some (1, c)
      | Some a \<Rightarrow>
          (let b = first_block (ch_buf c); (r, left) = sys_read a (num_to_read b) (ch_left c) in
           case read_child_pipe r b of
             None \<Rightarrow> None
           | Some (res, b') \<Rightarrow>
               Some (res, \<lparr>ch_buf = Some b', ch_eof = (res = 0), ch_left = left\<rparr>)))"

section \<open>The loop\<close>

text \<open>The descriptors: the read and write ends of the three pipes, as \<open>system_call\<close> names them.\<close>

datatype fd = In0 | In1 | Out0 | Out1 | Err0 | Err1

datatype poll_result =
  Poll_error int | Poll_timeout | Poll_ready "avail option" "avail option" "wres option"

record pipes =
  ch_out :: chan
  ch_err :: chan
  to_write :: "string option"
  child_in :: string
  fds_closed :: "fd list"
  sh_said :: "string list"
  sh_status :: int

definition say :: "string \<Rightarrow> pipes \<Rightarrow> pipes" where
  "say msg p = p\<lparr>sh_said := sh_said p @ [msg]\<rparr>"

definition write_child :: "wres option \<Rightarrow> pipes \<Rightarrow> pipes" where
  "write_child ev p =
     (case (to_write p, ev) of
        (Some s, Some (Werr e)) \<Rightarrow> say ''planck.shell write in'' p
      | (Some s, Some (Wrote k)) \<Rightarrow>
          (let amount = (if 4096 < length s then 4096 else length s);
               result = min k amount;
               p' = p\<lparr>child_in := child_in p @ take result s\<rparr> in
           if result \<noteq> length s then p'\<lparr>to_write := Some (drop result s)\<rparr>
           else p'\<lparr>to_write := None, fds_closed := fds_closed p @ [Out1]\<rparr>)
      | _ \<Rightarrow> p)"

definition serve_out :: "avail option \<Rightarrow> pipes \<Rightarrow> pipes option" where
  "serve_out ev p =
     (case serve_pipe ev (ch_out p) of
        None \<Rightarrow> None
      | Some (r, c) \<Rightarrow> let p' = p\<lparr>ch_out := c\<rparr> in Some (if r = -1 then say ''error reading'' p' else p'))"

definition serve_err :: "avail option \<Rightarrow> pipes \<Rightarrow> pipes option" where
  "serve_err ev p =
     (case serve_pipe ev (ch_err p) of
        None \<Rightarrow> None
      | Some (r, c) \<Rightarrow> let p' = p\<lparr>ch_err := c\<rparr> in Some (if r = -1 then say ''error reading'' p' else p'))"

datatype 'a sh_end = Waiting | Crashed | Done 'a

fun process_child_pipes :: "poll_result list \<Rightarrow> pipes \<Rightarrow> pipes sh_end" where
  "process_child_pipes [] p = (if ch_eof (ch_out p) \<and> ch_eof (ch_err p) then Done p else Waiting)"
| "process_child_pipes (ev # evs) p =
     (if ch_eof (ch_out p) \<and> ch_eof (ch_err p) then Done p
      else case ev of
        Poll_error e \<Rightarrow>
          if e = EINTR then process_child_pipes evs p
          else Done (say ''planck.shell poll on child stdout/stderr'' (p\<lparr>sh_status := -1\<rparr>))
      | Poll_timeout \<Rightarrow> process_child_pipes evs p
      | Poll_ready a b w \<Rightarrow>
          (case serve_out a p of
             None \<Rightarrow> Crashed
           | Some p1 \<Rightarrow>
               (case serve_err b p1 of
                  None \<Rightarrow> Crashed
                | Some p2 \<Rightarrow> process_child_pipes evs (write_child w p2))))"

definition chan_string :: "chan \<Rightarrow> string option" where
  "chan_string c = (case ch_buf c of None \<Rightarrow> Some [] | Some b \<Rightarrow> buf_string (r_data b))"

section \<open>Waiting for the child and the result\<close>

datatype waited = Wait_failed | Exited nat | Signaled nat | Otherwise

definition child_status :: "waited \<Rightarrow> int" where
  "child_status w =
     (case w of Wait_failed \<Rightarrow> -1 | Exited n \<Rightarrow> int n | Signaled n \<Rightarrow> 128 + int n | Otherwise \<Rightarrow> -1)"

definition wait_for_child :: "poll_result list \<Rightarrow> waited \<Rightarrow> pipes \<Rightarrow> pipes sh_end" where
  "wait_for_child polls w p =
     (case process_child_pipes polls (p\<lparr>sh_status := 0\<rparr>) of
        Done p' \<Rightarrow>
          let p'' = p'\<lparr>fds_closed := fds_closed p' @ [Err0, In0, Out1]\<rparr> in
          Done (if sh_status p'' \<noteq> -1 then p''\<lparr>sh_status := child_status w\<rparr> else p'')
      | r \<Rightarrow> r)"

definition create_shell_result :: "int \<Rightarrow> string \<Rightarrow> string \<Rightarrow> js" where
  "create_shell_result status out err =
     JArr [JNum status, c_string_to_value (Some out), c_string_to_value (Some err)]"

definition result_to_object_ref :: "pipes \<Rightarrow> js option" where
  "result_to_object_ref p =
     (case (chan_string (ch_out p), chan_string (ch_err p)) of
        (Some out, Some err) \<Rightarrow> Some (create_shell_result (sh_status p) out err)
      | _ \<Rightarrow> None)"

section \<open>Starting the child\<close>

text \<open>
  Looking a program up in \<open>PATH\<close> where the system has no \<open>execvpe\<close>. \<open>execve\<close> returns only to
  report an error.
\<close>

fun count_occurrences :: "string \<Rightarrow> char \<Rightarrow> nat" where
  "count_occurrences [] c = 0"
| "count_occurrences (x # xs) c = (if x = c then 1 else 0) + count_occurrences xs c"

definition path_entry :: "string \<Rightarrow> string" where
  "path_entry d = (if d = [] then ''./'' else if last d \<noteq> CHR ''/'' then d @ ''/'' else d)"

fun split_path_loop :: "nat \<Rightarrow> string \<Rightarrow> string list" where
  "split_path_loop 0 p = []"
| "split_path_loop (Suc n) p =
     path_entry (takeWhile (\<lambda>c. c \<noteq> CHR '':'') p) # split_path_loop n (drop 1 (dropWhile (\<lambda>c. c \<noteq> CHR '':'') p))"

definition split_path :: "string \<Rightarrow> string list" where
  "split_path path = split_path_loop (count_occurrences path CHR '':'' + 1) path"

text \<open>\<open>execve\<close> is given by the error it reports, 0 if it does not return. The result is the program started or \<open>errno\<close>.\<close>

fun exec_dirs :: "(string \<Rightarrow> int) \<Rightarrow> string \<Rightarrow> string list \<Rightarrow> int \<Rightarrow> int \<Rightarrow> int + string" where
  "exec_dirs execve program [] sticky errno = Inl (if sticky \<noteq> 0 then sticky else errno)"
| "exec_dirs execve program (d # dirs) sticky errno =
     (if PATH_MAX \<le> length program + length d + 1
      then exec_dirs execve program dirs sticky ENAMETOOLONG
      else let e = execve (d @ program) in
        if e = 0 then Inr (d @ program)
        else if e = EACCES then exec_dirs execve program dirs EACCES e
        else if e = ENOENT \<or> e = ENOTDIR then exec_dirs execve program dirs sticky e
        else Inl e)"

definition planck_execvpe :: "(string \<Rightarrow> int) \<Rightarrow> string option \<Rightarrow> string \<Rightarrow> int \<Rightarrow> int + string" where
  "planck_execvpe execve path program errno =
     (if CHR ''/'' \<in> set program
      then (let e = execve program in if e = 0 then Inr program else Inl e)
      else exec_dirs execve program
        (split_path (case path of Some p \<Rightarrow> p | None \<Rightarrow> '':/bin:/usr/bin'')) 0 errno)"

text \<open>The status with which the child exits when the program could not be started.\<close>

definition exec_failed :: "int \<Rightarrow> int" where
  "exec_failed errno = (if errno = EACCES \<or> errno = 1 then 126 else if errno = ENOENT then 127 else 1)"

text \<open>
  \<open>system_call\<close>: \<open>os_pipes\<close> counts the pipes that can be made. The program gets the command,
  the environment (\<open>None\<close> for the parent's) and the directory. An asynchronous call returns
  null at once; what is given for it covers the thread up to its end, which passes the result to
  the callback and signals the task complete. The JavaScript arguments are arrays or null where
  the sources expect them, as the caller in \<open>planck.shell\<close> makes them.
\<close>

record child_run =
  cr_out :: string
  cr_err :: string
  cr_polls :: "poll_result list"
  cr_waited :: waited

record shell_os =
  os_pipes :: nat
  os_fork :: bool
  os_child :: "string list \<Rightarrow> string list option \<Rightarrow> string option \<Rightarrow> child_run"

record shell_call =
  sc_result :: js
  sc_callback :: "(int \<times> js) option"
  sc_signals :: "int list"
  sc_input :: string
  sc_opened :: "fd list"
  sc_closed :: "fd list"

definition start_pipes :: "child_run \<Rightarrow> string option \<Rightarrow> pipes" where
  "start_pipes r in_str =
     \<lparr>ch_out = \<lparr>ch_buf = None, ch_eof = False, ch_left = cr_out r\<rparr>,
      ch_err = \<lparr>ch_buf = None, ch_eof = False, ch_left = cr_err r\<rparr>,
      to_write = map_option c_string in_str, child_in = [],
      fds_closed = [Out0, Err1, In1], sh_said = [], sh_status = 0\<rparr>"

definition failed_call :: "fd list \<Rightarrow> shell_call" where
  "failed_call opened =
     \<lparr>sc_result = create_shell_result 71 [] [], sc_callback = None, sc_signals = [],
      sc_input = [], sc_opened = opened, sc_closed = []\<rparr>"

definition system_call ::
  "shell_os \<Rightarrow> string list \<Rightarrow> string option \<Rightarrow> string list option \<Rightarrow> string option \<Rightarrow> int \<Rightarrow> shell_call sh_end" where
  "system_call os c in_str environment dir cb_idx =
     (if os_pipes os = 0 then Done (failed_call [])
      else if os_pipes os = 1 then Done (failed_call [In0, In1])
      else if os_pipes os = 2 then Done (failed_call [In0, In1, Out0, Out1])
      else if \<not> os_fork os then Done (failed_call [In0, In1, Out0, Out1, Err0, Err1])
      else let r = os_child os c environment dir in
        case wait_for_child (cr_polls r) (cr_waited r) (start_pipes r in_str) of
          Waiting \<Rightarrow> Waiting
        | Crashed \<Rightarrow> Crashed
        | Done p \<Rightarrow>
            (case result_to_object_ref p of
               None \<Rightarrow> Crashed
             | Some v \<Rightarrow>
                 Done \<lparr>sc_result = (if cb_idx = -1 then v else JNull),
                   sc_callback = (if cb_idx = -1 then None else Some (cb_idx, v)),
                   sc_signals = (if cb_idx = -1 then [] else [1, -1]),
                   sc_input = child_in p,
                   sc_opened = [In0, In1, Out0, Out1, Err0, Err1],
                   sc_closed = fds_closed p\<rparr>))"

definition no_call :: shell_call where
  "no_call = \<lparr>sc_result = JNull, sc_callback = None, sc_signals = [], sc_input = [],
      sc_opened = [], sc_closed = []\<rparr>"

definition function_shellexec :: "shell_os \<Rightarrow> js list \<Rightarrow> shell_call sh_end" where
  "function_shellexec os args =
     (case args of
        [a0, a1, a2, a3, a4, a5] \<Rightarrow>
          (case cmd a0 of
             None \<Rightarrow> Done no_call
           | Some command \<Rightarrow>
               let in_str = (if a1 = JNull then None else Some (in_bytes a1));
                   callback_idx = (if is_num a5 then c_int (to_number a5) else -1) in
               case (if a3 = JNull then Some None else env a3) of
                 None \<Rightarrow> Crashed
               | Some environment \<Rightarrow>
                   system_call os command in_str environment (value_to_c_string a4) callback_idx)
      | _ \<Rightarrow> Done no_call)"

end
