(* ===== verification/Shell_Props.thy ===== *)
theory Shell_Props
  imports Shell
begin

text \<open>
  The block buffer of \<open>shell.c\<close> as a \<open>chunk_buffer\<close>, and what a shell call returns: the whole
  output of the child when the polls and reads succeed, and a read of uninitialised memory when
  \<open>poll\<close> fails in the middle.
\<close>

section \<open>The block buffer\<close>

definition block_content :: "rbuf \<Rightarrow> char list" where
  "block_content b = map the (take (r_offset b) (r_data b))"

definition block_ok :: "rbuf \<Rightarrow> bool" where
  "block_ok b \<longleftrightarrow>
     length (r_data b) = r_offset b - r_offset b mod BLOCK_SIZE + BLOCK_SIZE \<and>
     None \<notin> set (take (r_offset b) (r_data b))"

definition block_fits :: "rbuf \<Rightarrow> string \<Rightarrow> bool" where
  "block_fits b s \<longleftrightarrow> length s \<le> num_to_read b"

definition block_push :: "rbuf \<Rightarrow> string \<Rightarrow> rbuf" where
  "block_push b s = the (store_block b s)"

lemma block_room:
  assumes "block_ok b"
  shows "r_offset b + num_to_read b = length (r_data b)" "r_offset b < length (r_data b)"
proof -
  have "r_offset b mod BLOCK_SIZE < BLOCK_SIZE" "r_offset b mod BLOCK_SIZE \<le> r_offset b"
    by (simp_all add: BLOCK_SIZE_def)
  with assms show "r_offset b + num_to_read b = length (r_data b)" "r_offset b < length (r_data b)"
    by (simp_all add: block_ok_def num_to_read_def)
qed

lemma num_to_read_pos: "0 < num_to_read b"
  by (simp add: num_to_read_def BLOCK_SIZE_def)

lemma end_of_block:
  assumes "k mod B + n = (B::nat)"
  shows "(k + n) mod B = 0"
  using assms by (metis mod_add_left_eq mod_self)

lemma store_block_ok:
  assumes "block_ok b" "block_fits b s"
  shows "\<exists>b'. store_block b s = Some b' \<and> block_ok b' \<and> block_content b' = block_content b @ s"
proof -
  let ?o = "r_offset b" and ?d = "r_data b"
  note room = block_room [OF assms(1)]
  have fit: "?o + length s \<le> length ?d"
    using room(1) assms(2) by (simp add: block_fits_def)
  have clean: "None \<notin> set (take ?o ?d)" using assms(1) by (simp add: block_ok_def)
  let ?d' = "take ?o ?d @ map Some s @ drop (?o + length s) ?d"
  have len: "length ?d' = length ?d" using fit by simp
  have front: "take (?o + length s) ?d' = take ?o ?d @ map Some s" using fit by simp
  have content: "map the (take ?o ?d @ map Some s) = block_content b @ s"
    by (simp add: block_content_def comp_def)
  have lt: "?o mod BLOCK_SIZE < BLOCK_SIZE" by (simp add: BLOCK_SIZE_def)
  show ?thesis
  proof (cases "length s = num_to_read b")
    case True
    have full: "length ?d' = ?o + length s" using True room(1) len by simp
    have "(?o + length s) mod BLOCK_SIZE = 0"
      using True lt by (intro end_of_block) (simp add: num_to_read_def)
    with True fit clean full show ?thesis
      by (auto simp: store_block_def read_chunk_def block_ok_def realloc_c_def block_content_def comp_def)
  next
    case False
    then have short: "?o mod BLOCK_SIZE + length s < BLOCK_SIZE"
      using assms(2) lt by (auto simp: block_fits_def num_to_read_def)
    then have "(?o + length s) mod BLOCK_SIZE = ?o mod BLOCK_SIZE + length s"
      by (metis mod_add_left_eq mod_less)
    moreover have "?o mod BLOCK_SIZE \<le> ?o" by simp
    ultimately have "length ?d = ?o + length s - (?o + length s) mod BLOCK_SIZE + BLOCK_SIZE"
      using assms(1) by (simp add: block_ok_def)
    with False fit clean len front content show ?thesis
      by (auto simp: store_block_def read_chunk_def block_ok_def block_content_def comp_def)
  qed
qed

interpretation block: chunk_buffer block_content block_ok block_fits block_push
proof unfold_locales
  fix b :: rbuf and s :: string and x :: char
  assume b: "block_ok b"
  show "block_fits b [x]" using num_to_read_pos [of b] by (simp add: block_fits_def)
  assume "block_fits b s"
  from store_block_ok [OF b this]
  show "block_content (block_push b s) = block_content b @ s" "block_ok (block_push b s)"
    by (auto simp: block_push_def)
qed

lemma store_block_push: "block_ok b \<Longrightarrow> block_fits b s \<Longrightarrow> store_block b s = Some (block_push b s)"
  using store_block_ok [of b s] by (auto simp: block_push_def)

lemma first_block_ok: "block_ok (first_block None)" "block_content (first_block None) = []"
  by (simp_all add: first_block_def block_ok_def block_content_def BLOCK_SIZE_def)

lemma first_block_Some [simp]: "first_block (Some b) = b"
  by (simp add: first_block_def)

text \<open>Behind what has been stored the buffer is not initialised.\<close>

lemma store_block_fresh:
  assumes "store_block b s = Some b'" "set (drop (r_offset b) (r_data b)) \<subseteq> {None}"
  shows "set (drop (r_offset b') (r_data b')) \<subseteq> {None}"
proof -
  have "x \<in> set (drop (r_offset b + n) (r_data b)) \<Longrightarrow> x = None" for x n
    using assms(2) set_drop_subset [of n "drop (r_offset b) (r_data b)"] by (auto simp: add.commute)
  note fresh = this
  show ?thesis
    using assms(1)
    by (auto simp: store_block_def read_chunk_def realloc_c_def drop_take
      dest!: in_set_takeD dest: fresh split: if_splits)
qed

section \<open>A pipe\<close>

lemma block_prefix:
  assumes "block_ok b"
  shows "take (r_offset b) (r_data b) = map Some (block_content b)"
proof -
  have "x \<in> set (take (r_offset b) (r_data b)) \<Longrightarrow> Some (the x) = x" for x
    using assms by (cases x) (auto simp: block_ok_def)
  then show ?thesis by (simp add: block_content_def map_idI comp_def)
qed

text \<open>What is in the buffer and what is still to come make up what the child writes.\<close>

definition chan_ok :: "string \<Rightarrow> chan \<Rightarrow> bool" where
  "chan_ok t c \<longleftrightarrow>
     block_ok (first_block (ch_buf c)) \<and>
     block_content (first_block (ch_buf c)) @ ch_left c = t \<and>
     (ch_eof c \<longrightarrow> ch_left c = [] \<and>
        (\<exists>b. ch_buf c = Some b \<and> r_data b ! r_offset b = Some NUL))"

definition todo :: "chan \<Rightarrow> nat" where
  "todo c = (if ch_eof c then 0 else Suc (length (ch_left c)))"

lemma chan_ok_start: "chan_ok t \<lparr>ch_buf = None, ch_eof = False, ch_left = t\<rparr>"
  by (simp add: chan_ok_def first_block_ok)

lemma chan_ok_string:
  assumes "chan_ok t c" "ch_eof c"
  shows "chan_string c = Some (c_string t)"
proof -
  obtain b where b: "ch_buf c = Some b" "block_ok b" "r_data b ! r_offset b = Some NUL"
    "block_content b = t"
    using assms by (auto simp: chan_ok_def)
  note r = block_room(2) [OF b(2)]
  have "r_data b = map Some t @ Some NUL # drop (Suc (r_offset b)) (r_data b)"
    using id_take_nth_drop [OF r] block_prefix [OF b(2)] b(3,4) by simp
  then have "buf_string (r_data b) = Some (c_string t)" by (metis buf_string_terminated)
  with b show ?thesis by (simp add: chan_string_def)
qed

lemma serve_pipe_idle: "ch_eof c \<or> ev = None \<Longrightarrow> serve_pipe ev c = Some (1, c)"
  by (auto simp: serve_pipe_def)

lemma serve_pipe_end:
  assumes "chan_ok t c" "\<not> ch_eof c" "ch_left c = []"
  shows "\<exists>c'. serve_pipe (Some (Avail k)) c = Some (0, c') \<and> chan_ok t c' \<and> ch_eof c'"
proof -
  let ?b = "first_block (ch_buf c)"
  have b: "block_ok ?b" and t: "block_content ?b = t" using assms by (auto simp: chan_ok_def)
  note r = block_room(2) [OF b]
  have "block_ok (?b\<lparr>r_data := (r_data ?b)[r_offset ?b := Some NUL]\<rparr>)"
    "block_content (?b\<lparr>r_data := (r_data ?b)[r_offset ?b := Some NUL]\<rparr>) = t"
    using b t by (simp_all add: block_ok_def block_content_def)
  with assms r show ?thesis
    by (simp add: serve_pipe_def wr_def chan_ok_def Let_def)
qed

lemma serve_pipe_bytes:
  assumes "chan_ok t c" "\<not> ch_eof c" "ch_left c \<noteq> []"
  shows "\<exists>c'. serve_pipe (Some (Avail k)) c = Some (1, c') \<and> chan_ok t c' \<and> \<not> ch_eof c' \<and>
    length (ch_left c') < length (ch_left c)"
proof -
  let ?b = "first_block (ch_buf c)" and ?l = "ch_left c"
  let ?m = "min (num_to_read ?b) (max 1 k)"
  have b: "block_ok ?b" and t: "block_content ?b @ ?l = t" using assms by (auto simp: chan_ok_def)
  have f: "block_fits ?b (take ?m ?l)" by (simp add: block_fits_def)
  have m: "0 < ?m" using num_to_read_pos [of ?b] by simp
  have st: "store_block ?b (take ?m ?l) = Some (block_push ?b (take ?m ?l))"
    by (rule store_block_push [OF b f])
  have c': "block_content (block_push ?b (take ?m ?l)) @ drop ?m ?l = t"
    using block.content_chunk [OF b f] t append_take_drop_id [of ?m ?l]
    by (metis append.assoc)
  have "length (drop ?m ?l) < length ?l" using assms(3) m by simp
  then show ?thesis
    using assms(2,3) st c' block.ok_chunk [OF b f]
    by (simp add: serve_pipe_def Let_def chan_ok_def)
qed

definition read_ok :: "avail option \<Rightarrow> bool" where
  "read_ok ev \<longleftrightarrow> ev \<noteq> Some Read_fails"

definition ready :: "avail option \<Rightarrow> nat" where
  "ready ev = (if ev = None then 0 else 1)"

lemma serve_pipe_ok:
  assumes "chan_ok t c" "read_ok ev"
  shows "\<exists>r c'. serve_pipe ev c = Some (r, c') \<and> r \<noteq> -1 \<and> chan_ok t c' \<and> todo c' \<le> todo c - ready ev"
proof (cases "ch_eof c \<or> ev = None")
  case True
  with assms show ?thesis
    by (auto simp: serve_pipe_idle todo_def ready_def)
next
  case False
  then obtain k where k: "ev = Some (Avail k)"
    using assms(2) by (cases ev; cases "the ev") (auto simp: read_ok_def)
  show ?thesis
  proof (cases "ch_left c = []")
    case True
    from serve_pipe_end [OF assms(1) _ True, of k] False obtain c' where
      "serve_pipe (Some (Avail k)) c = Some (0, c')" "chan_ok t c'" "ch_eof c'" by auto
    with False show ?thesis by (simp add: k todo_def ready_def)
  next
    case left: False
    from serve_pipe_bytes [OF assms(1) _ left, of k] False obtain c' where
      "serve_pipe (Some (Avail k)) c = Some (1, c')" "chan_ok t c'" "\<not> ch_eof c'"
      "length (ch_left c') < length (ch_left c)" by auto
    with False show ?thesis by (simp add: k todo_def ready_def)
  qed
qed


section \<open>The loop\<close>

definition feeds :: "string option \<Rightarrow> pipes \<Rightarrow> bool" where
  "feeds in_str p \<longleftrightarrow>
     (case (in_str, to_write p) of
        (None, None) \<Rightarrow> child_in p = [] \<and> fds_closed p = [Out0, Err1, In1]
      | (None, Some r) \<Rightarrow> False
      | (Some s, Some r) \<Rightarrow> child_in p @ r = s \<and> (r = [] \<longrightarrow> s = []) \<and> fds_closed p = [Out0, Err1, In1]
      | (Some s, None) \<Rightarrow> child_in p = s \<and> fds_closed p = [Out0, Err1, In1, Out1])"

lemma feeds_write: "feeds in_str p \<Longrightarrow> feeds in_str (write_child w p)"
  by (auto simp: feeds_def write_child_def say_def Let_def split: option.splits wres.splits)

lemma feeds_chan [simp]:
  "feeds in_str (p\<lparr>ch_out := c\<rparr>) = feeds in_str p" "feeds in_str (p\<lparr>ch_err := c\<rparr>) = feeds in_str p"
  by (simp_all add: feeds_def split: option.splits)

lemma feeds_prefix: "feeds (Some s) p \<Longrightarrow> prefix (child_in p) s"
  by (auto simp: feeds_def split: option.splits intro: prefixI)

lemma write_child_fields [simp]:
  "ch_out (write_child w p) = ch_out p" "ch_err (write_child w p) = ch_err p"
  "sh_status (write_child w p) = sh_status p"
  by (auto simp: write_child_def say_def Let_def split: option.splits wres.splits)

definition pipes_ok :: "string \<Rightarrow> string \<Rightarrow> string option \<Rightarrow> pipes \<Rightarrow> bool" where
  "pipes_ok out err in_str p \<longleftrightarrow>
     chan_ok out (ch_out p) \<and> chan_ok err (ch_err p) \<and> feeds in_str p \<and> sh_status p = 0"

definition poll_ok :: "poll_result \<Rightarrow> bool" where
  "poll_ok ev =
     (case ev of Poll_error e \<Rightarrow> e = EINTR | Poll_timeout \<Rightarrow> True
      | Poll_ready a b w \<Rightarrow> read_ok a \<and> read_ok b)"

text \<open>How often each output was ready to be read.\<close>

fun out_reads :: "poll_result list \<Rightarrow> nat" where
  "out_reads [] = 0"
| "out_reads (Poll_ready a b w # evs) = ready a + out_reads evs"
| "out_reads (_ # evs) = out_reads evs"

fun err_reads :: "poll_result list \<Rightarrow> nat" where
  "err_reads [] = 0"
| "err_reads (Poll_ready a b w # evs) = ready b + err_reads evs"
| "err_reads (_ # evs) = err_reads evs"

lemma serve_out_ok:
  assumes "pipes_ok out err in_str p" "read_ok a"
  shows "\<exists>p'. serve_out a p = Some p' \<and> pipes_ok out err in_str p' \<and>
    todo (ch_out p') \<le> todo (ch_out p) - ready a \<and> todo (ch_err p') = todo (ch_err p)"
proof -
  have "chan_ok out (ch_out p)" using assms(1) by (simp add: pipes_ok_def)
  from serve_pipe_ok [OF this assms(2)] obtain r c where
    "serve_pipe a (ch_out p) = Some (r, c)" "r \<noteq> -1" "chan_ok out c" "todo c \<le> todo (ch_out p) - ready a"
    by blast
  with assms(1) show ?thesis
    by (auto simp: serve_out_def pipes_ok_def Let_def)
qed

lemma serve_err_ok:
  assumes "pipes_ok out err in_str p" "read_ok a"
  shows "\<exists>p'. serve_err a p = Some p' \<and> pipes_ok out err in_str p' \<and>
    todo (ch_err p') \<le> todo (ch_err p) - ready a \<and> todo (ch_out p') = todo (ch_out p)"
proof -
  have "chan_ok err (ch_err p)" using assms(1) by (simp add: pipes_ok_def)
  from serve_pipe_ok [OF this assms(2)] obtain r c where
    "serve_pipe a (ch_err p) = Some (r, c)" "r \<noteq> -1" "chan_ok err c" "todo c \<le> todo (ch_err p) - ready a"
    by blast
  with assms(1) show ?thesis
    by (auto simp: serve_err_def pipes_ok_def Let_def)
qed

lemma todo_eof: "todo c = 0 \<longleftrightarrow> ch_eof c"
  by (simp add: todo_def)

lemma process_child_pipes_ok:
  assumes "pipes_ok out err in_str p" "\<forall>ev \<in> set evs. poll_ok ev"
    "todo (ch_out p) \<le> out_reads evs" "todo (ch_err p) \<le> err_reads evs"
  shows "\<exists>p'. process_child_pipes evs p = Done p' \<and> pipes_ok out err in_str p' \<and>
    ch_eof (ch_out p') \<and> ch_eof (ch_err p')"
  using assms
proof (induction evs arbitrary: p)
  case Nil
  then show ?case by (simp add: todo_eof)
next
  case (Cons ev evs)
  show ?case
  proof (cases "ch_eof (ch_out p) \<and> ch_eof (ch_err p)")
    case True
    with Cons.prems show ?thesis by simp
  next
    case running: False
    show ?thesis
    proof (cases ev)
      case (Poll_error e)
      with Cons running show ?thesis by (auto simp: poll_ok_def)
    next
      case Poll_timeout
      with Cons running show ?thesis by auto
    next
      case (Poll_ready a b w)
      have ok: "read_ok a" "read_ok b" using Cons.prems(2) Poll_ready by (auto simp: poll_ok_def)
      obtain p1 where 1: "serve_out a p = Some p1" "pipes_ok out err in_str p1"
        "todo (ch_out p1) \<le> todo (ch_out p) - ready a" "todo (ch_err p1) = todo (ch_err p)"
        using serve_out_ok [OF Cons.prems(1) ok(1)] by blast
      obtain p2 where 2: "serve_err b p1 = Some p2" "pipes_ok out err in_str p2"
        "todo (ch_err p2) \<le> todo (ch_err p1) - ready b" "todo (ch_out p2) = todo (ch_out p1)"
        using serve_err_ok [OF 1(2) ok(2)] by blast
      have "pipes_ok out err in_str (write_child w p2)"
        using 2(2) by (simp add: pipes_ok_def feeds_write)
      from Cons.IH [OF this] Cons.prems(2-4) 1 2 Poll_ready running show ?thesis by auto
    qed
  qed
qed


section \<open>The call\<close>

lemma cmd_strings: "0 < length cs \<Longrightarrow> length cs < 2 ^ 31 \<Longrightarrow> cmd (JArr (map JStr cs)) = Some (map c_string cs)"
  by (auto simp: cmd_def Let_def c_int_id array_get_value_at_index_def intro!: nth_equalityI)

lemma start_pipes_ok:
  "pipes_ok (cr_out r) (cr_err r) (map_option c_string in_str) (start_pipes r in_str)"
  by (auto simp: pipes_ok_def start_pipes_def chan_ok_start feeds_def split: option.splits)

lemma wait_for_child_ok:
  assumes "\<forall>ev \<in> set (cr_polls r). poll_ok ev"
    "length (cr_out r) < out_reads (cr_polls r)" "length (cr_err r) < err_reads (cr_polls r)"
  shows "\<exists>p p'. wait_for_child (cr_polls r) w (start_pipes r in_str) = Done p \<and>
    result_to_object_ref p =
      Some (create_shell_result (child_status w) (c_string (cr_out r)) (c_string (cr_err r))) \<and>
    feeds (map_option c_string in_str) p' \<and> child_in p = child_in p' \<and>
    fds_closed p = fds_closed p' @ [Err0, In0, Out1]"
proof -
  let ?s = "start_pipes r in_str\<lparr>sh_status := 0\<rparr>"
  have s: "?s = start_pipes r in_str" by (simp add: start_pipes_def)
  have "pipes_ok (cr_out r) (cr_err r) (map_option c_string in_str) ?s"
    unfolding s by (rule start_pipes_ok)
  moreover have "todo (ch_out ?s) \<le> out_reads (cr_polls r)" "todo (ch_err ?s) \<le> err_reads (cr_polls r)"
    using assms(2,3) by (simp_all add: start_pipes_def todo_def)
  ultimately obtain p' where p': "process_child_pipes (cr_polls r) ?s = Done p'"
    "pipes_ok (cr_out r) (cr_err r) (map_option c_string in_str) p'"
    "ch_eof (ch_out p')" "ch_eof (ch_err p')"
    using process_child_pipes_ok [OF _ assms(1)] by blast
  then show ?thesis
    by (intro exI [of _ "p'\<lparr>fds_closed := fds_closed p' @ [Err0, In0, Out1], sh_status := child_status w\<rparr>"] exI [of _ p'])
      (auto simp: wait_for_child_def pipes_ok_def result_to_object_ref_def chan_ok_string)
qed

text \<open>
  C33. A shell call whose pipes and child could be made, whose polls and reads do not fail and
  come often enough for the output, returns the exit status and all the child wrote on its two
  outputs, up to the first NUL, to the caller or the callback, whatever the sizes of the reads
  and writes; the child has been sent a prefix of the input. Every descriptor is closed, once,
  except the one the input was written to, which is closed again after all of a non-empty input
  has been written.
\<close>

theorem shell_returns_output:
  assumes os: "3 \<le> os_pipes os" "os_fork os"
    and args: "args = [JArr (map JStr cs), a1, a2, a3, a4, a5]" "0 < length cs" "length cs < 2 ^ 31"
    and environment: "(if a3 = JNull then Some None else env a3) = Some envp"
    and r: "r = os_child os (map c_string cs) envp (value_to_c_string a4)"
    and reads: "\<forall>ev \<in> set (cr_polls r). poll_ok ev"
      "length (cr_out r) < out_reads (cr_polls r)" "length (cr_err r) < err_reads (cr_polls r)"
    and cb: "cb = (if is_num a5 then c_int (to_number a5) else -1)"
    and v: "v = JArr [JNum (child_status (cr_waited r)), JStr (c_string (cr_out r)), JStr (c_string (cr_err r))]"
    and inp: "inp = (if a1 = JNull then [] else c_string (in_bytes a1))"
  shows "\<exists>call. function_shellexec os args = Done call \<and>
    sc_result call = (if cb = -1 then v else JNull) \<and>
    sc_callback call = (if cb = -1 then None else Some (cb, v)) \<and>
    sum_list (sc_signals call) = 0 \<and>
    prefix (sc_input call) inp \<and>
    set (sc_closed call) = set (sc_opened call) \<and>
    (\<forall>fd \<in> set (sc_opened call). fd \<noteq> Out1 \<longrightarrow> count_list (sc_closed call) fd = 1) \<and>
    (a1 = JNull \<longrightarrow> count_list (sc_closed call) Out1 = 1) \<and>
    (inp \<noteq> [] \<longrightarrow> count_list (sc_closed call) Out1 = (if sc_input call = inp then 2 else 1))"
proof -
  let ?in = "if a1 = JNull then None else Some (in_bytes a1)"
  obtain p p' where p: "wait_for_child (cr_polls r) (cr_waited r) (start_pipes r ?in) = Done p"
    "result_to_object_ref p = Some v" "feeds (map_option c_string ?in) p'"
    "child_in p = child_in p'" "fds_closed p = fds_closed p' @ [Err0, In0, Out1]"
    using wait_for_child_ok [OF reads, of "cr_waited r" ?in]
    unfolding v create_shell_result_def c_string_to_value_def by auto
  define call where "call = \<lparr>sc_result = (if cb = -1 then v else JNull),
    sc_callback = (if cb = -1 then None else Some (cb, v)),
    sc_signals = (if cb = -1 then [] else [1, -1]), sc_input = child_in p,
    sc_opened = [In0, In1, Out0, Out1, Err0, Err1], sc_closed = fds_closed p\<rparr>"
  have cm: "cmd (JArr (map JStr cs)) = Some (map c_string cs)" by (rule cmd_strings [OF args(2,3)])
  have "function_shellexec os args = system_call os (map c_string cs) ?in envp (value_to_c_string a4) cb"
    unfolding args(1) function_shellexec_def list.case cm option.case environment Let_def cb ..
  also have "\<dots> = Done call"
    using os p(1,2) by (simp add: system_call_def r [symmetric] call_def Let_def)
  finally have "function_shellexec os args = Done call" .
  moreover have "prefix (child_in p) inp"
    using p(3,4) feeds_prefix [of "c_string (in_bytes a1)" p']
    by (cases "a1 = JNull") (auto simp: feeds_def inp split: option.splits)
  ultimately show ?thesis
    using p(3,4,5)
    by (intro exI [of _ call])
      (auto simp: call_def feeds_def inp split: if_splits option.splits)
qed

text \<open>
  When \<open>poll\<close> fails after a first part of the output has been read, the buffer is returned
  without a NUL behind that part: making the result reads uninitialised memory.
\<close>

lemma poll_failure_unterminated:
  assumes os: "3 \<le> os_pipes os" "os_fork os"
    and args: "args = [JArr (map JStr cs), a1, a2, JNull, a4, a5]" "0 < length cs" "length cs < 2 ^ 31"
    and r: "r = os_child os (map c_string cs) None (value_to_c_string a4)"
    and polls: "cr_polls r = Poll_ready (Some (Avail k)) None None # Poll_error e # evs" "e \<noteq> EINTR"
    and out: "cr_out r \<noteq> []" "NUL \<notin> set (cr_out r)"
  shows "function_shellexec os args = Crashed"
proof -
  let ?m = "min (num_to_read (first_block None)) (max 1 k)"
  let ?s = "take ?m (cr_out r)"
  let ?in = "if a1 = JNull then None else Some (in_bytes a1)"
  let ?b = "block_push (first_block None) ?s"
  have f: "block_fits (first_block None) ?s" by (simp add: block_fits_def)
  have b: "block_ok ?b" "block_content ?b = ?s"
    using block.ok_chunk [OF first_block_ok(1) f] block.content_chunk [OF first_block_ok(1) f]
    by (simp_all add: first_block_ok(2))
  have st: "store_block (first_block None) ?s = Some ?b"
    by (rule store_block_push [OF first_block_ok(1) f])
  have len: "r_offset ?b < length (r_data ?b)" by (rule block_room(2) [OF b(1)])
  have "set (drop (r_offset (first_block None)) (r_data (first_block None))) \<subseteq> {None}"
    by (auto simp: first_block_def)
  from store_block_fresh [OF st this] len have "r_data ?b ! r_offset ?b = None"
    by (metis Cons_nth_drop_Suc list.set_intros(1) singletonD subsetD)
  then have "r_data ?b = map Some ?s @ None # drop (Suc (r_offset ?b)) (r_data ?b)"
    using id_take_nth_drop [OF len] block_prefix [OF b(1)] b(2) by simp
  moreover have "NUL \<notin> set ?s" using out(2) by (meson in_set_takeD)
  ultimately have bs: "buf_string (r_data ?b) = None" by (metis buf_string_open)
  let ?c = "\<lparr>ch_buf = Some ?b, ch_eof = False, ch_left = drop ?m (cr_out r)\<rparr>"
  have c: "serve_pipe (Some (Avail k)) (ch_out (start_pipes r ?in)) = Some (1, ?c)"
    using out(1) st by (simp add: serve_pipe_def start_pipes_def Let_def)
  have "serve_out (Some (Avail k)) (start_pipes r ?in) = Some (start_pipes r ?in\<lparr>ch_out := ?c\<rparr>)"
    by (simp add: serve_out_def c)
  moreover have "serve_err None p = Some p" for p
    by (simp add: serve_err_def serve_pipe_idle)
  moreover have "write_child None p = p" for p
    by (simp add: write_child_def split: option.splits)
  ultimately have "\<exists>p. process_child_pipes (cr_polls r) (start_pipes r ?in) = Done p \<and>
    ch_buf (ch_out p) = Some ?b \<and> sh_status p = -1"
    using polls(2) by (simp add: polls(1) start_pipes_def say_def)
  moreover have "start_pipes r ?in\<lparr>sh_status := 0\<rparr> = start_pipes r ?in" by (simp add: start_pipes_def)
  ultimately obtain p where "wait_for_child (cr_polls r) (cr_waited r) (start_pipes r ?in) = Done p"
    "ch_buf (ch_out p) = Some ?b"
    by (fastforce simp: wait_for_child_def Let_def)
  then show ?thesis
    using os bs cmd_strings [OF args(2,3)]
    by (simp add: args(1) function_shellexec_def system_call_def r [symmetric] Let_def
      result_to_object_ref_def chan_string_def)
qed


section \<open>Looking a program up\<close>

text \<open>A directory is passed over if the path is too long or the program cannot be found or run there.\<close>

definition passed_over :: "(string \<Rightarrow> int) \<Rightarrow> string \<Rightarrow> string \<Rightarrow> bool" where
  "passed_over execve program d \<longleftrightarrow>
     PATH_MAX \<le> length program + length d + 1 \<or> execve (d @ program) \<in> {EACCES, ENOENT, ENOTDIR}"

lemma exec_dirs_first:
  "\<forall>d \<in> set before. passed_over execve program d \<Longrightarrow> execve (d @ program) = 0 \<Longrightarrow>
   length program + length d + 1 < PATH_MAX \<Longrightarrow>
   exec_dirs execve program (before @ d # after) sticky errno = Inr (d @ program)"
  by (induction before arbitrary: sticky errno) (auto simp: passed_over_def Let_def)

lemma exec_dirs_none:
  "\<forall>d \<in> set dirs. execve (d @ program) \<in> {EACCES, ENOENT, ENOTDIR} \<and> length program + length d + 1 < PATH_MAX \<Longrightarrow>
   \<exists>d \<in> set dirs. execve (d @ program) = EACCES \<Longrightarrow>
   exec_dirs execve program dirs 0 errno = Inl EACCES"
proof -
  have sticky: "exec_dirs execve program ds EACCES e = Inl EACCES"
    if "\<forall>d \<in> set ds. execve (d @ program) \<in> {EACCES, ENOENT, ENOTDIR} \<and> length program + length d + 1 < PATH_MAX"
    for ds e
    using that by (induction ds arbitrary: e) (auto simp: Let_def)
  show "\<forall>d \<in> set dirs. execve (d @ program) \<in> {EACCES, ENOENT, ENOTDIR} \<and> length program + length d + 1 < PATH_MAX \<Longrightarrow>
    \<exists>d \<in> set dirs. execve (d @ program) = EACCES \<Longrightarrow> ?thesis"
    by (induction dirs arbitrary: errno) (auto simp: Let_def sticky)
qed

lemma split_path_length: "length (split_path_loop n p) = n"
  by (induction n arbitrary: p) auto

lemma split_path_join:
  assumes "CHR '':'' \<notin> set d"
  shows "split_path (d @ CHR '':'' # p) = path_entry d # split_path p"
proof -
  have "count_occurrences (d @ CHR '':'' # p) CHR '':'' = Suc (count_occurrences p CHR '':'')"
    using assms by (induction d) auto
  moreover have "takeWhile (\<lambda>c. c \<noteq> CHR '':'') (d @ CHR '':'' # p) = d"
    "dropWhile (\<lambda>c. c \<noteq> CHR '':'') (d @ CHR '':'' # p) = CHR '':'' # p"
    using assms by (induction d) auto
  ultimately show ?thesis by (simp add: split_path_def)
qed

section \<open>Witnesses\<close>

definition sample_child :: child_run where
  "sample_child = \<lparr>cr_out = ''hi'', cr_err = [],
     cr_polls = replicate 3 (Poll_ready (Some (Avail 1)) (Some (Avail 1)) (Some (Wrote 9))),
     cr_waited = Exited 2\<rparr>"

definition broken_child :: child_run where
  "broken_child = sample_child\<lparr>cr_polls := [Poll_ready (Some (Avail 1)) None None, Poll_error EINVAL]\<rparr>"

definition sample_os :: "child_run \<Rightarrow> shell_os" where
  "sample_os r = \<lparr>os_pipes = 3, os_fork = True, os_child = (\<lambda>_ _ _. r)\<rparr>"

lemma shell_returns_output_witness:
  "\<exists>call. function_shellexec (sample_os sample_child)
     [JArr (map JStr [''ls'']), JArr [JNum 65], JNull, JNull, JNull, JNull] = Done call \<and>
     sc_result call = JArr [JNum 2, JStr ''hi'', JStr []]"
proof -
  let ?a = "[JArr (map JStr [''ls'']), JArr [JNum 65], JNull, JNull, JNull, JNull]"
  let ?v = "JArr [JNum 2, JStr ''hi'', JStr []]"
  have out: "length (cr_out sample_child) < out_reads (cr_polls sample_child)"
    "length (cr_err sample_child) < err_reads (cr_polls sample_child)"
    "\<forall>ev \<in> set (cr_polls sample_child). poll_ok ev"
    by (simp_all add: sample_child_def numeral_eq_Suc ready_def poll_ok_def read_ok_def)
  have v: "?v = JArr [JNum (child_status (cr_waited sample_child)), JStr (c_string (cr_out sample_child)),
      JStr (c_string (cr_err sample_child))]"
    by (simp add: sample_child_def child_status_def c_string_def)
  have r: "sample_child = os_child (sample_os sample_child) (map c_string [''ls'']) None (value_to_c_string JNull)"
    by (simp add: sample_os_def)
  show ?thesis
    using shell_returns_output [of "sample_os sample_child" ?a "[''ls'']" "JArr [JNum 65]" JNull JNull JNull JNull
      None sample_child "-1" ?v, OF _ _ _ _ _ _ r out(3,1,2) _ v refl]
    by (auto simp: sample_os_def)
qed

lemma broken_child_crashes:
  "function_shellexec (sample_os broken_child)
     [JArr (map JStr [''ls'']), JNull, JNull, JNull, JNull, JNull] = Crashed"
  by (rule poll_failure_unterminated [where cs = "[''ls'']" and ?a1.0 = JNull and ?a2.0 = JNull and ?a4.0 = JNull and ?a5.0 = JNull
      and k = 1 and e = EINVAL and evs = "[]" and r = broken_child])
    (simp_all add: sample_os_def broken_child_def sample_child_def)

end
