(* ===== verification/Archive.thy ===== *)
theory Archive
  imports Io
begin

text \<open>
  \<open>archive.c\<close> and \<open>globals.h\<close>. The zip library is a parameter: what opening a file as an
  archive gives, and for an archive what each entry holds and whether it can be opened and read.
  An archive is read whole, so that \<open>zip_fread\<close> either fills the buffer or fails. The
  configuration is the record of \<open>globals.h\<close>.
\<close>

section \<open>Archives\<close>

record zip_entry =
  ze_bytes :: string
  ze_mtime :: int
  ze_fopen :: bool
  ze_fread :: bool

record zip =
  zip_stat :: "string \<Rightarrow> zip_entry option"
  zip_strerror :: string

text \<open>The length a buffer of \<open>n\<close> bytes leaves to \<open>snprintf\<close>.\<close>

definition snprintf :: "nat \<Rightarrow> string \<Rightarrow> string" where
  "snprintf n s = take (n - 1) s"

text \<open>The archive and the error message.\<close>

definition open_archive :: "(string \<Rightarrow> zip option) \<Rightarrow> string \<Rightarrow> zip option \<times> string option" where
  "open_archive zip_open path =
     (case zip_open path of
        None \<Rightarrow> (None, Some (snprintf 1024 (''Could not open '' @ path)))
      | Some z \<Rightarrow> (Some z, None))"

definition format_zip_error :: "string \<Rightarrow> zip \<Rightarrow> string" where
  "format_zip_error pre z = snprintf 1024 (pre @ '': '' @ zip_strerror z)"

text \<open>The payload, the time stored for the caller if one is, and the error message.\<close>

definition get_contents_zip :: "zip \<Rightarrow> string \<Rightarrow> string option \<times> int option \<times> string option" where
  "get_contents_zip z name =
     (case zip_stat z name of
        None \<Rightarrow> (None, None, None)
      | Some st \<Rightarrow>
          if \<not> ze_fopen st then (None, None, Some (format_zip_error ''zip_fopen'' z))
          else if \<not> ze_fread st then (None, Some (ze_mtime st), Some (format_zip_error ''zip_fread'' z))
          else (Some (ze_bytes st), Some (ze_mtime st), None))"

section \<open>The configuration\<close>

record src_path =
  sp_type :: string
  sp_path :: string
  sp_archive :: "zip option"
  sp_blacklisted :: bool

record script =
  sc_type :: string
  sc_expression :: bool
  sc_source :: string

record config =
  verbose :: bool
  quiet :: bool
  is_tty :: bool
  repl_mode :: bool
  javascript :: bool
  checked_arrays :: "string option"
  static_fns :: bool
  fn_invoke_direct :: bool
  elide_asserts :: bool
  optimizations :: string
  theme :: "string option"
  dumb_terminal :: bool
  main_ns_name :: "string option"
  rest_args :: "string list"
  out_path :: "string option"
  cache_path :: "string option"
  src_paths :: "src_path list"
  scripts :: "script list"
  socket_repl_host :: "string option"
  socket_repl_port :: int
  compile_opts :: "string list"

end
