(* ===== verification/Loading.thy ===== *)
theory Loading
  imports Archive Js Str
begin

text \<open>
  The part of \<open>functions.c\<close> that finds and loads sources: the search along the class path, the
  files of every entry, resources of archives, the compiler's cache, and the import of Closure
  scripts with its table of hashes. The bundled sources, the archives and the times of files are
  parameters. JavaScript strings are their bytes; \<open>None\<close> as result is a failed assertion or the
  use of a NULL pointer.
\<close>

record world =
  w_fs :: filesys
  w_mtime :: "string list \<Rightarrow> int"
  w_zip_open :: "string \<Rightarrow> zip option"
  w_bundle :: "string \<Rightarrow> string option"

text \<open>The time \<open>get_contents\<close> stores: that of any file it could open.\<close>

definition stat_time :: "world \<Rightarrow> string \<Rightarrow> int option" where
  "stat_time w path =
     (case sys_open_read path (w_fs w) of
        Inl _ \<Rightarrow> None | Inr _ \<Rightarrow> Some (w_mtime w (resolve (w_fs w) path)))"

definition stat_ok :: "world \<Rightarrow> string \<Rightarrow> bool" where
  "stat_ok w path \<longleftrightarrow> path \<noteq> [] \<and> nodes (w_fs w) (resolve (w_fs w) path) \<noteq> None"

fun keep_time :: "int option \<Rightarrow> int \<Rightarrow> int" where
  "keep_time None t = t"
| "keep_time (Some t') t = t'"

text \<open>The path of an argument.\<close>

fun path_arg :: "js \<Rightarrow> string option" where
  "path_arg (JStr s) = (if length s < PATH_MAX then Some (c_string s) else None)"
| "path_arg _ = Some []"

definition function_read_file :: "world \<Rightarrow> js list \<Rightarrow> js option" where
  "function_read_file w args =
     (case args of
        [v] \<Rightarrow>
          if is_str v
          then (case path_arg v of
              None \<Rightarrow> None
            | Some path \<Rightarrow>
                (case get_contents path (w_fs w) of
                   None \<Rightarrow> Some JNull
                 | Some c \<Rightarrow> Some (JArr [JStr (c_string c), JNum (keep_time (stat_time w path) 0)])))
          else Some JNull
      | _ \<Rightarrow> Some JNull)"

section \<open>Loading from the class path\<close>

record loaded =
  l_contents :: "string option"
  l_mtime :: int
  l_path :: string
  l_type :: "string option"
  l_location :: "string option"

text \<open>Opening the archive of an entry on first use; what is printed if it cannot be opened.\<close>

definition entry_archive :: "world \<Rightarrow> src_path \<Rightarrow> src_path \<times> string list" where
  "entry_archive w sp =
     (case sp_archive sp of
        Some _ \<Rightarrow> (sp, [])
      | None \<Rightarrow>
          (let (z, err) = open_archive (w_zip_open w) (sp_path sp) in
           (sp\<lparr>sp_archive := z\<rparr>, case err of None \<Rightarrow> [] | Some e \<Rightarrow> [e])))"

definition load_src :: "world \<Rightarrow> string \<Rightarrow> src_path \<Rightarrow> loaded \<Rightarrow> loaded" where
  "load_src w path sp l =
     (let full_path = str_concat (sp_path sp) path;
          contents = get_contents full_path (w_fs w);
          l' = l\<lparr>l_contents := contents, l_mtime := keep_time (stat_time w full_path) (l_mtime l)\<rparr> in
      if contents \<noteq> None
      then l'\<lparr>l_path := full_path, l_type := Some (sp_type sp), l_location := Some (sp_path sp)\<rparr>
      else l')"

definition load_jar :: "world \<Rightarrow> string \<Rightarrow> src_path \<Rightarrow> loaded \<Rightarrow> loaded \<times> src_path \<times> string list" where
  "load_jar w path sp l =
     (if stat_ok w (sp_path sp)
      then let (sp', said) = entry_archive w sp;
             l' = l\<lparr>l_type := Some (sp_type sp), l_location := Some (sp_path sp)\<rparr> in
        (case sp_archive sp' of
           None \<Rightarrow> (l', sp', said)
         | Some z \<Rightarrow>
             (let (c, t, err) = get_contents_zip z path in
              (l'\<lparr>l_contents := c, l_mtime := keep_time t (l_mtime l)\<rparr>, sp',
               said @ (case (c, err) of (None, Some e) \<Rightarrow> [e] | _ \<Rightarrow> []))))
      else (l, sp\<lparr>sp_blacklisted := True\<rparr>, [sp_path sp]))"

definition load_entry :: "world \<Rightarrow> string \<Rightarrow> src_path \<Rightarrow> loaded \<Rightarrow> loaded \<times> src_path \<times> string list" where
  "load_entry w path sp l =
     (if sp_type sp = ''src'' then (load_src w path sp l, sp, [])
      else if sp_type sp = ''jar'' then load_jar w path sp l
      else (l, sp, []))"

fun load_paths :: "world \<Rightarrow> string \<Rightarrow> src_path list \<Rightarrow> loaded \<Rightarrow> loaded \<times> src_path list \<times> string list" where
  "load_paths w path [] l = (l, [], [])"
| "load_paths w path (sp # sps) l =
     (if sp_blacklisted sp
      then let (l', sps', said) = load_paths w path sps l in (l', sp # sps', said)
      else let (l1, sp1, said1) = load_entry w path sp l in
        if l_contents l1 \<noteq> None then (l1, sp1 # sps, said1)
        else let (l2, sps2, said2) = load_paths w path sps l1 in (l2, sp1 # sps2, said1 @ said2))"

definition developing :: "config \<Rightarrow> bool" where
  "developing c \<longleftrightarrow>
     (case src_paths c of
        [sp] \<Rightarrow> sp_type sp = ''src'' \<and> str_has_suffix (sp_path sp) ''/planck-cljs/src/'' = 0
      | _ \<Rightarrow> False)"

text \<open>The search in its order: the bundle, the class path, the output directory, and when developing the bundle last.\<close>

definition find_source :: "world \<Rightarrow> config \<Rightarrow> string \<Rightarrow> loaded \<times> src_path list \<times> string list" where
  "find_source w c path =
     (let l0 = \<lparr>l_contents = None, l_mtime = 0, l_path = path, l_type = None, l_location = None\<rparr>;
          l1 = (if developing c then l0
                else l0\<lparr>l_contents := w_bundle w path, l_type := Some ''bundled'', l_mtime := 0\<rparr>);
          (l2, sps, said) =
            (if l_contents l1 = None then load_paths w path (src_paths c) l1 else (l1, src_paths c, []));
          l3 = (case (l_contents l2, out_path c) of
                  (None, Some out) \<Rightarrow>
                    l2\<lparr>l_contents := get_contents (str_concat out path) (w_fs w),
                       l_mtime := keep_time (stat_time w (str_concat out path)) (l_mtime l2)\<rparr>
                | _ \<Rightarrow> l2);
          l4 = (if developing c \<and> l_contents l3 = None
                then l3\<lparr>l_contents := w_bundle w path, l_mtime := 0\<rparr> else l3) in
      (l4, sps, said))"

definition function_load :: "world \<Rightarrow> config \<Rightarrow> js list \<Rightarrow> (js \<times> config \<times> string list) option" where
  "function_load w c args =
     (case args of
        [v] \<Rightarrow>
          if is_str v
          then (case path_arg v of
              None \<Rightarrow> None
            | Some path \<Rightarrow>
                (let (l, sps, said) = find_source w c path; c' = c\<lparr>src_paths := sps\<rparr> in
                 case l_contents l of
                   None \<Rightarrow> Some (JNull, c', said)
                 | Some s \<Rightarrow>
                     Some (JArr [JStr (c_string s), JNum (l_mtime l), JStr (l_path l),
                       c_string_to_value (l_type l), c_string_to_value (l_location l)], c', said)))
          else Some (JNull, c, [])
      | _ \<Rightarrow> Some (JNull, c, []))"

section \<open>The files of every entry\<close>

definition all_entry ::
  "world \<Rightarrow> string \<Rightarrow> src_path \<Rightarrow> (string \<times> string) option \<times> src_path \<times> string list" where
  "all_entry w filename sp =
     (if sp_type sp = ''jar''
      then if stat_ok w (sp_path sp)
        then let (sp', said) = entry_archive w sp in
          (case sp_archive sp' of
             None \<Rightarrow> (None, sp', said)
           | Some z \<Rightarrow>
               (case get_contents_zip z filename of
                  (Some source, _, _) \<Rightarrow>
                    (Some (snprintf 1024 (''jar:file://'' @ sp_path sp @ ''!/'' @ filename), source), sp', said)
                | (None, _, err) \<Rightarrow> (None, sp', said @ (case err of None \<Rightarrow> [] | Some e \<Rightarrow> [e]))))
        else (None, sp\<lparr>sp_blacklisted := True\<rparr>, [sp_path sp])
      else (case get_contents (str_concat (sp_path sp) filename) (w_fs w) of
          None \<Rightarrow> (None, sp, [])
        | Some source \<Rightarrow> (Some (snprintf 1024 (''file://'' @ sp_path sp @ filename), source), sp, [])))"

fun load_all_loop ::
  "world \<Rightarrow> string \<Rightarrow> src_path list \<Rightarrow> (string \<times> string) list \<times> src_path list \<times> string list" where
  "load_all_loop w filename [] = ([], [], [])"
| "load_all_loop w filename (sp # sps) =
     (let (fs, sps', said) = load_all_loop w filename sps in
      if sp_blacklisted sp then (fs, sp # sps', said)
      else let (f, sp', said') = all_entry w filename sp in
        ((case f of None \<Rightarrow> fs | Some x \<Rightarrow> x # fs), sp' # sps', said' @ said))"

definition function_load_all_files ::
  "string \<Rightarrow> world \<Rightarrow> config \<Rightarrow> js list \<Rightarrow> js \<times> config \<times> string list" where
  "function_load_all_files filename w c args =
     (if args = []
      then let (fs, sps, said) = load_all_loop w filename (src_paths c) in
        (JArr (map (\<lambda>(p, s). JArr [JStr p, JStr (c_string s)]) fs), c\<lparr>src_paths := sps\<rparr>, said)
      else (JArr [], c, []))"

definition function_load_deps_cljs_files :: "world \<Rightarrow> config \<Rightarrow> js list \<Rightarrow> js \<times> config \<times> string list" where
  "function_load_deps_cljs_files = function_load_all_files ''deps.cljs''"

definition function_load_data_readers_files :: "world \<Rightarrow> config \<Rightarrow> js list \<Rightarrow> js \<times> config \<times> string list" where
  "function_load_data_readers_files = function_load_all_files ''data_readers.cljc''"

section \<open>A resource of an archive\<close>

definition bytes_js :: "string \<Rightarrow> js" where
  "bytes_js s = JArr (map (\<lambda>c. JNum (of_char c)) s)"

definition jar_resource :: "world \<Rightarrow> string \<Rightarrow> string \<Rightarrow> string option \<times> string option" where
  "jar_resource w jar resource =
     (case open_archive (w_zip_open w) jar of
        (None, err) \<Rightarrow> (None, Some (case err of None \<Rightarrow> ''Failed to open JAR'' | Some e \<Rightarrow> e))
      | (Some z, err) \<Rightarrow>
          (case get_contents_zip z resource of
             (Some s, _, err') \<Rightarrow> (Some s, (case err' of None \<Rightarrow> err | e \<Rightarrow> e))
           | (None, _, err') \<Rightarrow>
               (None, Some (case err' of None \<Rightarrow> ''Resource not found in JAR'' | Some e \<Rightarrow> e))))"

definition function_load_from_jar :: "world \<Rightarrow> js list \<Rightarrow> js option" where
  "function_load_from_jar w args =
     (case args of
        [a, b, c] \<Rightarrow>
          if is_str a \<and> is_str b \<and> is_bool c
          then (case (path_arg a, path_arg b) of
              (Some jar, Some resource) \<Rightarrow>
                (let (payload, err) = jar_resource w jar resource in
                 Some (JArr
                   [case payload of
                      None \<Rightarrow> JNull
                    | Some s \<Rightarrow> if to_bool c then JStr (c_string s) else bytes_js s,
                    case err of None \<Rightarrow> JNull | Some e \<Rightarrow> JStr e]))
            | _ \<Rightarrow> None)
          else Some JNull
      | _ \<Rightarrow> Some JNull)"

section \<open>The cache of compiled code\<close>

text \<open>
  Writing a string that may be NULL: \<open>write_contents\<close> opens the file and then takes the length.
  \<open>wr\<close> gives what each \<open>fwrite\<close> to a path writes.
\<close>

definition write_string :: "(string \<Rightarrow> nat list) \<Rightarrow> string \<Rightarrow> string option \<Rightarrow> filesys \<Rightarrow> filesys option" where
  "write_string ks path s fs =
     (case s of
        Some s \<Rightarrow> Some (fst (write_contents (ks path) path s fs))
      | None \<Rightarrow> (case sys_create False path fs of (e, fs') \<Rightarrow> if e \<noteq> 0 then Some fs' else None))"

definition function_cache :: "(string \<Rightarrow> nat list) \<Rightarrow> js list \<Rightarrow> filesys \<Rightarrow> filesys option" where
  "function_cache ks args fs =
     (case args of
        [a, b, c, d] \<Rightarrow>
          if is_str a \<and> is_str b \<and> (is_str c \<or> c = JNull) \<and> (is_str d \<or> d = JNull)
          then let cache_prefix = the (value_to_c_string a) in
            (case write_string ks (cache_prefix @ ''.js'') (value_to_c_string b) fs of
               None \<Rightarrow> None
             | Some fs1 \<Rightarrow>
                 (case write_string ks (cache_prefix @ ''.cache.json'') (value_to_c_string c) fs1 of
                    None \<Rightarrow> None
                  | Some fs2 \<Rightarrow>
                      (case value_to_c_string d of
                         None \<Rightarrow> Some fs2
                       | Some m \<Rightarrow> write_string ks (cache_prefix @ ''.js.map.json'') (Some m) fs2)))
          else Some fs
      | _ \<Rightarrow> Some fs)"

section \<open>Importing scripts\<close>

fun hash_loop :: "64 word \<Rightarrow> string \<Rightarrow> 64 word" where
  "hash_loop h [] = h"
| "hash_loop h (c # cs) = hash_loop ((push_bit 5 h + h) + of_char c) cs"

definition hash :: "string \<Rightarrow> 64 word" where
  "hash str = hash_loop 5381 str"

fun is_loaded :: "64 word list \<Rightarrow> 64 word \<Rightarrow> bool" where
  "is_loaded [] h = False"
| "is_loaded (x # xs) h = (if x = h then True else is_loaded xs h)"

definition add_loaded_hash :: "64 word \<Rightarrow> 64 word list \<Rightarrow> 64 word list" where
  "add_loaded_hash h hs = (if length hs < 2048 then hs @ [h] else hs)"

text \<open>The scripts evaluated so far, with the path each was evaluated under.\<close>

record goog_imports =
  loaded_goog_hashes :: "64 word list"
  evaluated :: "(string \<times> string) list"

definition script_source :: "world \<Rightarrow> config \<Rightarrow> string \<Rightarrow> string option" where
  "script_source w c path =
     (case out_path c of
        None \<Rightarrow> w_bundle w path
      | Some out \<Rightarrow> get_contents (str_concat out path) (w_fs w))"

definition function_import_script :: "world \<Rightarrow> config \<Rightarrow> js list \<Rightarrow> goog_imports \<Rightarrow> goog_imports option" where
  "function_import_script w c args s =
     (case args of
        [v] \<Rightarrow>
          if is_str v
          then (case path_arg v of
              None \<Rightarrow> None
            | Some tmp \<Rightarrow>
                let outside = (str_has_prefix tmp ''goog/../'' = 0);
                    path = (if outside then drop 8 tmp else tmp);
                    can_skip_load = (\<not> outside \<and> is_loaded (loaded_goog_hashes s) (hash path));
                    s' = (if outside \<or> can_skip_load then s
                          else s\<lparr>loaded_goog_hashes := add_loaded_hash (hash path) (loaded_goog_hashes s)\<rparr>) in
                Some (if can_skip_load then s'
                  else case script_source w c path of
                    None \<Rightarrow> s'
                  | Some source \<Rightarrow> s'\<lparr>evaluated := evaluated s' @ [(path, source)]\<rparr>))
          else Some s
      | _ \<Rightarrow> Some s)"

end
