(* ===== verification/Loading_Props.thy ===== *)
theory Loading_Props
  imports Loading Io_Props
begin

text \<open>
  What loading promises: the first source on the search path is the one returned, with where it
  was found; a script is imported once, as long as the hashes of the paths differ.
\<close>

section \<open>The search path\<close>

text \<open>
  A source: contents, time, path and, where the code reports it reliably, type and location. The
  sources of an entry, and all of them in the order of the search.
\<close>

type_synonym source = "string \<times> int \<times> string \<times> (string \<times> string option) option"

definition entry_source :: "world \<Rightarrow> string \<Rightarrow> src_path \<Rightarrow> source option" where
  "entry_source w path sp =
     (let full = sp_path sp @ path in
      if sp_blacklisted sp then None
      else if sp_type sp = ''src''
      then map_option (\<lambda>c. (c, w_mtime w (resolve (w_fs w) full), full, Some (''src'', Some (sp_path sp))))
        (get_contents full (w_fs w))
      else if sp_type sp = ''jar'' \<and> stat_ok w (sp_path sp)
      then (case w_zip_open w (sp_path sp) of
          None \<Rightarrow> None
        | Some z \<Rightarrow>
            (case get_contents_zip z path of
               (Some c, Some t, _) \<Rightarrow> Some (c, t, path, Some (''jar'', Some (sp_path sp)))
             | _ \<Rightarrow> None))
      else None)"

definition sources :: "world \<Rightarrow> config \<Rightarrow> string \<Rightarrow> source list" where
  "sources w c path =
     (let bundled = (\<lambda>origin. case w_bundle w path of None \<Rightarrow> [] | Some s \<Rightarrow> [(s, 0, path, origin)]) in
      (if developing c then [] else bundled (Some (''bundled'', None))) @
      List.map_filter (entry_source w path) (src_paths c) @
      (case out_path c of
         None \<Rightarrow> []
       | Some out \<Rightarrow>
           (case get_contents (out @ path) (w_fs w) of
              None \<Rightarrow> [] | Some s \<Rightarrow> [(s, w_mtime w (resolve (w_fs w) (out @ path)), path, None)])) @
      (if developing c then bundled None else []))"

definition current :: "world \<Rightarrow> src_path \<Rightarrow> bool" where
  "current w sp \<longleftrightarrow> sp_archive sp \<noteq> None \<longrightarrow> sp_archive sp = w_zip_open w (sp_path sp)"

text \<open>The loader holds a source: contents, time and path, and its type and location if given.\<close>

definition holds :: "loaded \<Rightarrow> source \<Rightarrow> bool" where
  "holds l src \<longleftrightarrow>
     (case src of (s, t, p, origin) \<Rightarrow>
        l_contents l = Some s \<and> l_mtime l = t \<and> l_path l = p \<and>
        (\<forall>ty loc. origin = Some (ty, loc) \<longrightarrow> l_type l = Some ty \<and> l_location l = loc))"

lemma get_contents_time:
  "get_contents path (w_fs w) = Some c \<Longrightarrow> stat_time w path = Some (w_mtime w (resolve (w_fs w) path))"
  by (auto simp: get_contents_def stat_time_def split: sum.splits)

lemma get_contents_zip_time: "get_contents_zip z name = (Some c, t, e) \<Longrightarrow> t \<noteq> None"
  by (auto simp: get_contents_zip_def split: option.splits if_splits)

lemma entry_archive_current:
  assumes "current w sp"
  shows "fst (entry_archive w sp) = sp\<lparr>sp_archive := w_zip_open w (sp_path sp)\<rparr>"
  using assms
  by (cases sp) (auto simp: current_def entry_archive_def open_archive_def split: option.splits)

lemma load_entry_spec:
  assumes "current w sp" "l_contents l = None" "l_path l = path" "\<not> sp_blacklisted sp"
    and "load_entry w path sp l = (l', sp', said)"
  shows "(case entry_source w path sp of
      None \<Rightarrow> l_contents l' = None \<and> l_path l' = path | Some src \<Rightarrow> holds l' src) \<and>
    current w sp' \<and> sp_path sp' = sp_path sp \<and> sp_type sp' = sp_type sp"
proof -
  consider (src) "sp_type sp = ''src''" | (jar) "sp_type sp = ''jar''"
    | (other) "sp_type sp \<noteq> ''src''" "sp_type sp \<noteq> ''jar''" by blast
  then show ?thesis
  proof cases
    case src
    with assms show ?thesis
      by (auto simp: load_entry_def load_src_def entry_source_def Let_def str_concat_def holds_def
        dest: get_contents_time split: option.splits)
  next
    case other
    with assms show ?thesis by (auto simp: load_entry_def entry_source_def)
  next
    case jar
    obtain sp1 said1 where a: "entry_archive w sp = (sp1, said1)" by (cases "entry_archive w sp")
    then have sp1: "sp1 = sp\<lparr>sp_archive := w_zip_open w (sp_path sp)\<rparr>"
      using entry_archive_current [OF assms(1)] by simp
    show ?thesis
    proof (cases "w_zip_open w (sp_path sp)")
      case None
      with jar a sp1 assms show ?thesis
        by (auto simp: load_entry_def load_jar_def entry_source_def current_def split: if_splits)
    next
      case (Some z)
      obtain c t e where g: "get_contents_zip z path = (c, t, e)" by (cases "get_contents_zip z path")
      from get_contents_zip_time [of z path _ t e] g have "c \<noteq> None \<Longrightarrow> t \<noteq> None" by auto
      with Some g jar a sp1 assms show ?thesis
        by (cases c; cases t)
          (auto simp: load_entry_def load_jar_def entry_source_def current_def holds_def split: if_splits)
    qed
  qed
qed

lemma load_paths_spec:
  assumes "\<forall>sp \<in> set sps. current w sp" "l_contents l = None" "l_path l = path"
    and "load_paths w path sps l = (l', sps', said)"
  shows "(case List.map_filter (entry_source w path) sps of
      [] \<Rightarrow> l_contents l' = None \<and> l_path l' = path | src # _ \<Rightarrow> holds l' src) \<and>
    (\<forall>sp \<in> set sps'. current w sp) \<and> map sp_path sps' = map sp_path sps \<and> map sp_type sps' = map sp_type sps"
  using assms
proof (induction sps arbitrary: l l' sps' said)
  case Nil
  then show ?case by (simp add: map_filter_simps)
next
  case (Cons sp sps)
  show ?case
  proof (cases "sp_blacklisted sp")
    case True
    then have "entry_source w path sp = None" by (simp add: entry_source_def)
    moreover obtain l1 sps1 said1 where r: "load_paths w path sps l = (l1, sps1, said1)"
      by (cases "load_paths w path sps l")
    ultimately show ?thesis
      using True Cons.prems Cons.IH [OF _ Cons.prems(2,3) r] by (auto simp: map_filter_simps)
  next
    case False
    obtain l1 sp1 said1 where e: "load_entry w path sp l = (l1, sp1, said1)"
      by (cases "load_entry w path sp l")
    have sp: "current w sp" using Cons.prems(1) by simp
    note spec = load_entry_spec [OF sp Cons.prems(2,3) False e]
    show ?thesis
    proof (cases "entry_source w path sp")
      case (Some src)
      with spec have h: "holds l1 src" by simp
      then have "l_contents l1 \<noteq> None" by (auto simp: holds_def split: prod.splits)
      with e False Cons.prems spec Some h show ?thesis by (auto simp: map_filter_simps)
    next
      case None
      with spec have l1: "l_contents l1 = None" "l_path l1 = path" by simp_all
      obtain l2 sps2 said2 where r: "load_paths w path sps l1 = (l2, sps2, said2)"
        by (cases "load_paths w path sps l1")
      from Cons.IH [OF _ l1 r] e False Cons.prems spec None l1 r show ?thesis
        by (auto simp: map_filter_simps)
    qed
  qed
qed

lemma find_source_spec:
  assumes "\<forall>sp \<in> set (src_paths c). current w sp"
    and "find_source w c path = (l, sps, said)"
  shows "(case sources w c path of [] \<Rightarrow> l_contents l = None | src # _ \<Rightarrow> holds l src) \<and>
    (\<forall>sp \<in> set sps. current w sp) \<and>
    map sp_path sps = map sp_path (src_paths c) \<and> map sp_type sps = map sp_type (src_paths c)"
proof -
  let ?l0 = "\<lparr>l_contents = None, l_mtime = 0, l_path = path, l_type = None, l_location = None\<rparr>"
  let ?l1 = "if developing c then ?l0
    else ?l0\<lparr>l_contents := w_bundle w path, l_type := Some ''bundled'', l_mtime := 0\<rparr>"
  show ?thesis
  proof (cases "l_contents ?l1")
    case (Some s)
    then have "\<not> developing c" "w_bundle w path = Some s" by (auto split: if_splits)
    with assms show ?thesis
      by (auto simp: find_source_def sources_def Let_def holds_def)
  next
    case None
    then have no_bundle: "\<not> developing c \<Longrightarrow> w_bundle w path = None" by simp
    obtain l2 sps2 said2 where r: "load_paths w path (src_paths c) ?l1 = (l2, sps2, said2)"
      by (cases "load_paths w path (src_paths c) ?l1")
    have p: "l_path ?l1 = path" by simp
    note spec = load_paths_spec [OF assms(1) None p r]
    show ?thesis
    proof (cases "List.map_filter (entry_source w path) (src_paths c)")
      case (Cons src rest)
      then have h: "holds l2 src" using spec by simp
      then have "l_contents l2 \<noteq> None" by (auto simp: holds_def split: prod.splits)
      with assms(2) None r Cons h spec no_bundle show ?thesis
        by (auto simp: find_source_def sources_def Let_def split: option.splits if_splits)
    next
      case Nil
      then have l2: "l_contents l2 = None" "l_path l2 = path" using spec by simp_all
      with assms(2) None r Nil spec no_bundle show ?thesis
        by (auto simp: find_source_def sources_def Let_def holds_def str_concat_def
          dest: get_contents_time split: option.splits if_splits)
    qed
  qed
qed


text \<open>
  C35. Loading a path gives the first of its sources in the order bundle, class path, output
  directory (a developer's bundle last), with its time and path and, for the bundle and the class
  path, where it is from; it gives null if there is none. The entries stay what they are, and
  the archives kept with them remain those of their paths.
\<close>

theorem load_finds_first:
  assumes "\<forall>sp \<in> set (src_paths c). current w sp" "length path < PATH_MAX" "NUL \<notin> set path"
  shows "\<exists>v c' said. function_load w c [JStr path] = Some (v, c', said) \<and>
    (case sources w c path of
       [] \<Rightarrow> v = JNull
     | (s, t, p, origin) # _ \<Rightarrow>
         \<exists>ty loc. v = JArr [JStr (c_string s), JNum t, JStr p, ty, loc] \<and>
           (origin \<noteq> None \<longrightarrow>
              ty = JStr (fst (the origin)) \<and> loc = c_string_to_value (snd (the origin)))) \<and>
    (\<forall>sp \<in> set (src_paths c'). current w sp) \<and>
    map sp_path (src_paths c') = map sp_path (src_paths c) \<and>
    map sp_type (src_paths c') = map sp_type (src_paths c)"
proof -
  obtain l sps said where f: "find_source w c path = (l, sps, said)"
    by (cases "find_source w c path")
  note spec = find_source_spec [OF assms(1) f]
  have arg: "path_arg (JStr path) = Some path" using assms by (simp add: c_string_no_nul)
  show ?thesis
  proof (cases "sources w c path")
    case Nil
    with spec f arg show ?thesis by (simp add: function_load_def)
  next
    case (Cons src rest)
    obtain s t p origin where src: "src = (s, t, p, origin)" by (cases src)
    from spec Cons src have "l_contents l = Some s" "l_mtime l = t" "l_path l = p"
      "\<forall>ty loc. origin = Some (ty, loc) \<longrightarrow> l_type l = Some ty \<and> l_location l = loc"
      by (auto simp: holds_def)
    with spec f arg Cons src show ?thesis
      by (auto simp: function_load_def c_string_to_value_def)
  qed
qed

text \<open>The type and location reported for a file of the output directory are those of the archive looked at last.\<close>

lemma stale_origin:
  assumes "\<not> developing c" "w_bundle w path = None" "src_paths c = [sp]" "out_path c = Some out"
    "sp_type sp = ''jar''" "stat_ok w (sp_path sp)" "\<not> sp_blacklisted sp" "sp_archive sp = Some z"
    "zip_stat z path = None" "get_contents (out @ path) (w_fs w) = Some s"
    "length path < PATH_MAX" "NUL \<notin> set path"
  shows "\<exists>t c' said. function_load w c [JStr path] =
    Some (JArr [JStr (c_string s), JNum t, JStr path, JStr ''jar'', JStr (sp_path sp)], c', said)"
  using assms
  by (simp add: function_load_def find_source_def load_entry_def load_jar_def entry_archive_def
    get_contents_zip_def Let_def str_concat_def c_string_to_value_def c_string_no_nul)

section \<open>Imports\<close>

text \<open>Importing one script after the other.\<close>

fun import_all :: "world \<Rightarrow> config \<Rightarrow> string list \<Rightarrow> goog_imports \<Rightarrow> goog_imports option" where
  "import_all w c [] s = Some s"
| "import_all w c (p # ps) s =
     (case function_import_script w c [JStr p] s of None \<Rightarrow> None | Some s' \<Rightarrow> import_all w c ps s')"

lemma import_all_append:
  "import_all w c (ps @ qs) s =
   (case import_all w c ps s of None \<Rightarrow> None | Some s' \<Rightarrow> import_all w c qs s')"
  by (induction ps arbitrary: s) (auto split: option.splits)

lemma is_loaded_iff: "is_loaded hs h \<longleftrightarrow> h \<in> set hs"
  by (induction hs) auto

text \<open>
  A path that starts with \<open>goog/../\<close> is evaluated without that start, whatever was imported
  before; the others go through the table of hashes.
\<close>

definition outside :: "string \<Rightarrow> bool" where
  "outside p \<longleftrightarrow> prefix ''goog/../'' p"

definition goog_path :: "string \<Rightarrow> bool" where
  "goog_path p \<longleftrightarrow> NUL \<notin> set p \<and> length p < PATH_MAX \<and> \<not> outside p"

definition imported :: "world \<Rightarrow> config \<Rightarrow> string \<Rightarrow> (string \<times> string) list" where
  "imported w c p = (case script_source w c p of None \<Rightarrow> [] | Some src \<Rightarrow> [(p, src)])"

lemma import_script_eq:
  assumes "goog_path p"
  shows "function_import_script w c [JStr p] s =
    Some (if hash p \<in> set (loaded_goog_hashes s) then s
      else s\<lparr>loaded_goog_hashes := add_loaded_hash (hash p) (loaded_goog_hashes s),
             evaluated := evaluated s @ imported w c p\<rparr>)"
proof -
  have "path_arg (JStr p) = Some p" "str_has_prefix p ''goog/../'' \<noteq> 0"
    using assms by (simp_all add: goog_path_def outside_def c_string_no_nul str_has_prefix_0)
  then show ?thesis
    by (cases s) (simp add: function_import_script_def imported_def Let_def is_loaded_iff split: option.splits)
qed

lemma import_outside_eq:
  assumes "NUL \<notin> set p" "length p < PATH_MAX" "outside p"
  shows "function_import_script w c [JStr p] s = Some (s\<lparr>evaluated := evaluated s @ imported w c (drop 8 p)\<rparr>)"
proof -
  have "path_arg (JStr p) = Some p" "str_has_prefix p ''goog/../'' = 0"
    using assms by (simp_all add: outside_def c_string_no_nul str_has_prefix_0)
  then show ?thesis
    by (cases s) (simp add: function_import_script_def imported_def Let_def split: option.splits)
qed

text \<open>
  The requests that are to evaluate a script: those of paths that start with \<open>goog/../\<close>, and the
  first of each other path.
\<close>

definition requests :: "string list \<Rightarrow> nat list" where
  "requests ps = filter (\<lambda>i. outside (ps ! i) \<or> ps ! i \<notin> set (take i ps)) [0..<length ps]"

definition target :: "string \<Rightarrow> string" where
  "target p = (if outside p then drop 8 p else p)"

lemma requests_snoc:
  "map (\<lambda>i. target ((ps @ [p]) ! i)) (requests (ps @ [p])) =
     map (\<lambda>i. target (ps ! i)) (requests ps) @ (if outside p \<or> p \<notin> set ps then [target p] else [])"
proof -
  have "filter (\<lambda>i. outside ((ps @ [p]) ! i) \<or> (ps @ [p]) ! i \<notin> set (take i (ps @ [p]))) [0..<length ps] = requests ps"
    unfolding requests_def by (rule filter_cong) (auto simp: nth_append)
  moreover have "map (\<lambda>i. target ((ps @ [p]) ! i)) (requests ps) = map (\<lambda>i. target (ps ! i)) (requests ps)"
    by (auto simp: requests_def nth_append)
  ultimately show ?thesis by (simp add: requests_def [of "ps @ [p]"])
qed

definition plain :: "string list \<Rightarrow> string list" where
  "plain ps = filter (\<lambda>p. \<not> outside p) ps"

definition firsts :: "'a list \<Rightarrow> 'a list" where
  "firsts xs = rev (remdups (rev xs))"

lemma firsts_snoc: "firsts (xs @ [x]) = (if x \<in> set xs then firsts xs else firsts xs @ [x])"
  by (simp add: firsts_def)

lemma set_firsts [simp]: "set (firsts xs) = set xs"
  by (simp add: firsts_def)

lemma import_all_requests:
  assumes "\<forall>p \<in> set ps. NUL \<notin> set p \<and> length p < PATH_MAX" "inj_on hash (set (plain ps))"
    "length (firsts (plain ps)) \<le> 2048" "loaded_goog_hashes s = []" "evaluated s = []"
  shows "\<exists>s'. import_all w c ps s = Some s' \<and> loaded_goog_hashes s' = map hash (firsts (plain ps)) \<and>
    evaluated s' = concat (map (imported w c) (map (\<lambda>i. target (ps ! i)) (requests ps)))"
  using assms
proof (induction ps rule: rev_induct)
  case Nil
  then show ?case by (simp add: firsts_def plain_def requests_def)
next
  case (snoc p ps)
  have inj: "inj_on hash (set (plain ps))" using snoc.prems(2) by (auto simp: plain_def intro: inj_on_subset)
  have len: "length (firsts (plain ps)) \<le> 2048"
    using snoc.prems(3) by (auto simp: plain_def firsts_snoc split: if_splits)
  obtain s1 where s1: "import_all w c ps s = Some s1" "loaded_goog_hashes s1 = map hash (firsts (plain ps))"
    "evaluated s1 = concat (map (imported w c) (map (\<lambda>i. target (ps ! i)) (requests ps)))"
    using snoc.IH [OF _ inj len snoc.prems(4,5)] snoc.prems(1) by auto
  have p: "NUL \<notin> set p" "length p < PATH_MAX" using snoc.prems(1) by simp_all
  show ?case
  proof (cases "outside p")
    case True
    then have "plain (ps @ [p]) = plain ps" "target p = drop 8 p" by (simp_all add: plain_def target_def)
    with s1 True show ?thesis unfolding requests_snoc
      by (simp add: import_all_append import_outside_eq [OF p True])
  next
    case False
    then have g: "goog_path p" "plain (ps @ [p]) = plain ps @ [p]" "target p = p" "p \<in> set (plain ps) \<longleftrightarrow> p \<in> set ps"
      using p by (simp_all add: goog_path_def plain_def target_def)
    have "hash p \<in> hash ` set (plain ps) \<longleftrightarrow> p \<in> set (plain ps)"
      using snoc.prems(2) g(2) by (auto simp: inj_on_def)
    moreover have "p \<notin> set (plain ps) \<Longrightarrow> length (firsts (plain ps)) < 2048"
      using snoc.prems(3) g(2) by (simp add: firsts_snoc)
    ultimately show ?thesis
      using s1 False unfolding requests_snoc g(2,3)
      by (cases "p \<in> set ps")
        (simp_all add: import_all_append import_script_eq [OF g(1)] firsts_snoc add_loaded_hash_def g(4))
  qed
qed

text \<open>
  C36. Of a series of imports, repeated in any way, each script that has a source is evaluated at
  the first request of its path and at no other, and one whose path starts with \<open>goog/../\<close> at every
  request, without that start; all in the order of the requests. This holds as long as of the
  paths without that start no two have the same hash and there are at most 2048.
\<close>

theorem scripts_imported_once:
  assumes "\<forall>p \<in> set ps. NUL \<notin> set p \<and> length p < PATH_MAX"
    "inj_on hash {p \<in> set ps. \<not> prefix ''goog/../'' p}" "card {p \<in> set ps. \<not> prefix ''goog/../'' p} \<le> 2048"
  shows "\<exists>s. import_all w c ps \<lparr>loaded_goog_hashes = [], evaluated = []\<rparr> = Some s \<and>
    map fst (evaluated s) =
      filter (\<lambda>p. script_source w c p \<noteq> None)
        (map (\<lambda>i. if prefix ''goog/../'' (ps ! i) then drop 8 (ps ! i) else ps ! i)
          (filter (\<lambda>i. prefix ''goog/../'' (ps ! i) \<or> ps ! i \<notin> set (take i ps)) [0..<length ps]))"
proof -
  have plain: "set (plain ps) = {p \<in> set ps. \<not> prefix ''goog/../'' p}" by (auto simp: plain_def outside_def)
  have len: "length (firsts (plain ps)) \<le> 2048"
    using assms(3) by (simp add: firsts_def length_remdups_card_conv plain)
  have inj: "inj_on hash (set (plain ps))" using assms(2) by (simp add: plain)
  obtain s where s: "import_all w c ps \<lparr>loaded_goog_hashes = [], evaluated = []\<rparr> = Some s"
    "evaluated s = concat (map (imported w c) (map (\<lambda>i. target (ps ! i)) (requests ps)))"
    using import_all_requests [OF assms(1) inj len, of "\<lparr>loaded_goog_hashes = [], evaluated = []\<rparr>"]
    by auto
  have "map fst (concat (map (imported w c) qs)) = filter (\<lambda>p. script_source w c p \<noteq> None) qs" for qs
    by (induction qs) (auto simp: imported_def split: option.splits)
  then have "map fst (evaluated s) =
      filter (\<lambda>p. script_source w c p \<noteq> None) (map (\<lambda>i. target (ps ! i)) (requests ps))"
    by (simp only: s(2))
  with s(1) show ?thesis unfolding target_def outside_def requests_def by blast
qed

lemma hash_loop_append: "hash_loop h (xs @ ys) = hash_loop (hash_loop h xs) ys"
  by (induction xs arbitrary: h) simp_all

text \<open>
  Two paths that differ only in \<open>Ez\<close> for \<open>FY\<close> have the same hash, so that the second of
  them to be imported is taken for loaded and never evaluated.
\<close>

lemma import_collision:
  assumes "goog_path (p @ ''Ez'' @ q)" "goog_path (p @ ''FY'' @ q)"
    and "function_import_script w c [JStr (p @ ''Ez'' @ q)] s = Some s1"
    and "length (loaded_goog_hashes s) < 2048"
  shows "function_import_script w c [JStr (p @ ''FY'' @ q)] s1 = Some s1"
proof -
  have "hash_loop h ''Ez'' = hash_loop h ''FY''" for h
    by (simp add: push_bit_eq_mult algebra_simps)
  then have h: "hash (p @ ''Ez'' @ q) = hash (p @ ''FY'' @ q)"
    unfolding hash_def hash_loop_append by metis
  have "hash (p @ ''Ez'' @ q) \<in> set (loaded_goog_hashes s1)"
    using assms(3,4) unfolding import_script_eq [OF assms(1)]
    by (auto simp: add_loaded_hash_def split: if_splits)
  then show ?thesis unfolding import_script_eq [OF assms(2)] h by simp
qed


section \<open>Witnesses\<close>

definition sample_world :: world where
  "sample_world = \<lparr>w_fs = sample_fs, w_mtime = (\<lambda>_. 7), w_zip_open = (\<lambda>_. None),
     w_bundle = (\<lambda>p. if p = ''x'' then Some ''y'' else None)\<rparr>"

definition sample_config :: config where
  "sample_config = \<lparr>verbose = False, quiet = False, is_tty = False, repl_mode = False, javascript = False,
     checked_arrays = None, static_fns = False, fn_invoke_direct = False, elide_asserts = False,
     optimizations = ''none'', theme = None, dumb_terminal = False, main_ns_name = None, rest_args = [],
     out_path = None, cache_path = None,
     src_paths = [\<lparr>sp_type = ''src'', sp_path = ''/tmp/'', sp_archive = None, sp_blacklisted = False\<rparr>],
     scripts = [], socket_repl_host = None, socket_repl_port = 0, compile_opts = []\<rparr>"

lemma load_finds_first_witness:
  "\<exists>c' said. function_load sample_world sample_config [JStr ''a''] =
    Some (JArr [JStr ''text'', JNum 7, JStr ''/tmp/a'', JStr ''src'', JStr ''/tmp/''], c', said)"
proof -
  have "get_contents ''/tmp/a'' sample_fs = Some ''text''"
    unfolding get_contents_def sys_open_read_def sample_paths by (simp add: sample_fs_def)
  then have "sources sample_world sample_config ''a'' = [(''text'', 7, ''/tmp/a'', Some (''src'', Some ''/tmp/''))]"
    by (simp add: sources_def developing_def sample_config_def sample_world_def str_has_suffix_def Let_def
      map_filter_simps entry_source_def)
  moreover have "\<forall>sp \<in> set (src_paths sample_config). current sample_world sp"
    by (simp add: sample_config_def current_def)
  ultimately show ?thesis
    using load_finds_first [of sample_config sample_world "''a''"]
    by (auto simp: c_string_def c_string_to_value_def)
qed

lemma scripts_imported_once_witness:
  "\<exists>s. import_all sample_world sample_config [''x'', ''goog/../x'', ''z'', ''x'', ''goog/../x'']
      \<lparr>loaded_goog_hashes = [], evaluated = []\<rparr> = Some s \<and>
    map fst (evaluated s) = [''x'', ''x'', ''x'']"
proof -
  let ?ps = "[''x'', ''goog/../x'', ''z'', ''x'', ''goog/../x'']"
  have ps: "{p \<in> set ?ps. \<not> prefix ''goog/../'' p} = {''x'', ''z''}" by auto
  have e: "filter (\<lambda>p. script_source sample_world sample_config p \<noteq> None)
        (map (\<lambda>i. if prefix ''goog/../'' (?ps ! i) then drop 8 (?ps ! i) else ?ps ! i)
          (filter (\<lambda>i. prefix ''goog/../'' (?ps ! i) \<or> ?ps ! i \<notin> set (take i ?ps)) [0..<length ?ps])) =
      [''x'', ''x'', ''x'']"
    by (simp add: upt_rec script_source_def sample_config_def sample_world_def)
  show ?thesis
  proof (rule scripts_imported_once [of ?ps sample_world sample_config, unfolded ps e])
    show "inj_on hash {''x'', ''z''}" by (simp add: inj_on_def hash_def push_bit_eq_mult)
    show "card {''x'', ''z''} \<le> 2048" using card_length [of "[''x'', ''z'']"] by simp
  qed simp
qed

end
