(* ===== verification/Streams.thy ===== *)
theory Streams
  imports Io Js
begin

text \<open>
  \<open>file.c\<close> and the functions of \<open>functions.c\<close> that open, read, write and close files for
  JavaScript. A descriptor is the address of a \<open>FILE\<close> or \<open>UFILE\<close>, handed to JavaScript as its
  decimal digits; addresses are taken from the list of those the allocator will give. A \<open>FILE\<close>
  is a file and a position. The ICU library, which does the encodings, is a record of functions
  on its own state. \<open>None\<close> as result is the use of a NULL or unknown pointer or of uninitialised
  bytes.
\<close>

section \<open>Descriptors\<close>

text \<open>\<open>atoll\<close>: blanks, a sign, digits; a number too large is the largest \<open>long long\<close>.\<close>

definition atoll :: "string \<Rightarrow> int" where
  "atoll s =
     (let s' = dropWhile isspace s;
          neg = (s' \<noteq> [] \<and> hd s' = CHR ''-'');
          ds = (if s' \<noteq> [] \<and> (hd s' = CHR ''-'' \<or> hd s' = CHR ''+'') then tl s' else s');
          n = int (fst (read_digits 0 ds)) in
      if neg then max (- (2 ^ 63)) (- n) else min (2 ^ 63 - 1) n)"

definition descriptor_str_to_int :: "string \<Rightarrow> 64 word" where
  "descriptor_str_to_int s = word_of_int (atoll s)"

definition descriptor_int_to_str :: "64 word \<Rightarrow> string" where
  "descriptor_int_to_str i = show_nat (unat i)"

section \<open>Files\<close>

datatype fmode = Mode_r | Mode_w | Mode_a

record file_stream =
  s_path :: "string list"
  s_pos :: nat
  s_mode :: fmode

record 'u icu =
  u_fopen :: "string \<Rightarrow> fmode \<Rightarrow> string option \<Rightarrow> 'u \<Rightarrow> 64 word \<times> 'u"
  u_file_read :: "64 word \<Rightarrow> nat \<Rightarrow> 'u \<Rightarrow> (string \<times> 'u) option"
  u_feof :: "64 word \<Rightarrow> 'u \<Rightarrow> bool"
  u_clearerr :: "64 word \<Rightarrow> 'u \<Rightarrow> 'u"
  u_file_write :: "64 word \<Rightarrow> string \<Rightarrow> 'u \<Rightarrow> 'u option"
  u_fflush :: "64 word \<Rightarrow> 'u \<Rightarrow> 'u option"
  u_fclose :: "64 word \<Rightarrow> 'u \<Rightarrow> 'u option"

record 'u streams =
  st_fs :: filesys
  st_files :: "64 word \<Rightarrow> file_stream option"
  st_fresh :: "64 word list"
  st_icu :: 'u
  st_said :: "string list"

text \<open>The C library. \<open>fopen\<close> gives NULL if the file cannot be opened.\<close>

definition fopen :: "string \<Rightarrow> fmode \<Rightarrow> 'u streams \<Rightarrow> 64 word \<times> 'u streams" where
  "fopen path mode s =
     (let fs = st_fs s; ps = resolve fs path;
          (ok, fs') =
            (case mode of
               Mode_r \<Rightarrow> (case sys_open_read path fs of Inl _ \<Rightarrow> (False, fs) | Inr _ \<Rightarrow> (True, fs))
             | Mode_w \<Rightarrow> (let (e, fs1) = sys_create False path fs in (e = 0, fs1))
             | Mode_a \<Rightarrow>
                 (case sys_open_read path fs of
                    Inr (File _) \<Rightarrow> (True, fs)
                  | Inr Dir \<Rightarrow> (False, fs)
                  | Inl _ \<Rightarrow> (let (e, fs1) = sys_create False path fs in (e = 0, fs1)))) in
      case (ok, st_fresh s) of
        (True, p # ps') \<Rightarrow>
          (p, s\<lparr>st_fs := fs', st_fresh := ps',
                st_files := (st_files s)(p \<mapsto> \<lparr>s_path = ps, s_pos = 0, s_mode = mode\<rparr>)\<rparr>)
      | _ \<Rightarrow> (0, s\<lparr>st_fs := fs'\<rparr>))"

text \<open>What a file that is open for reading has from its position on; a directory has nothing.\<close>

definition file_rest :: "file_stream \<Rightarrow> 'u streams \<Rightarrow> string" where
  "file_rest f s =
     (case (s_mode f, nodes (st_fs s) (s_path f)) of (Mode_r, Some (File c)) \<Rightarrow> drop (s_pos f) c | _ \<Rightarrow> [])"

definition fread :: "64 word \<Rightarrow> nat \<Rightarrow> 'u streams \<Rightarrow> (string \<times> 'u streams) option" where
  "fread p n s =
     (case st_files s p of
        None \<Rightarrow> None
      | Some f \<Rightarrow>
          (let got = take n (file_rest f s) in
           Some (got, s\<lparr>st_files := (st_files s)(p \<mapsto> f\<lparr>s_pos := s_pos f + length got\<rparr>)\<rparr>)))"

definition put_at :: "nat \<Rightarrow> string \<Rightarrow> string \<Rightarrow> string" where
  "put_at n xs c = take n c @ replicate (n - length c) NUL @ xs @ drop (n + length xs) c"

definition fwrite :: "64 word \<Rightarrow> string \<Rightarrow> 'u streams \<Rightarrow> 'u streams option" where
  "fwrite p xs s =
     (case st_files s p of
        None \<Rightarrow> None
      | Some f \<Rightarrow>
          (case (s_mode f, nodes (st_fs s) (s_path f)) of
             (Mode_r, _) \<Rightarrow> Some s
           | (m, Some (File c)) \<Rightarrow>
               (let pos = (if m = Mode_a then length c else s_pos f) in
                Some (s\<lparr>st_fs := (st_fs s)\<lparr>nodes := (nodes (st_fs s))(s_path f \<mapsto> File (put_at pos xs c))\<rparr>,
                  st_files := (st_files s)(p \<mapsto> f\<lparr>s_pos := pos + length xs\<rparr>)\<rparr>))
           | _ \<Rightarrow> Some s))"

definition fclose :: "64 word \<Rightarrow> 'u streams \<Rightarrow> 'u streams option" where
  "fclose p s =
     (case st_files s p of None \<Rightarrow> None | Some _ \<Rightarrow> Some (s\<lparr>st_files := (st_files s)(p := None)\<rparr>))"

section \<open>file.c\<close>

definition ufile_open :: "'u icu \<Rightarrow> string \<Rightarrow> string option \<Rightarrow> fmode \<Rightarrow> 'u streams \<Rightarrow> 64 word \<times> 'u streams" where
  "ufile_open u path encoding mode s =
     (let (d, i) = u_fopen u path mode encoding (st_icu s) in (d, s\<lparr>st_icu := i\<rparr>))"

definition ufile_open_read :: "'u icu \<Rightarrow> string \<Rightarrow> string option \<Rightarrow> 'u streams \<Rightarrow> 64 word \<times> 'u streams" where
  "ufile_open_read u path encoding s = ufile_open u path encoding Mode_r s"

definition ufile_open_write ::
  "'u icu \<Rightarrow> string \<Rightarrow> bool \<Rightarrow> string option \<Rightarrow> 'u streams \<Rightarrow> 64 word \<times> 'u streams" where
  "ufile_open_write u path appending encoding s =
     ufile_open u path encoding (if appending then Mode_a else Mode_w) s"

text \<open>\<open>None\<close> inside is the NULL string: nothing was read.\<close>

definition ufile_read :: "'u icu \<Rightarrow> 64 word \<Rightarrow> 'u streams \<Rightarrow> (string option \<times> 'u streams) option" where
  "ufile_read u d s =
     (case u_file_read u d 1024 (st_icu s) of
        None \<Rightarrow> None
      | Some (buffer, i) \<Rightarrow>
          (let i' = (if u_feof u d i then u_clearerr u d i else i) in
           Some (if 0 < length buffer then Some buffer else None, s\<lparr>st_icu := i'\<rparr>)))"

definition ufile_write :: "'u icu \<Rightarrow> 64 word \<Rightarrow> string \<Rightarrow> 'u streams \<Rightarrow> 'u streams option" where
  "ufile_write u d t s = map_option (\<lambda>i. s\<lparr>st_icu := i\<rparr>) (u_file_write u d t (st_icu s))"

definition ufile_flush :: "'u icu \<Rightarrow> 64 word \<Rightarrow> 'u streams \<Rightarrow> 'u streams option" where
  "ufile_flush u d s = map_option (\<lambda>i. s\<lparr>st_icu := i\<rparr>) (u_fflush u d (st_icu s))"

definition ufile_close :: "'u icu \<Rightarrow> 64 word \<Rightarrow> 'u streams \<Rightarrow> 'u streams option" where
  "ufile_close u d s = map_option (\<lambda>i. s\<lparr>st_icu := i\<rparr>) (u_fclose u d (st_icu s))"

definition file_open_read :: "string \<Rightarrow> 'u streams \<Rightarrow> 64 word \<times> 'u streams" where
  "file_open_read path s = fopen path Mode_r s"

definition file_open_write :: "string \<Rightarrow> bool \<Rightarrow> 'u streams \<Rightarrow> 64 word \<times> 'u streams" where
  "file_open_write path appending s = fopen path (if appending then Mode_a else Mode_w) s"

definition file_read :: "64 word \<Rightarrow> nat \<Rightarrow> 'u streams \<Rightarrow> (string \<times> 'u streams) option" where
  "file_read d buf_size s = fread d buf_size s"

definition file_write :: "64 word \<Rightarrow> string \<Rightarrow> 'u streams \<Rightarrow> 'u streams option" where
  "file_write d buf s = fwrite d buf s"

text \<open>What is written is in the file at once, so that flushing has nothing left to do.\<close>

definition file_flush :: "64 word \<Rightarrow> 'u streams \<Rightarrow> 'u streams option" where
  "file_flush d s = (if st_files s d = None \<and> d \<noteq> 0 then None else Some s)"

definition file_close :: "64 word \<Rightarrow> 'u streams \<Rightarrow> 'u streams option" where
  "file_close d s = fclose d s"

section \<open>Readers and writers\<close>

text \<open>The descriptor an argument spells.\<close>

definition arg_descriptor :: "js \<Rightarrow> 64 word" where
  "arg_descriptor v = descriptor_str_to_int (the (value_to_c_string v))"

definition descriptor_js :: "64 word \<Rightarrow> js" where
  "descriptor_js d = JStr (descriptor_int_to_str d)"

text \<open>A function that takes a descriptor alone and returns null, like those that flush and close.\<close>

definition on_descriptor ::
  "(64 word \<Rightarrow> 'u streams \<Rightarrow> 'u streams option) \<Rightarrow> js list \<Rightarrow> 'u streams \<Rightarrow> (js \<times> 'u streams) option" where
  "on_descriptor f args s =
     (case args of
        [v] \<Rightarrow> if is_str v then map_option (Pair JNull) (f (arg_descriptor v) s) else Some (JNull, s)
      | _ \<Rightarrow> Some (JNull, s))"

definition function_file_reader_open :: "'u icu \<Rightarrow> js list \<Rightarrow> 'u streams \<Rightarrow> js \<times> 'u streams" where
  "function_file_reader_open u args s =
     (case args of
        [a, b] \<Rightarrow>
          if is_str a
          then let (d, s') = ufile_open_read u (the (value_to_c_string a)) (value_to_c_string b) s in
            (descriptor_js d, s')
          else (JNull, s)
      | _ \<Rightarrow> (JNull, s))"

definition function_file_reader_read :: "'u icu \<Rightarrow> js list \<Rightarrow> 'u streams \<Rightarrow> (js \<times> 'u streams) option" where
  "function_file_reader_read u args s =
     (case args of
        [a] \<Rightarrow>
          if is_str a
          then (case ufile_read u (arg_descriptor a) s of
              None \<Rightarrow> None
            | Some (r, s') \<Rightarrow> Some (JArr [case r of None \<Rightarrow> JNull | Some t \<Rightarrow> JStr t, JNull], s'))
          else Some (JNull, s)
      | _ \<Rightarrow> Some (JNull, s))"

definition function_file_reader_close :: "'u icu \<Rightarrow> js list \<Rightarrow> 'u streams \<Rightarrow> (js \<times> 'u streams) option" where
  "function_file_reader_close u = on_descriptor (ufile_close u)"

definition function_file_writer_open :: "'u icu \<Rightarrow> js list \<Rightarrow> 'u streams \<Rightarrow> js \<times> 'u streams" where
  "function_file_writer_open u args s =
     (case args of
        [a, b, c] \<Rightarrow>
          if is_str a \<and> is_bool b
          then let (d, s') = ufile_open_write u (the (value_to_c_string a)) (to_bool b) (value_to_c_string c) s in
            (descriptor_js d, s')
          else (JNull, s)
      | _ \<Rightarrow> (JNull, s))"

fun js_text :: "js \<Rightarrow> string" where
  "js_text (JStr t) = t"
| "js_text _ = []"

definition function_file_writer_write :: "'u icu \<Rightarrow> js list \<Rightarrow> 'u streams \<Rightarrow> (js \<times> 'u streams) option" where
  "function_file_writer_write u args s =
     (case args of
        [a, b] \<Rightarrow>
          if is_str a \<and> is_str b
          then map_option (Pair JNull) (ufile_write u (arg_descriptor a) (js_text b) s)
          else Some (JNull, s)
      | _ \<Rightarrow> Some (JNull, s))"

definition function_file_writer_flush :: "'u icu \<Rightarrow> js list \<Rightarrow> 'u streams \<Rightarrow> (js \<times> 'u streams) option" where
  "function_file_writer_flush u = on_descriptor (ufile_flush u)"

definition function_file_writer_close :: "'u icu \<Rightarrow> js list \<Rightarrow> 'u streams \<Rightarrow> (js \<times> 'u streams) option" where
  "function_file_writer_close u = on_descriptor (ufile_close u)"

section \<open>Byte streams\<close>

definition function_file_input_stream_open :: "js list \<Rightarrow> 'u streams \<Rightarrow> js \<times> 'u streams" where
  "function_file_input_stream_open args s =
     (case args of
        [a] \<Rightarrow>
          if is_str a
          then let (d, s') = file_open_read (the (value_to_c_string a)) s in (descriptor_js d, s')
          else (JNull, s)
      | _ \<Rightarrow> (JNull, s))"

definition function_file_input_stream_read :: "js list \<Rightarrow> 'u streams \<Rightarrow> (js \<times> 'u streams) option" where
  "function_file_input_stream_read args s =
     (case args of
        [a] \<Rightarrow>
          if is_str a
          then (case file_read (arg_descriptor a) 4096 s of
              None \<Rightarrow> None
            | Some (buf, s') \<Rightarrow>
                Some (if length buf \<noteq> 0 then JArr (map (\<lambda>c. JNum (of_char c)) buf) else JNull, s'))
          else Some (JNull, s)
      | _ \<Rightarrow> Some (JNull, s))"

definition function_file_input_stream_close :: "js list \<Rightarrow> 'u streams \<Rightarrow> (js \<times> 'u streams) option" where
  "function_file_input_stream_close = on_descriptor file_close"

definition function_file_output_stream_open :: "js list \<Rightarrow> 'u streams \<Rightarrow> js \<times> 'u streams" where
  "function_file_output_stream_open args s =
     (case args of
        [a, b] \<Rightarrow>
          if is_str a \<and> is_bool b
          then let (d, s') = file_open_write (the (value_to_c_string a)) (to_bool b) s in (descriptor_js d, s')
          else (JNull, s)
      | _ \<Rightarrow> (JNull, s))"

text \<open>One byte of the array: left uninitialised, with a message, if it is not one.\<close>

definition out_byte :: "js \<Rightarrow> char option \<times> string list" where
  "out_byte v =
     (if is_num v
      then let n = to_number v in
        if 0 \<le> n \<and> n \<le> 255 then (Some (char_of (nat n)), [])
        else (None, [''Output stream value out of range ''])
      else (None, [''Output stream value not a number'']))"

definition function_file_output_stream_write :: "js list \<Rightarrow> 'u streams \<Rightarrow> (js \<times> 'u streams) option" where
  "function_file_output_stream_write args s =
     (case args of
        [a, b] \<Rightarrow>
          if is_str a \<and> is_obj b
          then let count = unat (word_of_int (array_get_count b) :: 32 word);
                 bs = map (\<lambda>i. out_byte (array_get_value_at_index b i)) [0..<count];
                 s' = s\<lparr>st_said := st_said s @ concat (map snd bs)\<rparr> in
            if None \<in> set (map fst bs) then None
            else map_option (Pair JNull) (file_write (arg_descriptor a) (map (the \<circ> fst) bs) s')
          else Some (JNull, s)
      | _ \<Rightarrow> Some (JNull, s))"

definition function_file_output_stream_flush :: "js list \<Rightarrow> 'u streams \<Rightarrow> (js \<times> 'u streams) option" where
  "function_file_output_stream_flush = on_descriptor file_flush"

definition function_file_output_stream_close :: "js list \<Rightarrow> 'u streams \<Rightarrow> (js \<times> 'u streams) option" where
  "function_file_output_stream_close = on_descriptor file_close"

end
