(* ===== verification/Streams_Props.thy ===== *)
theory Streams_Props
  imports Streams Io_Props
begin

text \<open>
  Descriptors and streams: the digits of an address below \<open>2 ^ 63\<close> give it back, and bytes
  written to a file through an output stream come back through an input stream.
\<close>

lemma dropWhile_show_nat: "dropWhile isspace (show_nat n) = show_nat n"
proof (cases "show_nat n")
  case (Cons c cs)
  then have "48 \<le> (of_char c :: nat)" using show_nat_digits [of c n] by simp
  then have "\<not> isspace c" by (auto simp: isspace_def)
  with Cons show ?thesis by simp
qed simp

lemma hd_show_nat: "hd (show_nat n) \<noteq> CHR ''-''" "hd (show_nat n) \<noteq> CHR ''+''"
proof -
  have "hd (show_nat n) \<in> set (show_nat n)" by simp
  then have "48 \<le> (of_char (hd (show_nat n)) :: nat)" by (rule show_nat_digits [THEN conjunct1])
  then show "hd (show_nat n) \<noteq> CHR ''-''" "hd (show_nat n) \<noteq> CHR ''+''" by auto
qed

lemma atoll_show_nat: "atoll (show_nat n) = min (2 ^ 63 - 1) (int n)"
  using read_show_nat [of 0 n] hd_show_nat [of n]
  by (simp add: atoll_def dropWhile_show_nat Let_def)

lemma descriptor_roundtrip:
  assumes "unat d < 2 ^ 63"
  shows "descriptor_str_to_int (descriptor_int_to_str d) = d"
proof -
  have "int (unat d) < int (2 ^ 63)" using assms by (simp only: of_nat_less_iff)
  then have "int (unat d) \<le> 2 ^ 63 - 1" unfolding of_nat_power of_nat_numeral by linarith
  then have "atoll (show_nat (unat d)) = int (unat d)"
    unfolding atoll_show_nat by (rule min_absorb2)
  then show ?thesis by (simp add: descriptor_str_to_int_def descriptor_int_to_str_def)
qed

text \<open>The buffer of 21 bytes holds every descriptor.\<close>

lemma descriptor_length: "length (descriptor_int_to_str d) < 21"
proof -
  have "unat d < 10 ^ 20" using unsigned_less [of d, where ?'a = nat] by simp
  from length_show_nat [OF this] show ?thesis by (simp add: descriptor_int_to_str_def)
qed

lemma descriptor_no_nul: "NUL \<notin> set (descriptor_int_to_str d)"
  using show_nat_digits [of NUL "unat d"] by (auto simp: descriptor_int_to_str_def)

lemma arg_descriptor_js [simp]: "unat d < 2 ^ 63 \<Longrightarrow> arg_descriptor (descriptor_js d) = d"
  by (simp add: arg_descriptor_def descriptor_js_def c_string_no_nul descriptor_no_nul descriptor_roundtrip)

lemma is_str_descriptor [simp]: "is_str (descriptor_js d)"
  by (simp add: descriptor_js_def)

lemma array_get_bytes:
  "length bs < 2 ^ 31 \<Longrightarrow>
   map (\<lambda>i. out_byte (array_get_value_at_index (JArr (map JNum bs)) i))
     [0..<unat (word_of_int (array_get_count (JArr (map JNum bs))) :: 32 word)] = map (out_byte \<circ> JNum) bs"
  by (intro nth_equalityI)
    (simp_all add: c_int_id unat_of_nat take_bit_nat_eq_self array_get_value_at_index_def)

lemma byte_char: "0 \<le> n \<Longrightarrow> n \<le> 255 \<Longrightarrow> of_char (char_of (nat n)) = (n :: int)"
proof -
  assume "0 \<le> n" "n \<le> 255"
  then have "of_char (char_of (nat n) :: char) = nat n" by (simp add: of_char_of)
  with \<open>0 \<le> n\<close> show ?thesis by (metis int_nat_eq of_nat_of_char)
qed

definition byte_chars :: "int list \<Rightarrow> string" where
  "byte_chars bs = map (\<lambda>n. char_of (nat n)) bs"

lemma out_bytes:
  assumes "\<forall>n \<in> set bs. 0 \<le> n \<and> n \<le> 255"
  shows "None \<notin> set (map fst (map (out_byte \<circ> JNum) bs))"
    "map (the \<circ> fst) (map (out_byte \<circ> JNum) bs) = byte_chars bs"
    "concat (map snd (map (out_byte \<circ> JNum) bs)) = []"
  using assms by (auto simp: out_byte_def Let_def byte_chars_def)

lemma stream_write:
  assumes "\<forall>n \<in> set bs. 0 \<le> n \<and> n \<le> 255" "length bs < 2 ^ 31" "unat d < 2 ^ 63"
  shows "function_file_output_stream_write [descriptor_js d, JArr (map JNum bs)] s =
    map_option (Pair JNull) (fwrite d (byte_chars bs) s)"
proof -
  have "s\<lparr>st_said := st_said s @ []\<rparr> = s" by (cases s) simp
  with assms(3) out_bytes [OF assms(1)] show ?thesis
    unfolding function_file_output_stream_write_def
    by (simp only: list.case array_get_bytes [OF assms(2)] Let_def is_str_descriptor is_obj.simps simp_thms
      if_True if_False arg_descriptor_js file_write_def)
qed


lemma fopen_write:
  assumes "fst (sys_create False path (st_fs s)) = 0" "st_fresh s = p # ps"
  shows "fopen path Mode_w s = (p, s\<lparr>st_fs := set_file path [] (st_fs s), st_fresh := ps,
    st_files := (st_files s)(p \<mapsto> \<lparr>s_path = resolve (st_fs s) path, s_pos = 0, s_mode = Mode_w\<rparr>)\<rparr>)"
proof -
  obtain fs1 where fs1: "sys_create False path (st_fs s) = (0, fs1)" using assms(1) by (metis prod.collapse)
  with sys_create_ok [OF fs1] assms(2) show ?thesis by (simp add: fopen_def Let_def)
qed

lemma put_at_end: "put_at (length c) xs c = c @ xs"
  by (simp add: put_at_def)

lemma byte_chars_js:
  "\<forall>n \<in> set bs. 0 \<le> n \<and> n \<le> 255 \<Longrightarrow> map (\<lambda>c. JNum (of_char c)) (byte_chars bs) = map JNum bs"
  by (simp add: byte_chars_def byte_char)

lemma stream_read:
  assumes "unat d < 2 ^ 63" "st_files s d = Some f"
  shows "function_file_input_stream_read [descriptor_js d] s =
    (let got = take 4096 (file_rest f s) in
     Some (if got \<noteq> [] then JArr (map (\<lambda>c. JNum (of_char c)) got) else JNull,
       s\<lparr>st_files := (st_files s)(d \<mapsto> f\<lparr>s_pos := s_pos f + length got\<rparr>)\<rparr>))"
  using assms by (simp add: function_file_input_stream_read_def file_read_def fread_def Let_def)

text \<open>Several arrays written one after the other, and reading until null comes back.\<close>

fun write_arrays :: "js \<Rightarrow> int list list \<Rightarrow> 'u streams \<Rightarrow> 'u streams option" where
  "write_arrays v [] s = Some s"
| "write_arrays v (bs # bss) s =
     Option.bind (function_file_output_stream_write [v, JArr (map JNum bs)] s) (\<lambda>(_, s'). write_arrays v bss s')"

fun read_arrays :: "nat \<Rightarrow> js \<Rightarrow> 'u streams \<Rightarrow> (js list list \<times> 'u streams) option" where
  "read_arrays 0 v s = None"
| "read_arrays (Suc n) v s =
     (case function_file_input_stream_read [v] s of
        Some (JArr xs, s') \<Rightarrow> map_option (\<lambda>(xss, s2). (xs # xss, s2)) (read_arrays n v s')
      | Some (_, s') \<Rightarrow> Some ([], s')
      | None \<Rightarrow> None)"

definition writing :: "64 word \<Rightarrow> string list \<Rightarrow> string \<Rightarrow> 'u streams \<Rightarrow> bool" where
  "writing p key c s \<longleftrightarrow> st_files s p = Some \<lparr>s_path = key, s_pos = length c, s_mode = Mode_w\<rparr> \<and>
     nodes (st_fs s) key = Some (File c)"

lemma writing_write:
  assumes "writing p key c s" "\<forall>n \<in> set bs. 0 \<le> n \<and> n \<le> 255" "length bs < 2 ^ 31" "unat p < 2 ^ 63"
  shows "\<exists>s'. function_file_output_stream_write [descriptor_js p, JArr (map JNum bs)] s = Some (JNull, s') \<and>
    writing p key (c @ byte_chars bs) s' \<and> cwd (st_fs s') = cwd (st_fs s) \<and> st_fresh s' = st_fresh s"
  using assms(1) unfolding stream_write [OF assms(2-4)]
  by (simp add: writing_def fwrite_def put_at_end Let_def)

lemma writing_writes:
  assumes "writing p key c s" "\<forall>bs \<in> set bss. (\<forall>n \<in> set bs. 0 \<le> n \<and> n \<le> 255) \<and> length bs < 2 ^ 31" "unat p < 2 ^ 63"
  shows "\<exists>s'. write_arrays (descriptor_js p) bss s = Some s' \<and>
    writing p key (c @ byte_chars (concat bss)) s' \<and> cwd (st_fs s') = cwd (st_fs s) \<and> st_fresh s' = st_fresh s"
  using assms(1,2)
proof (induction bss arbitrary: c s)
  case (Cons bs bss)
  obtain s1 where s1: "function_file_output_stream_write [descriptor_js p, JArr (map JNum bs)] s = Some (JNull, s1)"
      "writing p key (c @ byte_chars bs) s1" "cwd (st_fs s1) = cwd (st_fs s)" "st_fresh s1 = st_fresh s"
    using writing_write [OF Cons.prems(1) _ _ assms(3), of bs] Cons.prems(2) by auto
  from Cons.IH [OF s1(2)] Cons.prems(2) s1 show ?case by (auto simp: byte_chars_def)
qed (simp add: byte_chars_def)

text \<open>Each call gives the next 4096 bytes, or what is left of them.\<close>

lemma read_arrays_rest:
  assumes "unat q < 2 ^ 63" "st_files s q = Some f" "file_rest f s = byte_chars bs" "s_mode f = Mode_r"
    "\<forall>n \<in> set bs. 0 \<le> n \<and> n \<le> 255" "length bs \<le> 4096 * n"
  shows "\<exists>xss s'. read_arrays (Suc n) (descriptor_js q) s = Some (xss, s') \<and> concat xss = map JNum bs \<and>
    list_all (\<lambda>xs. xs \<noteq> [] \<and> length xs \<le> 4096) xss"
  using assms(2-)
proof (induction n arbitrary: f bs s)
  case 0
  then have "file_rest f s = []" by (simp add: byte_chars_def)
  with stream_read [OF assms(1) 0(1)] 0 show ?case by (simp add: Let_def)
next
  case (Suc n)
  let ?got = "take 4096 bs" and ?f = "f\<lparr>s_pos := s_pos f + length (take 4096 bs)\<rparr>"
  let ?s = "s\<lparr>st_files := (st_files s)(q \<mapsto> ?f)\<rparr>"
  have got: "take 4096 (file_rest f s) = byte_chars ?got" using Suc.prems(2) by (simp add: byte_chars_def take_map)
  have js: "map (\<lambda>c. JNum (of_char c)) (byte_chars ?got) = map JNum ?got"
    by (rule byte_chars_js) (use Suc.prems(4) in \<open>auto dest: in_set_takeD\<close>)
  have len: "length (byte_chars ?got) = length ?got" "byte_chars ?got = [] \<longleftrightarrow> bs = []"
    by (simp_all add: byte_chars_def)
  have step: "function_file_input_stream_read [descriptor_js q] s =
      Some (if bs \<noteq> [] then JArr (map JNum ?got) else JNull, ?s)"
    unfolding stream_read [OF assms(1) Suc.prems(1)] got Let_def js len by simp
  show ?case
  proof (cases "bs = []")
    case True
    then show ?thesis unfolding read_arrays.simps(2) [of "Suc n"] step by simp
  next
    case False
    have "file_rest ?f ?s = drop (length ?got) (file_rest f s)"
      using Suc.prems(3) by (simp add: file_rest_def add.commute split: option.splits node.splits)
    also have "\<dots> = byte_chars (drop (length ?got) bs)"
      using Suc.prems(2) by (simp add: byte_chars_def drop_map)
    also have "drop (length ?got) bs = drop 4096 bs" by (cases "length bs \<le> 4096") simp_all
    finally have rest: "file_rest ?f ?s = byte_chars (drop 4096 bs)" .
    have "\<exists>xss s'. read_arrays (Suc n) (descriptor_js q) ?s = Some (xss, s') \<and> concat xss = map JNum (drop 4096 bs) \<and>
        list_all (\<lambda>xs. xs \<noteq> [] \<and> length xs \<le> 4096) xss"
      by (rule Suc.IH [OF _ rest]) (use Suc.prems in \<open>auto dest: in_set_dropD\<close>)
    then obtain xss s' where "read_arrays (Suc n) (descriptor_js q) ?s = Some (xss, s')"
      "concat xss = map JNum (drop 4096 bs)" "list_all (\<lambda>xs. xs \<noteq> [] \<and> length xs \<le> 4096) xss" by blast
    moreover have "map JNum ?got @ map JNum (drop 4096 bs) = map JNum bs"
      unfolding map_append [symmetric] append_take_drop_id ..
    ultimately show ?thesis unfolding read_arrays.simps(2) [of "Suc n"] step using False by simp
  qed
qed

text \<open>
  C38. Arrays of bytes written to a file one after the other come back: reading until null gives
  arrays of 1 to 4096 values which together are the bytes in their order, whatever the sizes of
  the arrays that were written. The file must be one that can be created, its name is given
  without NUL, the stream is opened anew (not for appending), and the two addresses are below
  \<open>2 ^ 63\<close>. One call more than there are full blocks of 4096, and one for the null, are enough.
\<close>

theorem stream_roundtrip:
  assumes bss: "\<forall>bs \<in> set bss. (\<forall>n \<in> set bs. 0 \<le> n \<and> n \<le> 255) \<and> length bs < 2 ^ 31"
    and path: "NUL \<notin> set path" "fst (sys_create False path (st_fs s)) = 0"
    and fresh: "st_fresh s = p # q # ps" "unat p < 2 ^ 63" "unat q < 2 ^ 63"
    and opened: "function_file_output_stream_open [JStr path, JBool False] s = (v, s1)"
  shows "\<exists>s2 s3 w s4 xss s5.
    write_arrays v bss s1 = Some s2 \<and>
    function_file_output_stream_close [v] s2 = Some (JNull, s3) \<and>
    function_file_input_stream_open [JStr path] s3 = (w, s4) \<and>
    read_arrays (length (concat bss) div 4096 + 2) w s4 = Some (xss, s5) \<and>
    concat xss = map JNum (concat bss) \<and> list_all (\<lambda>xs. xs \<noteq> [] \<and> length xs \<le> 4096) xss"
proof -
  let ?fs = "st_fs s" and ?key = "resolve (st_fs s) path" and ?xs = "byte_chars (concat bss)"
  have v: "v = descriptor_js p" and s1: "s1 = s\<lparr>st_fs := set_file path [] ?fs, st_fresh := q # ps,
      st_files := (st_files s)(p \<mapsto> \<lparr>s_path = ?key, s_pos = 0, s_mode = Mode_w\<rparr>)\<rparr>"
    using opened fopen_write [OF path(2) fresh(1)] path(1)
    by (simp_all add: function_file_output_stream_open_def file_open_write_def c_string_no_nul)
  have "writing p ?key [] s1" by (simp add: writing_def s1)
  then obtain s2 where s2: "write_arrays v bss s1 = Some s2" "writing p ?key ?xs s2"
      "cwd (st_fs s2) = cwd (st_fs s1)" "st_fresh s2 = st_fresh s1"
    using writing_writes [OF _ bss fresh(2)] v by fastforce
  define s3 where "s3 = s2\<lparr>st_files := (st_files s2)(p := None)\<rparr>"
  have close: "function_file_output_stream_close [v] s2 = Some (JNull, s3)"
    using fresh(2) s2(2)
    by (simp add: function_file_output_stream_close_def on_descriptor_def v file_close_def fclose_def
      s3_def writing_def)
  have "resolve (st_fs s3) path = resolve (st_fs s1) path" using s2(3) by (simp add: s3_def resolve_def)
  then have key: "resolve (st_fs s3) path = ?key" by (simp add: s1)
  have held: "nodes (st_fs s3) ?key = Some (File ?xs)" using s2(2) by (simp add: s3_def writing_def)
  have ne: "path \<noteq> []" using path(2) by (auto simp: sys_create_def Let_def)
  define f where "f = \<lparr>s_path = ?key, s_pos = 0, s_mode = Mode_r\<rparr>"
  define s4 where "s4 = s3\<lparr>st_fs := st_fs s3, st_fresh := ps, st_files := (st_files s3)(q \<mapsto> f)\<rparr>"
  have "sys_open_read path (st_fs s3) = Inr (File ?xs)" using ne held key by (simp add: sys_open_file)
  moreover have "st_fresh s3 = q # ps" using s2(4) by (simp add: s3_def s1)
  ultimately have "function_file_input_stream_open [JStr path] s3 = (descriptor_js q, s4)"
    using path(1) key
    by (simp add: function_file_input_stream_open_def file_open_read_def fopen_def c_string_no_nul Let_def
      s4_def f_def)
  moreover have "file_rest f s4 = ?xs" using held by (simp add: file_rest_def f_def s4_def)
  then have "\<exists>xss s5. read_arrays (Suc (Suc (length (concat bss) div 4096))) (descriptor_js q) s4 = Some (xss, s5) \<and>
      concat xss = map JNum (concat bss) \<and> list_all (\<lambda>xs. xs \<noteq> [] \<and> length xs \<le> 4096) xss"
    by (intro read_arrays_rest [OF fresh(3), of s4 f]) (use bss in \<open>auto simp: s4_def f_def\<close>)
  ultimately show ?thesis using s2(1) close unfolding add_2_eq_Suc' by blast
qed

text \<open>A value that is no byte leaves its place in the buffer uninitialised.\<close>

lemma stream_write_undefined:
  assumes "is_num v" "to_number v < 0 \<or> 255 < to_number v"
  shows "function_file_output_stream_write [descriptor_js d, JArr [v]] s = None"
  using assms
  by (auto simp: function_file_output_stream_write_def array_get_value_at_index_def c_int_id out_byte_def Let_def)

definition sample_streams :: "unit streams" where
  "sample_streams = \<lparr>st_fs = sample_fs, st_files = (\<lambda>_. None), st_fresh = [16, 32], st_icu = (), st_said = []\<rparr>"

lemma stream_roundtrip_witness:
  "\<exists>v s1 s2 s3 w s4 xss s5.
    function_file_output_stream_open [JStr ''b'', JBool False] sample_streams = (v, s1) \<and>
    write_arrays v [[0, 65], [], replicate 5000 7] s1 = Some s2 \<and>
    function_file_output_stream_close [v] s2 = Some (JNull, s3) \<and>
    function_file_input_stream_open [JStr ''b''] s3 = (w, s4) \<and>
    read_arrays 3 w s4 = Some (xss, s5) \<and> concat xss = map JNum ([0, 65] @ replicate 5000 7)"
proof -
  obtain v s1 where o: "function_file_output_stream_open [JStr ''b'', JBool False] sample_streams = (v, s1)"
    by (cases "function_file_output_stream_open [JStr ''b'', JBool False] sample_streams")
  have "sys_create False ''b'' sample_fs = (0, set_file ''b'' [] sample_fs)"
    by (rule sys_create_new) (simp_all add: sample_paths, simp_all add: sample_fs_def)
  then have "fst (sys_create False ''b'' (st_fs sample_streams)) = 0" by (simp add: sample_streams_def)
  moreover define bss where "bss = [[0, 65], [], replicate 5000 (7 :: int)]"
  moreover have "\<forall>bs \<in> set bss. (\<forall>n \<in> set bs. 0 \<le> n \<and> n \<le> 255) \<and> length bs < 2 ^ 31" by (simp add: bss_def)
  moreover have "length (concat bss) div 4096 + 2 = 3" by (simp add: bss_def)
  moreover have "concat bss = [0, 65] @ replicate 5000 7" by (simp add: bss_def)
  ultimately show ?thesis
    using stream_roundtrip [of bss "''b''" sample_streams 16 32 "[]" v s1] o
    by (auto simp only: sample_streams_def streams.simps) auto
qed

end
