(* ===== verification/Fs_Functions.thy ===== *)
theory Fs_Functions
  imports Io Js Str Timers
begin

text \<open>
  The functions of \<open>functions.c\<close> on the file system, the environment and the terminal. What the
  system says where the file system of \<open>Io\<close> does not know is an argument: the order in which a
  directory lists its entries, the letters \<open>mkstemps\<close> makes up, the fields of \<open>stat\<close>, the
  environment. An exception is the message of its error; \<open>None\<close> is the use of a NULL pointer.
\<close>

section \<open>Directories and files\<close>

text \<open>\<open>strerror\<close> is an argument of the functions that raise.\<close>

definition make_error_with_errno :: "(int \<Rightarrow> string) \<Rightarrow> int \<Rightarrow> string" where
  "make_error_with_errno strerror errno = strerror errno"

definition function_mkdirs :: "js list \<Rightarrow> filesys \<Rightarrow> (js \<times> filesys) option" where
  "function_mkdirs args fs =
     (case args of
        [v] \<Rightarrow>
          if is_str v
          then (case mkdir_parents (the (value_to_c_string v)) fs of
              None \<Rightarrow> None
            | Some (rv, e, fs') \<Rightarrow> Some (JBool (rv \<noteq> -1), fs'))
          else Some (JBool True, fs)
      | _ \<Rightarrow> Some (JBool True, fs))"

text \<open>The entries a directory lists, \<open>.\<close> and \<open>..\<close> among them; \<open>remove\<close> takes an empty one away.\<close>

type_synonym listing = "filesys \<Rightarrow> string list \<Rightarrow> string list"

definition dot :: "string \<Rightarrow> bool" where
  "dot n \<longleftrightarrow> n = ''.'' \<or> n = ''..''"

definition sys_remove :: "listing \<Rightarrow> string \<Rightarrow> filesys \<Rightarrow> filesys" where
  "sys_remove ls path fs =
     (let ps = resolve fs path in
      case nodes fs ps of
        Some Dir \<Rightarrow> if path \<noteq> [] \<and> list_all dot (ls fs ps) then fs\<lparr>nodes := (nodes fs)(ps := None)\<rparr> else fs
      | _ \<Rightarrow> snd (sys_unlink path fs))"

definition function_delete_file :: "listing \<Rightarrow> js list \<Rightarrow> filesys \<Rightarrow> js \<times> filesys" where
  "function_delete_file ls args fs =
     (case args of
        [v] \<Rightarrow> if is_str v then (JNull, sys_remove ls (the (value_to_c_string v)) fs) else (JNull, fs)
      | _ \<Rightarrow> (JNull, fs))"

definition function_copy_file ::
  "io_env \<Rightarrow> (int \<Rightarrow> string) \<Rightarrow> js list \<Rightarrow> filesys \<Rightarrow> js \<times> string option \<times> filesys" where
  "function_copy_file io strerror args fs =
     (case args of
        [a, b] \<Rightarrow>
          if is_str a \<and> is_str b
          then (case copy_file io (the (value_to_c_string a)) (the (value_to_c_string b)) fs of
              (rv, e, fs') \<Rightarrow>
                (JNull, if rv \<noteq> 0 then Some (make_error_with_errno strerror e) else None, fs'))
          else (JNull, None, fs)
      | _ \<Rightarrow> (JNull, None, fs))"

text \<open>The array of paths: its allocation, in which nothing is stored yet beyond \<open>count\<close>.\<close>

record path_array =
  pa_slots :: "js option list"
  pa_count :: nat

definition path_array_init :: path_array where
  "path_array_init = \<lparr>pa_slots = replicate 32 None, pa_count = 0\<rparr>"

definition path_push :: "path_array \<Rightarrow> js \<Rightarrow> path_array" where
  "path_push a v =
     (let slots = (pa_slots a)[pa_count a := Some v]; count = pa_count a + 1 in
      \<lparr>pa_slots = (if count = length slots then slots @ replicate (length slots) None else slots),
       pa_count = count\<rparr>)"

fun list_entries :: "string \<Rightarrow> string list \<Rightarrow> path_array \<Rightarrow> path_array" where
  "list_entries path [] a = a"
| "list_entries path (n # ns) a =
     (if \<not> dot n then list_entries path ns (path_push a (JStr (path @ ''/'' @ n)))
      else list_entries path ns a)"

definition function_list_files :: "listing \<Rightarrow> js list \<Rightarrow> filesys \<Rightarrow> js" where
  "function_list_files ls args fs =
     (case args of
        [v] \<Rightarrow>
          if is_str v
          then let path = the (value_to_c_string v);
                 a = (if path \<noteq> [] \<and> nodes fs (resolve fs path) = Some Dir
                      then let path' = (if last path = CHR ''/'' then butlast path else path) in
                        list_entries path' (ls fs (resolve fs path)) path_array_init
                      else path_array_init) in
            JArr (map the (take (pa_count a) (pa_slots a)))
          else JNull
      | _ \<Rightarrow> JNull)"

text \<open>
  \<open>mkstemps\<close> and \<open>mkdtemp\<close>: six \<open>X\<close> before the suffix are replaced by letters that make a new
  name; the result is the name or \<open>errno\<close>.
\<close>

definition fill_template :: "string \<Rightarrow> string \<Rightarrow> nat \<Rightarrow> string option" where
  "fill_template letters template suffix_len =
     (let n = length template - suffix_len - 6 in
      if length template < suffix_len + 6 \<or> take 6 (drop n template) \<noteq> ''XXXXXX'' then None
      else Some (take n template @ letters @ drop (n + 6) template))"

definition mkstemps :: "string \<Rightarrow> string \<Rightarrow> nat \<Rightarrow> filesys \<Rightarrow> (int + string) \<times> filesys" where
  "mkstemps letters template suffix_len fs =
     (case fill_template letters template suffix_len of
        None \<Rightarrow> (Inl EINVAL, fs)
      | Some name \<Rightarrow> (let (e, fs') = sys_create True name fs in (if e = 0 then Inr name else Inl e, fs')))"

definition mkdtemp :: "string \<Rightarrow> string \<Rightarrow> filesys \<Rightarrow> (int + string) \<times> filesys" where
  "mkdtemp letters template fs =
     (case fill_template letters template 0 of
        None \<Rightarrow> (Inl EINVAL, fs)
      | Some name \<Rightarrow> (let (e, fs') = sys_mkdir name fs in (if e = 0 then Inr name else Inl e, fs')))"

definition temp_template :: "string option \<Rightarrow> string \<Rightarrow> string \<Rightarrow> string" where
  "temp_template TMPDIR pre suff =
     (let tmpdir = (case TMPDIR of None \<Rightarrow> ''/tmp'' | Some d \<Rightarrow> d) in
      take (PATH_MAX - 1)
        (if str_has_suffix tmpdir ''/'' = 0 then tmpdir @ pre @ ''XXXXXX'' @ suff
         else tmpdir @ ''/'' @ pre @ ''XXXXXX'' @ suff))"

definition function_mktemp ::
  "string \<Rightarrow> string option \<Rightarrow> (int \<Rightarrow> string) \<Rightarrow> js list \<Rightarrow> filesys \<Rightarrow> js \<times> string option \<times> filesys" where
  "function_mktemp letters TMPDIR strerror args fs =
     (case args of
        [a, b, c] \<Rightarrow>
          if is_str a \<and> is_str b \<and> is_bool c
          then let suff = the (value_to_c_string b);
                 template = temp_template TMPDIR (the (value_to_c_string a)) suff;
                 (r, fs') = (if to_bool c then mkdtemp letters template fs
                   else mkstemps letters template (length suff) fs) in
            (case r of
               Inr name \<Rightarrow> (JStr name, None, fs')
             | Inl e \<Rightarrow> (JNull, Some (make_error_with_errno strerror e), fs'))
          else (JNull, None, fs)
      | _ \<Rightarrow> (JNull, None, fs))"

definition function_is_directory :: "js list \<Rightarrow> filesys \<Rightarrow> js" where
  "function_is_directory args fs =
     (case args of
        [v] \<Rightarrow>
          if is_str v
          then (case sys_open_read (the (value_to_c_string v)) fs of
              Inr Dir \<Rightarrow> JBool True | _ \<Rightarrow> JBool False)
          else JNull
      | _ \<Rightarrow> JNull)"

text \<open>What \<open>lstat\<close> reports, and the names of user and group.\<close>

datatype file_type = S_DIR | S_REG | S_LNK | S_SOCK | S_FIFO | S_CHR | S_BLK | S_OTHER

record stat =
  s_type :: file_type
  st_rdev :: int
  st_ino :: int
  st_perms :: int
  st_nlink :: int
  st_uid :: int
  st_gid :: int
  st_size :: int
  st_birthtime :: int
  st_mtime :: int

fun type_name :: "file_type \<Rightarrow> string" where
  "type_name S_DIR = ''directory''"
| "type_name S_REG = ''file''"
| "type_name S_LNK = ''symbolic-link''"
| "type_name S_SOCK = ''socket''"
| "type_name S_FIFO = ''fifo''"
| "type_name S_CHR = ''character-special''"
| "type_name S_BLK = ''block-special''"
| "type_name S_OTHER = ''unknown''"

definition stat_object :: "(int \<Rightarrow> string option) \<Rightarrow> (int \<Rightarrow> string option) \<Rightarrow> stat \<Rightarrow> js" where
  "stat_object getpwuid getgrgid st =
     (let o1 = put ''type'' (JStr (type_name (s_type st))) [];
          o2 = (if st_rdev st \<noteq> 0 then put ''device-id'' (JNum (st_rdev st)) o1 else o1);
          o3 = (if st_ino st \<noteq> 0 then put ''file-number'' (JNum (st_ino st)) o2 else o2);
          o4 = put ''permissions'' (JNum (st_perms st)) o3;
          o5 = put ''reference-count'' (JNum (st_nlink st)) o4;
          o6 = put ''uid'' (JNum (st_uid st)) o5;
          o7 = (case getpwuid (st_uid st) of Some n \<Rightarrow> put ''uname'' (JStr n) o6 | None \<Rightarrow> o6);
          o8 = put ''gid'' (JNum (st_gid st)) o7;
          o9 = (case getgrgid (st_gid st) of Some n \<Rightarrow> put ''gname'' (JStr n) o8 | None \<Rightarrow> o8);
          o10 = put ''file-size'' (JNum (st_size st)) o9;
          o11 = put ''created'' (JNum (1000 * st_birthtime st)) o10 in
      JObj (put ''modified'' (JNum (1000 * st_mtime st)) o11))"

definition function_fstat ::
  "(string \<Rightarrow> stat option) \<Rightarrow> (int \<Rightarrow> string option) \<Rightarrow> (int \<Rightarrow> string option) \<Rightarrow> js list \<Rightarrow> js" where
  "function_fstat lstat getpwuid getgrgid args =
     (case args of
        [v] \<Rightarrow>
          if is_str v
          then (case lstat (the (value_to_c_string v)) of
              None \<Rightarrow> JNull | Some st \<Rightarrow> stat_object getpwuid getgrgid st)
          else JNull
      | _ \<Rightarrow> JNull)"

section \<open>The environment and the process\<close>

text \<open>An entry without \<open>=\<close> leaves \<open>strsep\<close> nothing for the value.\<close>

definition env_split :: "string \<Rightarrow> string \<times> js" where
  "env_split entry =
     (takeWhile (\<lambda>c. c \<noteq> CHR ''='') entry,
      if CHR ''='' \<in> set entry then JStr (tl (dropWhile (\<lambda>c. c \<noteq> CHR ''='') entry)) else JNullString)"

fun env_object :: "string list \<Rightarrow> (string \<times> js) list \<Rightarrow> (string \<times> js) list" where
  "env_object [] ps = ps"
| "env_object (e # es) ps =
     (let (n, v) = env_split e in
      env_object es (if map_of ps n = None then put n v ps else ps))"

fun getenv :: "string list \<Rightarrow> string \<Rightarrow> string option" where
  "getenv [] name = None"
| "getenv (e # es) name =
     (case env_split e of
        (n, JStr v) \<Rightarrow> if n = name then Some v else getenv es name
      | _ \<Rightarrow> getenv es name)"

definition function_getenv :: "string list \<Rightarrow> (int \<Rightarrow> string) \<Rightarrow> js list \<Rightarrow> (js \<times> string option) option" where
  "function_getenv environ strerror args =
     (case args of
        [] \<Rightarrow> Some (JObj (env_object environ []), None)
      | [arg] \<Rightarrow>
          (case value_to_c_string arg of
             None \<Rightarrow> None
           | Some name \<Rightarrow>
               (case getenv environ name of
                  None \<Rightarrow> Some (JNull, None)
                | Some v \<Rightarrow> Some (if length v = 0 then JNull else JStr v, None)))
      | _ \<Rightarrow> Some (JNull, Some (strerror 7)))"

text \<open>\<open>isatty\<close> gives its answer and \<open>errno\<close>, 9 for a descriptor that is not open.\<close>

definition function_isatty :: "(int \<Rightarrow> bool \<times> int) \<Rightarrow> js list \<Rightarrow> js" where
  "function_isatty isatty args =
     (case args of
        [v] \<Rightarrow>
          if is_num v
          then let fd = c_int (to_number v) in
            if 0 \<le> fd then (let (result, errno) = isatty fd in if errno \<noteq> 9 then JBool result else JNull)
            else JNull
          else JNull
      | _ \<Rightarrow> JNull)"

definition function_read_password :: "(string \<Rightarrow> string option) \<Rightarrow> js list \<Rightarrow> js" where
  "function_read_password getpass args =
     (case args of
        [v] \<Rightarrow>
          if is_str v
          then (case getpass (the (value_to_c_string v)) of None \<Rightarrow> JNull | Some p \<Rightarrow> JStr p)
          else JNull
      | _ \<Rightarrow> JNull)"

text \<open>
  The time to sleep, the nanoseconds in an \<open>int\<close>, which wraps on the machines the sources are
  built for; \<open>nanosleep\<close> is given by its results, as for the timers. What is printed if it fails.
\<close>

definition wrap32 :: "int \<Rightarrow> int" where
  "wrap32 n = (n + 2 ^ 31) mod 2 ^ 32 - 2 ^ 31"

definition sleep_spec :: "int \<Rightarrow> int \<Rightarrow> int \<times> int" where
  "sleep_spec millis nanos = (millis sdiv 1000, wrap32 (1000 * 1000 * (millis smod 1000) + nanos))"

definition function_sleep :: "(int \<times> int \<Rightarrow> (int \<times> int) list) \<Rightarrow> js list \<Rightarrow> js \<times> string list" where
  "function_sleep ns args =
     (case args of
        [a, b] \<Rightarrow>
          if is_num a \<and> is_num b
          then let t = sleep_spec (c_int (to_number a)) (c_int (to_number b)) in
            if fst t \<noteq> 0 \<or> snd t \<noteq> 0
            then (JNull, case sleep_loop (ns t) of Some err \<Rightarrow> if err \<noteq> 0 then [''sleep''] else [] | None \<Rightarrow> [])
            else (JNull, [])
          else (JNull, [])
      | _ \<Rightarrow> (JNull, []))"

text \<open>Ending the process: the exit value, if it does.\<close>

definition function_exit_with_value :: "js list \<Rightarrow> int option" where
  "function_exit_with_value args =
     (case args of [v] \<Rightarrow> if is_num v then Some (c_int (to_number v)) else None | _ \<Rightarrow> None)"

section \<open>The terminal\<close>

text \<open>\<open>ioctl\<close> gives rows and columns, or fails.\<close>

definition function_get_term_size :: "bool \<Rightarrow> (int \<times> int) option \<Rightarrow> js" where
  "function_get_term_size return_termsize w =
     (if return_termsize
      then JArr [JNum (case w of None \<Rightarrow> 25 | Some (r, c) \<Rightarrow> r), JNum (case w of None \<Rightarrow> 80 | Some (r, c) \<Rightarrow> c)]
      else JNull)"


section \<open>Listing a directory\<close>

definition path_content :: "path_array \<Rightarrow> js list" where
  "path_content a = map the (take (pa_count a) (pa_slots a))"

definition path_ok :: "path_array \<Rightarrow> bool" where
  "path_ok a \<longleftrightarrow> pa_count a < length (pa_slots a)"

interpretation path_arrays: growable path_content path_ok path_push
proof unfold_locales
  fix a :: path_array and v :: js
  assume "path_ok a"
  then show "path_content (path_push a v) = path_content a @ [v]" "path_ok (path_push a v)"
    by (auto simp: path_content_def path_push_def path_ok_def Let_def take_Suc_conv_app_nth nth_append)
qed

lemma list_entries_foldl:
  "list_entries path ns a = foldl path_push a (map (\<lambda>n. JStr (path @ ''/'' @ n)) (filter (\<lambda>n. \<not> dot n) ns))"
  by (induction path ns a rule: list_entries.induct) auto

text \<open>All entries but \<open>.\<close> and \<open>..\<close> are returned in their order, each behind the path; the array never overflows.\<close>

lemma list_files_all:
  assumes "path \<noteq> []" "NUL \<notin> set path" "nodes fs (resolve fs path) = Some Dir"
  shows "function_list_files ls [JStr path] fs =
    JArr (map (\<lambda>n. JStr ((if last path = CHR ''/'' then butlast path else path) @ ''/'' @ n))
      (filter (\<lambda>n. \<not> dot n) (ls fs (resolve fs path))))"
proof -
  have ok: "path_ok path_array_init" "path_content path_array_init = []"
    by (simp_all add: path_ok_def path_content_def path_array_init_def)
  show ?thesis
    using assms path_arrays.content_foldl [OF ok(1)] ok(2)
    by (simp add: function_list_files_def c_string_no_nul list_entries_foldl path_content_def Let_def)
qed

text \<open>A temporary directory with a suffix: \<open>mkdtemp\<close> wants its six \<open>X\<close> at the end of the template.\<close>

lemma mktemp_directory_suffix:
  assumes "length (temp_template TMPDIR pre suff) < PATH_MAX - 1" "NUL \<notin> set pre" "NUL \<notin> set suff"
    and "suff \<noteq> []" "last suff \<noteq> CHR ''X''"
  shows "function_mktemp letters TMPDIR strerror [JStr pre, JStr suff, JBool True] fs =
    (JNull, Some (strerror EINVAL), fs)"
proof -
  let ?t = "temp_template TMPDIR pre suff"
  obtain u where u: "?t = u @ suff"
    using assms(1) by (auto simp: temp_template_def Let_def split: if_splits)
  have same_last: "last (take 6 (drop (length ?t - 6) ?t)) = last suff" if "6 \<le> length ?t"
  proof -
    have "last (drop (length ?t - 6) ?t) = last ?t" using that by (intro last_drop) simp
    moreover have "last ?t = last suff" using u assms(4) by simp
    ultimately show ?thesis using that by simp
  qed
  have "take 6 (drop (length ?t - 6) ?t) \<noteq> ''XXXXXX''" if "6 \<le> length ?t"
  proof
    assume eq: "take 6 (drop (length ?t - 6) ?t) = ''XXXXXX''"
    have "last (take 6 (drop (length ?t - 6) ?t)) = CHR ''X''" unfolding eq by simp
    with same_last [OF that] assms(5)
    show False by simp
  qed
  then have "fill_template letters ?t 0 = None"
    by (simp add: fill_template_def Let_def not_less)
  with assms show ?thesis
    by (simp add: function_mktemp_def mkdtemp_def c_string_no_nul make_error_with_errno_def Let_def)
qed

text \<open>Nanoseconds of a second and more make the time invalid, so that nothing is slept.\<close>

lemma sleep_invalid:
  assumes "nanosleep_ok ns" "0 \<le> millis" "millis < 2 ^ 31" "1000000000 \<le> nanos"
    "1000000 * (millis mod 1000) + nanos < 2 ^ 31"
  shows "function_sleep ns [JNum millis, JNum nanos] = (JNull, [''sleep''])"
proof -
  have "0 \<le> millis mod 1000" by simp
  then have ge: "1000000000 \<le> 1000000 * (millis mod 1000) + nanos" using assms(4) by linarith
  then have t: "sleep_spec millis nanos = (millis div 1000, 1000000 * (millis mod 1000) + nanos)"
    using assms(2,5) by (simp add: sleep_spec_def wrap32_def sdiv_smod)
  have "\<not> timespec_valid (sleep_spec millis nanos)"
    using ge by (simp add: timespec_valid_def t)
  then obtain rs where "ns (sleep_spec millis nanos) = (-1, EINVAL) # rs"
    using assms(1) unfolding nanosleep_ok_def by metis
  moreover have "nanos < 2 ^ 31" using assms(5) \<open>0 \<le> millis mod 1000\<close> by linarith
  then have "c_int millis = millis" "c_int nanos = nanos" using assms(2-4) by (simp_all add: c_int_id)
  moreover have "snd (sleep_spec millis nanos) \<noteq> 0" using ge by (simp add: t)
  ultimately show ?thesis by (simp add: function_sleep_def Let_def)
qed

end
