(* ===== verification/Theme.thy ===== *)
theory Theme
  imports Planck_Prelude
begin

text \<open>
  \<open>theme.c\<close>: the tables of fonts and of the prompt's font per theme, and the choice of a theme
  from the environment. The escape character is \<open>0x1B\<close>.
\<close>

definition esc :: "string \<Rightarrow> string" where
  "esc s = CHR 0x1B # s"

definition font_colors :: "(string \<times> string) list" where
  "font_colors =
     [(''no-font'', ''''),
      (''black-font'', esc ''[30m''), (''red-font'', esc ''[31m''), (''green-font'', esc ''[32m''),
      (''yellow-font'', esc ''[33m''), (''blue-font'', esc ''[34m''), (''magenta-font'', esc ''[35m''),
      (''cyan-font'', esc ''[36m''), (''white-font'', esc ''[37m''),
      (''black-bold-font'', esc ''[40m''), (''red-bold-font'', esc ''[41m''),
      (''green-bold-font'', esc ''[42m''), (''yellow-bold-font'', esc ''[43m''),
      (''blue-bold-font'', esc ''[44m''), (''magenta-bold-font'', esc ''[45m''),
      (''cyan-bold-font'', esc ''[46m''), (''white-bold-font'', esc ''[47m'')]"

definition prompt_fonts :: "(string \<times> string) list" where
  "prompt_fonts = [(''plain'', ''no-font''), (''light'', ''cyan-font''), (''dark'', ''blue-font'')]"

definition color_for_font :: "string \<Rightarrow> string option" where
  "color_for_font font = map_of font_colors font"

definition prompt_font_for_theme :: "string \<Rightarrow> string option" where
  "prompt_font_for_theme theme = map_of prompt_fonts theme"

definition default_theme_for_terminal :: "(string \<Rightarrow> string option) \<Rightarrow> string" where
  "default_theme_for_terminal getenv =
     (if getenv ''NO_COLOR'' \<noteq> None then ''plain''
      else case getenv ''COLORFGBG'' of
        None \<Rightarrow> ''light''
      | Some color_fg_bg \<Rightarrow>
          (case strtok_all CHR '';'' color_fg_bg of
             _ # bg # _ \<Rightarrow> if strcmp bg ''0'' = 0 then ''dark'' else ''light''
           | _ \<Rightarrow> ''light''))"

definition prompt_ansi_code_for_theme :: "string \<Rightarrow> string option" where
  "prompt_ansi_code_for_theme theme =
     (case prompt_font_for_theme theme of Some font \<Rightarrow> color_for_font font | None \<Rightarrow> None)"

text \<open>Whether the theme is known, and what is printed if not.\<close>

definition check_theme :: "string \<Rightarrow> bool \<times> string list" where
  "check_theme theme =
     (if prompt_font_for_theme theme \<noteq> None then (True, [])
      else (False, [''Unsupported theme: '' @ theme, ''Supported themes:''] @
        map (\<lambda>p. ''  '' @ fst p) prompt_fonts))"

text \<open>The theme chosen by default is known, and every known theme has a colour for its prompt.\<close>

lemma default_theme_ok: "fst (check_theme (default_theme_for_terminal getenv))"
  by (auto simp: default_theme_for_terminal_def check_theme_def prompt_font_for_theme_def prompt_fonts_def
    split: option.splits list.splits)

lemma theme_has_color: "fst (check_theme theme) \<Longrightarrow> prompt_ansi_code_for_theme theme \<noteq> None"
  by (auto simp: check_theme_def prompt_ansi_code_for_theme_def prompt_font_for_theme_def prompt_fonts_def
    color_for_font_def font_colors_def split: if_splits)

end
