(* ===== verification/Main_Program.thy ===== *)
theory Main_Program
  imports Archive Js Str Theme
begin

text \<open>
  \<open>main.c\<close>: the class path, the command line and what the program then does. \<open>getopt_long\<close> is a
  parameter: for the arguments up to a limit the options it returns, each with its argument and
  the place it has reached behind it (\<open>optind\<close>, and the arguments in the order it has brought
  them into), and the final place. What the program does is the list of
  its actions; evaluating a script is given by the exit value it leaves. \<open>None\<close> is the use of a
  NULL pointer or a write outside an array.
\<close>

section \<open>The class path\<close>

definition ensure_trailing_slash :: "string \<Rightarrow> string" where
  "ensure_trailing_slash s = (if str_has_suffix s ''/'' = 0 then s else str_concat s ''/'')"

definition fully_qualify :: "string option \<Rightarrow> string \<Rightarrow> string" where
  "fully_qualify dir path =
     (case dir of
        Some c \<Rightarrow> if str_has_prefix path ''/'' \<noteq> 0 then str_concat c path else path
      | None \<Rightarrow> path)"

text \<open>\<open>getcwd\<close> fails where the name does not fit.\<close>

definition get_current_working_dir :: "string option \<Rightarrow> string option" where
  "get_current_working_dir getcwd = map_option ensure_trailing_slash getcwd"

definition dots_to_slashes :: "string \<Rightarrow> string" where
  "dots_to_slashes g = map (\<lambda>c. if c = CHR ''.'' then CHR ''/'' else c) g"

text \<open>
  The path of a dependency: a missing version is printed as \<open>(null)\<close>; the artifact that stands
  for a missing one is the group, in which the dots have been replaced by then.
\<close>

definition dependency_path :: "string \<Rightarrow> string \<Rightarrow> string option" where
  "dependency_path local_repo dependency =
     (case strtok_next CHR '':'' dependency of
        None \<Rightarrow> None
      | Some (s, rest) \<Rightarrow>
          (let version = (case strtok_next CHR '':'' rest of Some (v, _) \<Rightarrow> v | None \<Rightarrow> ''(null)'') in
           case strtok_next CHR ''/'' s of
             None \<Rightarrow> None
           | Some (g, rest') \<Rightarrow>
               (let group = dots_to_slashes g;
                    artifact = (case strtok_next CHR ''/'' rest' of Some (a, _) \<Rightarrow> a | None \<Rightarrow> group);
                    path = local_repo @ ''/'' @ group @ ''/'' @ artifact @ ''/'' @ version @ ''/'' @
                      artifact @ ''-'' @ version @ ''.jar'' in
                if length path < PATH_MAX then Some path else None)))"

fun join_paths :: "string list \<Rightarrow> string" where
  "join_paths [] = []"
| "join_paths [p] = p"
| "join_paths (p # ps) = p @ '':'' @ join_paths ps"

definition calculate_dependencies_classpath :: "string \<Rightarrow> string \<Rightarrow> string option" where
  "calculate_dependencies_classpath dependencies local_repo =
     (let paths = map (dependency_path local_repo) (strtok_all CHR '','' dependencies) in
      if None \<in> set paths \<or> 1024 < length paths \<or> paths = [] then None
      else Some (join_paths (map the paths)))"

definition classpath_entry :: "string option \<Rightarrow> string \<Rightarrow> src_path" where
  "classpath_entry dir source =
     (if str_has_suffix source ''.jar'' = 0
      then \<lparr>sp_type = ''jar'', sp_path = fully_qualify dir source, sp_archive = None, sp_blacklisted = False\<rparr>
      else \<lparr>sp_type = ''src'', sp_path = fully_qualify dir (ensure_trailing_slash source),
        sp_archive = None, sp_blacklisted = False\<rparr>)"

definition init_classpath :: "string option \<Rightarrow> string \<Rightarrow> config \<Rightarrow> config" where
  "init_classpath getcwd classpath c =
     (let dir = get_current_working_dir getcwd in
      c\<lparr>src_paths := src_paths c @ map (classpath_entry dir) (strtok_all CHR '':'' classpath)\<rparr>)"

section \<open>Dumping the bundled sources\<close>

text \<open>The file is split behind the last slash or backslash, the first byte not being looked at.\<close>

definition slashy :: "char \<Rightarrow> bool" where
  "slashy c \<longleftrightarrow> c = CHR 0x5C \<or> c = CHR ''/''"

fun last_slash :: "nat \<Rightarrow> nat \<Rightarrow> string \<Rightarrow> nat" where
  "last_slash slash i [] = slash"
| "last_slash slash i (c # cs) = last_slash (if slashy c then i else slash) (i + 1) cs"

definition split_path_file :: "string \<Rightarrow> (string \<times> string) option" where
  "split_path_file pf =
     (case pf of
        [] \<Rightarrow> None
      | c # cs \<Rightarrow>
          (let s = last_slash 0 1 cs; n = (if s \<noteq> 0 then s + 1 else 0) in Some (take n pf, drop n pf)))"

datatype 'a exiting = Exits int | Goes_on 'a

fun dump_files ::
  "(string \<Rightarrow> string option) \<Rightarrow> (string \<Rightarrow> nat list) \<Rightarrow> string \<Rightarrow> string list \<Rightarrow> filesys \<Rightarrow>
   (int exiting \<times> filesys) option" where
  "dump_files bundle ks target [] fs = Some (Goes_on 0, fs)"
| "dump_files bundle ks target (path # paths) fs =
     (let full_path = take (PATH_MAX - 1) (target @ ''/'' @ path) in
      case split_path_file full_path of
        None \<Rightarrow> None
      | Some (p, f) \<Rightarrow>
          (case mkdir_parents p fs of
             None \<Rightarrow> None
           | Some (rv, e, fs1) \<Rightarrow>
               if rv < 0 then Some (Exits 1, fs1)
               else case bundle path of
                 None \<Rightarrow> None
               | Some contents \<Rightarrow>
                   dump_files bundle ks target paths (fst (write_contents (ks full_path) full_path contents fs1))))"

definition dump_sdk ::
  "(string \<Rightarrow> string option) \<Rightarrow> (string \<Rightarrow> nat list) \<Rightarrow> string \<Rightarrow> filesys \<Rightarrow> (int exiting \<times> filesys) option" where
  "dump_sdk bundle ks target fs =
     (let (e, fs1) = sys_mkdir target fs in
      if e \<noteq> 0 then Some (Exits 1, fs1)
      else case bundle ''bundled_sdk_manifest.txt'' of
        None \<Rightarrow> None
      | Some manifest \<Rightarrow> dump_files bundle ks target (strtok_all CHR 0x0A manifest) fs1)"

section \<open>Finding the script on the command line\<close>

text \<open>An option that is a cluster of letters takes an argument if its last letter does.\<close>

definition takes_argument :: "char \<Rightarrow> bool" where
  "takes_argument c \<longleftrightarrow> c \<in> set ''iemcnktSAODL'' \<or> c = CHR 0x01"

definition should_ignore_arg :: "string \<Rightarrow> bool" where
  "should_ignore_arg opt =
     (case opt of
        [] \<Rightarrow> False
      | c # cs \<Rightarrow>
          if c \<noteq> CHR ''-'' then False
          else if cs \<noteq> [] \<and> hd cs = CHR ''-'' then True
          else takes_argument (last opt))"

definition expand_medium_opts :: "string list \<Rightarrow> string list" where
  "expand_medium_opts argv = map (\<lambda>a. if strcmp a ''-co'' = 0 then ''--compile-opts'' else a) argv"

fun script_index_from :: "nat \<Rightarrow> string \<Rightarrow> string list \<Rightarrow> nat" where
  "script_index_from i previous_opt [] = i"
| "script_index_from i previous_opt (arg # args) =
     (if strcmp ''-'' arg = 0 then i
      else if (arg = [] \<or> hd arg \<noteq> CHR ''-'') \<and> \<not> should_ignore_arg previous_opt then i
      else script_index_from (i + 1) arg args)"

definition index_of_script_path_or_hyphen :: "string list \<Rightarrow> nat" where
  "index_of_script_path_or_hyphen argv =
     (case argv of [] \<Rightarrow> 0 | a0 # args \<Rightarrow> script_index_from 1 a0 args)"

section \<open>The options\<close>

record options =
  o_config :: config
  o_classpath :: "string option"
  o_dependencies :: "string option"
  o_local_repo :: "string option"
  o_main_opt :: bool
  o_fs :: filesys

definition with_config :: "(config \<Rightarrow> config) \<Rightarrow> options \<Rightarrow> options" where
  "with_config f opts = opts\<lparr>o_config := f (o_config opts)\<rparr>"

text \<open>
  The parts of \<open>sscanf\<close> that \<open>-n\<close> needs: a number, and \<open>%255[^:]:%d\<close>. A number that does not fit
  is undefined in C; as in glibc it is cut to 64 bits and its low 32 bits are stored.
\<close>

definition stored_int :: "int \<Rightarrow> int" where
  "stored_int n = signed_take_bit 31 (max (- (2 ^ 63)) (min (2 ^ 63 - 1) n))"

definition scan_int :: "string \<Rightarrow> int option" where
  "scan_int s =
     (let s1 = dropWhile isspace s;
          s2 = (if s1 \<noteq> [] \<and> hd s1 \<in> {CHR ''-'', CHR ''+''} then tl s1 else s1);
          (n, rest) = read_digits 0 s2 in
      if rest = s2 then None
      else Some (stored_int (if s1 \<noteq> [] \<and> hd s1 = CHR ''-'' then - int n else int n)))"

definition scan_host_port :: "string \<Rightarrow> (string \<times> int) option" where
  "scan_host_port s =
     (let host = take 255 (takeWhile (\<lambda>c. c \<noteq> CHR '':'') s); rest = drop (length host) s in
      if host = [] then None
      else case rest of
        c # cs \<Rightarrow> if c = CHR '':'' then map_option (Pair host) (scan_int cs) else None
      | [] \<Rightarrow> None)"

text \<open>
  Where nothing can be read the port is 0; the host is freed and its address kept, which nothing
  reads when the port is 0: \<open>None\<close> stands for it.
\<close>

definition set_socket_repl :: "string \<Rightarrow> config \<Rightarrow> config" where
  "set_socket_repl arg c =
     (case scan_host_port arg of
        Some (h, p) \<Rightarrow> c\<lparr>socket_repl_host := Some h, socket_repl_port := p\<rparr>
      | None \<Rightarrow>
          (case scan_int arg of
             Some p \<Rightarrow> c\<lparr>socket_repl_host := Some ''localhost'', socket_repl_port := p\<rparr>
           | None \<Rightarrow> c\<lparr>socket_repl_host := None, socket_repl_port := 0\<rparr>))"

definition process_compile_opts :: "string \<Rightarrow> config \<Rightarrow> config" where
  "process_compile_opts arg c = c\<lparr>compile_opts := compile_opts c @ [arg]\<rparr>"

text \<open>The options that only set something.\<close>

definition apply_option :: "char \<Rightarrow> string \<Rightarrow> options \<Rightarrow> options" where
  "apply_option opt arg opts =
     (if opt = CHR 0x01 then with_config (process_compile_opts arg) opts
      else if opt = CHR ''v'' then with_config (\<lambda>c. c\<lparr>verbose := True\<rparr>) opts
      else if opt = CHR ''q'' then with_config (\<lambda>c. c\<lparr>quiet := True\<rparr>) opts
      else if opt = CHR ''r'' then with_config (\<lambda>c. c\<lparr>repl_mode := True\<rparr>) (opts\<lparr>o_main_opt := True\<rparr>)
      else if opt = CHR ''s'' then with_config (\<lambda>c. c\<lparr>static_fns := True\<rparr>) opts
      else if opt = CHR ''f'' then with_config (\<lambda>c. c\<lparr>fn_invoke_direct := True\<rparr>) opts
      else if opt = CHR ''a'' then with_config (\<lambda>c. c\<lparr>elide_asserts := True\<rparr>) opts
      else if opt = CHR ''j'' then with_config (\<lambda>c. c\<lparr>javascript := True\<rparr>) opts
      else if opt = CHR ''e''
      then with_config (\<lambda>c. c\<lparr>scripts := scripts c @
        [\<lparr>sc_type = ''text'', sc_expression = True, sc_source = arg\<rparr>]\<rparr>) opts
      else if opt = CHR ''i''
      then with_config (\<lambda>c. c\<lparr>scripts := scripts c @
        [\<lparr>sc_type = ''path'', sc_expression = False, sc_source = arg\<rparr>]\<rparr>) opts
      else if opt = CHR ''m'' then with_config (\<lambda>c. c\<lparr>main_ns_name := Some arg\<rparr>) (opts\<lparr>o_main_opt := True\<rparr>)
      else if opt = CHR ''t'' then with_config (\<lambda>c. c\<lparr>theme := Some arg\<rparr>) opts
      else if opt = CHR ''n'' then with_config (set_socket_repl arg) opts
      else if opt = CHR ''d'' then with_config (\<lambda>c. c\<lparr>dumb_terminal := True\<rparr>) opts
      else if opt = CHR ''c'' then opts\<lparr>o_classpath := Some arg\<rparr>
      else if opt = CHR ''D'' then opts\<lparr>o_dependencies := Some arg\<rparr>
      else if opt = CHR ''L'' then opts\<lparr>o_local_repo := Some arg\<rparr>
      else if opt = CHR ''o'' then with_config (\<lambda>c. c\<lparr>out_path := Some (ensure_trailing_slash arg)\<rparr>) opts
      else opts)"

text \<open>One option: it may end the program with a value.\<close>

definition handle_option ::
  "(string \<Rightarrow> filesys \<Rightarrow> (int exiting \<times> filesys) option) \<Rightarrow> char \<Rightarrow> string \<Rightarrow> options \<Rightarrow> options exiting option" where
  "handle_option dump opt arg opts =
     (if opt \<in> {CHR ''h'', CHR ''V'', CHR ''l''} then Some (Exits 0)
      else if opt = CHR ''S''
      then (case dump arg (o_fs opts) of
          None \<Rightarrow> None | Some (Exits n, _) \<Rightarrow> Some (Exits n) | Some (Goes_on _, _) \<Rightarrow> Some (Exits 0))
      else if opt = CHR ''A''
      then if arg = ''warn'' \<or> arg = ''error''
        then Some (Goes_on (with_config (\<lambda>c. c\<lparr>checked_arrays := Some arg\<rparr>) opts)) else Some (Exits 1)
      else if opt = CHR ''O''
      then if arg \<in> {''none'', ''whitespace'', ''simple''}
        then Some (Goes_on (with_config (\<lambda>c. c\<lparr>optimizations := arg\<rparr>) opts)) else Some (Exits 1)
      else if opt = CHR ''k''
      then if cache_path (o_config opts) \<noteq> None then Some (Exits 1)
        else Some (Goes_on (with_config (\<lambda>c. c\<lparr>cache_path := Some arg\<rparr>) opts))
      else if opt = CHR ''K''
      then if cache_path (o_config opts) \<noteq> None then Some (Exits 1)
        else let (rv, fs) = mkdir_p ''.planck_cache'' (o_fs opts) in
          Some (Goes_on (with_config (\<lambda>c. c\<lparr>cache_path := Some ''.planck_cache''\<rparr>) (opts\<lparr>o_fs := fs\<rparr>)))
      else if opt = CHR ''?'' then Some (Exits 1)
      else Some (Goes_on (apply_option opt arg opts)))"

text \<open>
  The options in turn up to the first main option, each with the place \<open>getopt_long\<close> has reached
  behind it: \<open>optind\<close>, and the arguments, which it reorders.
\<close>

fun parse_options ::
  "(string \<Rightarrow> filesys \<Rightarrow> (int exiting \<times> filesys) option) \<Rightarrow> (char \<times> string \<times> 'p) list \<Rightarrow> 'p \<Rightarrow> options \<Rightarrow>
   (options \<times> 'p) exiting option" where
  "parse_options dump [] optind opts = Some (Goes_on (opts, optind))"
| "parse_options dump ((opt, arg, next) # rest) optind opts =
     (case handle_option dump opt arg opts of
        None \<Rightarrow> None
      | Some (Exits n) \<Rightarrow> Some (Exits n)
      | Some (Goes_on opts') \<Rightarrow>
          if o_main_opt opts' then Some (Goes_on (opts', next)) else parse_options dump rest optind opts')"

section \<open>What the program does\<close>

datatype action =
    Evaluate string string bool        \<comment> \<open>type, source, expression\<close>
  | Run_main_in_ns string "string list"
  | Banner | Run_repl | Run_main_cli_fn
  | Block_until_tasks_complete | Engine_shutdown

record main_env =
  m_getenv :: "string \<Rightarrow> string option"
  m_getcwd :: "string option"
  m_isatty :: bool
  m_stdin :: string
  m_getopt :: "nat \<Rightarrow> string list \<Rightarrow> (char \<times> string \<times> nat \<times> string list) list \<times> nat \<times> string list"
  m_bundle :: "string \<Rightarrow> string option"
  m_writes :: "string \<Rightarrow> nat list"
  m_jsc3 :: bool
  m_exit_after :: "action list \<Rightarrow> int"
  m_fs :: filesys

definition initial_config :: config where
  "initial_config =
     \<lparr>verbose = False, quiet = False, is_tty = False, repl_mode = False, javascript = False,
      checked_arrays = None, static_fns = False, fn_invoke_direct = False, elide_asserts = False,
      optimizations = ''none'', theme = None, dumb_terminal = False, main_ns_name = None,
      rest_args = [], out_path = None, cache_path = None, src_paths = [], scripts = [],
      socket_repl_host = None, socket_repl_port = 0, compile_opts = []\<rparr>"

text \<open>The variable that switches a part of the JIT off (as on Linux), unless it is set.\<close>

definition control_FTL_JIT :: "(string \<Rightarrow> string option) \<Rightarrow> string \<Rightarrow> string option" where
  "control_FTL_JIT getenv =
     (if getenv ''JSC_useFTLJIT'' = None then getenv(''JSC_useFTLJIT'' \<mapsto> ''false'') else getenv)"

text \<open>
  The version is what stands behind the first 29 bytes of the bundle, up to a blank; \<open>None\<close> is a
  bundle that is shorter, or a NULL pointer for a version that is missing.
\<close>

definition get_cljs_version :: "string option \<Rightarrow> string option" where
  "get_cljs_version bundle_js =
     (case bundle_js of
        None \<Rightarrow> Some ''(Unknown)''
      | Some js \<Rightarrow>
          if length js < 29 then None else map_option fst (strtok_next CHR '' '' (drop 29 js)))"

definition banner :: "string \<Rightarrow> string" where
  "banner clojurescript_version = ''ClojureScript '' @ clojurescript_version @ [CHR 0x0A]"

text \<open>The class path of options, dependencies and environment.\<close>

definition default_repo :: "main_env \<Rightarrow> string option \<Rightarrow> string option" where
  "default_repo env local_repo =
     (case local_repo of
        Some r \<Rightarrow> Some r
      | None \<Rightarrow> map_option (\<lambda>home. home @ ''/.m2/repository'') (m_getenv env ''HOME''))"

definition full_classpath :: "main_env \<Rightarrow> options \<Rightarrow> string option option" where
  "full_classpath env opts =
     (case (o_dependencies opts, default_repo env (o_local_repo opts)) of
        (Some deps, Some repo) \<Rightarrow>
          (case calculate_dependencies_classpath deps repo of
             None \<Rightarrow> None
           | Some d \<Rightarrow>
               Some (Some (case o_classpath opts of
                 Some cp \<Rightarrow> str_concat (str_concat cp '':'') d | None \<Rightarrow> d)))
      | _ \<Rightarrow> Some (o_classpath opts))"

definition set_classpath :: "main_env \<Rightarrow> string option \<Rightarrow> config \<Rightarrow> config" where
  "set_classpath env classpath c =
     (let c1 = (case classpath of Some cp \<Rightarrow> init_classpath (m_getcwd env) cp c | None \<Rightarrow> c) in
      if src_paths c1 = []
      then case m_getenv env ''PLANCK_CLASSPATH'' of
          Some cp \<Rightarrow> init_classpath (m_getcwd env) cp c1 | None \<Rightarrow> c1
      else c1)"

definition set_theme :: "main_env \<Rightarrow> config \<Rightarrow> config" where
  "set_theme env c =
     (if dumb_terminal c then c\<lparr>theme := Some ''plain''\<rparr>
      else if theme c = None then c\<lparr>theme := Some (default_theme_for_terminal (m_getenv env))\<rparr> else c)"

definition set_mode :: "string list \<Rightarrow> nat \<Rightarrow> config \<Rightarrow> config" where
  "set_mode argv optind c =
     (let c1 = c\<lparr>rest_args := drop optind argv\<rparr> in
      if scripts c1 = [] \<and> main_ns_name c1 = None \<and> rest_args c1 = [] \<and> compile_opts c1 = []
      then c1\<lparr>repl_mode := True\<rparr> else c1)"

text \<open>The init scripts, up to the first that leaves an exit value.\<close>

fun run_scripts :: "(action list \<Rightarrow> int) \<Rightarrow> script list \<Rightarrow> action list \<Rightarrow> int \<times> action list" where
  "run_scripts ex [] acts = (0, acts)"
| "run_scripts ex (s # ss) acts =
     (let acts' = acts @ [Evaluate (sc_type s) (sc_source s) (sc_expression s)] in
      if ex acts' \<noteq> 0 then (ex acts', acts') else run_scripts ex ss acts')"

text \<open>The script is taken off the arguments.\<close>

definition take_script :: "config \<Rightarrow> string \<times> config" where
  "take_script c = (hd (rest_args c), c\<lparr>rest_args := tl (rest_args c)\<rparr>)"

text \<open>
  The main action. A build against JavaScriptCore 3 (\<open>JAVASCRIPT_CORE_3\<close>, the flag \<open>m_jsc3\<close>)
  evaluates two texts before the script.
\<close>

definition main_actions :: "main_env \<Rightarrow> config \<Rightarrow> action list" where
  "main_actions env c =
     (case main_ns_name c of
        Some ns \<Rightarrow> [Run_main_in_ns ns (rest_args c)]
      | None \<Rightarrow>
          if \<not> repl_mode c \<and> rest_args c \<noteq> []
          then let path = fst (take_script c) in
            (if m_jsc3 env
             then [Evaluate ''text'' ''nil'' True, Evaluate ''text'' ''(require 'planck.repl)'' True]
             else []) @
            (if strcmp path ''-'' = 0 then [Evaluate ''text'' (c_string (m_stdin env)) False]
             else [Evaluate ''path'' path False])
          else if repl_mode c
          then (if \<not> quiet c \<and> scripts c = [] then [Banner] else []) @ [Run_repl]
          else []) @
     (if \<not> repl_mode c \<and> main_ns_name c = None then [Run_main_cli_fn] else [])"

definition run_program :: "main_env \<Rightarrow> config \<Rightarrow> int \<times> action list" where
  "run_program env c =
     (let (n, acts) = run_scripts (m_exit_after env) (scripts c) [] in
      if n \<noteq> 0 then (n, acts)
      else let acts1 = acts @ main_actions env c;
               n1 = m_exit_after env acts1;
               acts2 = acts1 @ (if n1 = 0 then [Block_until_tasks_complete] else []) @ [Engine_shutdown] in
        (m_exit_after env acts2, acts2))"

definition main :: "main_env \<Rightarrow> string list \<Rightarrow> (int \<times> action list) option" where
  "main env0 argv0 =
     (let env = env0\<lparr>m_getenv := control_FTL_JIT (m_getenv env0)\<rparr>;
          argv = expand_medium_opts argv0;
          (opt_list, place0) = m_getopt env (index_of_script_path_or_hyphen argv) argv;
          opts0 = \<lparr>o_config = initial_config, o_classpath = None, o_dependencies = None,
            o_local_repo = None, o_main_opt = False, o_fs = m_fs env\<rparr> in
      case parse_options (dump_sdk (m_bundle env) (m_writes env)) opt_list place0 opts0 of
        None \<Rightarrow> None
      | Some (Exits n) \<Rightarrow> Some (n, [])
      | Some (Goes_on (opts, optind, argv1)) \<Rightarrow>
          (case full_classpath env opts of
             None \<Rightarrow> None
           | Some classpath \<Rightarrow>
               (let c = set_mode argv1 optind (set_theme env (set_classpath env classpath (o_config opts))) in
                if \<not> fst (check_theme (the (theme c))) then Some (1, [])
                else if main_ns_name c \<noteq> None \<and> repl_mode c then Some (1, [])
                else Some (run_program env (c\<lparr>is_tty := m_isatty env\<rparr>)))))"

end
