(* ===== verification/Main_Props.thy ===== *)
theory Main_Props
  imports Main_Program
begin

text \<open>
  The main program: how far the init scripts run, that there is at most one main action, which argument
  is taken for the script, and the paths of the class path.
\<close>

section \<open>Scripts and main action\<close>

definition eval_script :: "script \<Rightarrow> action" where
  "eval_script s = Evaluate (sc_type s) (sc_source s) (sc_expression s)"

lemma run_scripts_eq:
  "(\<forall>k. 0 < k \<and> k \<le> length ss \<longrightarrow> ex (acts @ map eval_script (take k ss)) = 0) \<and>
     run_scripts ex ss acts = (0, acts @ map eval_script ss) \<or>
   (\<exists>k. 0 < k \<and> k \<le> length ss \<and> ex (acts @ map eval_script (take k ss)) \<noteq> 0 \<and>
     (\<forall>j. 0 < j \<and> j < k \<longrightarrow> ex (acts @ map eval_script (take j ss)) = 0) \<and>
     run_scripts ex ss acts = (ex (acts @ map eval_script (take k ss)), acts @ map eval_script (take k ss)))"
proof (induction ss arbitrary: acts)
  case Nil
  then show ?case by simp
next
  case (Cons s ss)
  let ?a = "acts @ [eval_script s]"
  show ?case
  proof (cases "ex ?a = 0")
    case False
    then have "run_scripts ex (s # ss) acts = (ex ?a, ?a)" by (simp add: eval_script_def Let_def)
    with False show ?thesis by (intro disjI2 exI [of _ 1]) auto
  next
    case True
    then have step: "run_scripts ex (s # ss) acts = run_scripts ex ss ?a" by (simp add: eval_script_def Let_def)
    have shift: "acts @ map eval_script (take k (s # ss)) = ?a @ map eval_script (take (k - 1) ss)" if "0 < k" for k
      using that by (cases k) auto
    from Cons.IH [of ?a] show ?thesis
    proof (elim disjE exE conjE)
      assume ok: "\<forall>k. 0 < k \<and> k \<le> length ss \<longrightarrow> ex (?a @ map eval_script (take k ss)) = 0"
        and r: "run_scripts ex ss ?a = (0, ?a @ map eval_script ss)"
      have "ex (acts @ map eval_script (take k (s # ss))) = 0" if "0 < k" "k \<le> length (s # ss)" for k
        using True ok that unfolding shift [OF that(1)] by (cases "k = 1") auto
      with step r show ?thesis by auto
    next
      fix k
      assume k: "0 < k" "k \<le> length ss" "ex (?a @ map eval_script (take k ss)) \<noteq> 0"
        and before: "\<forall>j. 0 < j \<and> j < k \<longrightarrow> ex (?a @ map eval_script (take j ss)) = 0"
        and r: "run_scripts ex ss ?a = (ex (?a @ map eval_script (take k ss)), ?a @ map eval_script (take k ss))"
      have "ex (acts @ map eval_script (take j (s # ss))) = 0" if "0 < j" "j < Suc k" for j
        using True before that unfolding shift [OF that(1)] by (cases "j = 1") auto
      with step r k show ?thesis by (intro disjI2 exI [of _ "Suc k"]) auto
    qed
  qed
qed

text \<open>At most one main option is taken, so that there is either a namespace or a forced REPL or neither.\<close>

definition main_opts_ok :: "options \<Rightarrow> bool" where
  "main_opts_ok opts \<longleftrightarrow>
     (main_ns_name (o_config opts) = None \<or> \<not> repl_mode (o_config opts)) \<and>
     (\<not> o_main_opt opts \<longrightarrow> main_ns_name (o_config opts) = None \<and> \<not> repl_mode (o_config opts))"

lemma set_socket_repl_fields [simp]:
  "main_ns_name (set_socket_repl arg c) = main_ns_name c" "repl_mode (set_socket_repl arg c) = repl_mode c"
  by (auto simp: set_socket_repl_def split: option.splits)

lemma process_compile_opts_fields [simp]:
  "main_ns_name (process_compile_opts arg c) = main_ns_name c" "repl_mode (process_compile_opts arg c) = repl_mode c"
  by (simp_all add: process_compile_opts_def)

lemma apply_option_ok:
  assumes "main_opts_ok opts" "\<not> o_main_opt opts"
  shows "main_opts_ok (apply_option opt arg opts)"
  using assms unfolding apply_option_def main_opts_ok_def with_config_def
  by (simp split del: if_split) (intro conjI impI; simp split: if_splits)

lemma handle_option_cases:
  assumes "handle_option dump opt arg opts = Some (Goes_on opts')"
  shows "opts' = apply_option opt arg opts \<or>
    main_ns_name (o_config opts') = main_ns_name (o_config opts) \<and>
    repl_mode (o_config opts') = repl_mode (o_config opts) \<and> o_main_opt opts' = o_main_opt opts"
  using assms
  by (auto simp: handle_option_def with_config_def Let_def
    split: if_splits option.splits exiting.splits prod.splits)

lemma handle_option_ok:
  assumes "main_opts_ok opts" "\<not> o_main_opt opts" "handle_option dump opt arg opts = Some (Goes_on opts')"
  shows "main_opts_ok opts'"
  using handle_option_cases [OF assms(3)]
proof
  assume "opts' = apply_option opt arg opts"
  with apply_option_ok [OF assms(1,2)] show ?thesis by simp
qed (use assms(1) in \<open>simp add: main_opts_ok_def\<close>)

lemma parse_options_ok:
  assumes "main_opts_ok opts" "\<not> o_main_opt opts" "parse_options dump xs i opts = Some (Goes_on (opts', j))"
  shows "main_opts_ok opts'"
  using assms
proof (induction xs arbitrary: i opts)
  case (Cons x xs)
  obtain opt arg nxt where x: "x = (opt, arg, nxt)" by (metis prod_cases3)
  obtain opts1 where h: "handle_option dump opt arg opts = Some (Goes_on opts1)"
    using Cons.prems(3) x by (auto split: option.splits exiting.splits)
  note ok = handle_option_ok [OF Cons.prems(1,2) h]
  show ?case
  proof (cases "o_main_opt opts1")
    case True
    with Cons.prems(3) x h ok show ?thesis by simp
  next
    case False
    with Cons.IH [OF ok False] Cons.prems(3) x h show ?thesis by simp
  qed
qed simp


lemma set_classpath_fields [simp]:
  "main_ns_name (set_classpath env cp c) = main_ns_name c" "repl_mode (set_classpath env cp c) = repl_mode c"
  "scripts (set_classpath env cp c) = scripts c" "compile_opts (set_classpath env cp c) = compile_opts c"
  "quiet (set_classpath env cp c) = quiet c"
  "theme (set_classpath env cp c) = theme c" "dumb_terminal (set_classpath env cp c) = dumb_terminal c"
  by (auto simp: set_classpath_def init_classpath_def Let_def split: option.splits)

lemma set_theme_fields [simp]:
  "main_ns_name (set_theme env c) = main_ns_name c" "repl_mode (set_theme env c) = repl_mode c"
  "scripts (set_theme env c) = scripts c" "compile_opts (set_theme env c) = compile_opts c"
  "quiet (set_theme env c) = quiet c"
  by (auto simp: set_theme_def)

lemma set_theme_cong:
  "theme c' = theme c \<Longrightarrow> dumb_terminal c' = dumb_terminal c \<Longrightarrow>
   theme (set_theme env c') = theme (set_theme env c)"
  by (simp add: set_theme_def)

lemma set_mode_fields [simp]:
  "main_ns_name (set_mode argv i c) = main_ns_name c" "scripts (set_mode argv i c) = scripts c"
  "rest_args (set_mode argv i c) = drop i argv" "theme (set_mode argv i c) = theme c"
  "quiet (set_mode argv i c) = quiet c"
  "repl_mode (set_mode argv i c) =
    (repl_mode c \<or> scripts c = [] \<and> main_ns_name c = None \<and> drop i argv = [] \<and> compile_opts c = [])"
  by (auto simp: set_mode_def Let_def)

text \<open>
  Running: the scripts up to the first that leaves an exit value, or all of them, the main action
  and, if the exit value is 0, waiting for the tasks.
\<close>

lemma run_program_cases:
  fixes env :: main_env and c :: config
  defines "evs \<equiv> map eval_script (scripts c)" and "ex \<equiv> m_exit_after env"
  shows "(\<exists>k. 0 < k \<and> k \<le> length evs \<and> ex (take k evs) \<noteq> 0 \<and> (\<forall>j. 0 < j \<and> j < k \<longrightarrow> ex (take j evs) = 0) \<and>
       run_program env c = (ex (take k evs), take k evs)) \<or>
     (\<forall>k. 0 < k \<and> k \<le> length evs \<longrightarrow> ex (take k evs) = 0) \<and>
       (let acts = evs @ main_actions env c;
          done = acts @ (if ex acts = 0 then [Block_until_tasks_complete] else []) @ [Engine_shutdown] in
        run_program env c = (ex done, done))"
  using run_scripts_eq [of "scripts c" ex "[]"]
proof (elim disjE exE conjE)
  fix k
  assume "0 < k" "k \<le> length (scripts c)" "ex ([] @ map eval_script (take k (scripts c))) \<noteq> 0"
    "\<forall>j. 0 < j \<and> j < k \<longrightarrow> ex ([] @ map eval_script (take j (scripts c))) = 0"
    "run_scripts ex (scripts c) [] = (ex ([] @ map eval_script (take k (scripts c))), [] @ map eval_script (take k (scripts c)))"
  then show ?thesis
    by (intro disjI1 exI [of _ k]) (simp add: evs_def ex_def take_map run_program_def)
next
  assume "\<forall>k. 0 < k \<and> k \<le> length (scripts c) \<longrightarrow> ex ([] @ map eval_script (take k (scripts c))) = 0"
    "run_scripts ex (scripts c) [] = (0, [] @ map eval_script (scripts c))"
  then show ?thesis
    by (intro disjI2) (simp add: evs_def ex_def take_map run_program_def Let_def)
qed

text \<open>
  C39. When the options have been read and the class path and the theme are good, the program
  evaluates the init scripts in order up to the first that leaves an exit value, and that value
  is returned. If none does, it does at most one thing more: it runs the main function of the
  namespace given; or the REPL, if it was asked for or there is nothing else to do, after the
  banner unless quiet or init scripts were given; or the script given, from the standard input
  for \<open>-\<close>, and then the main function set up for the command line, which is also what runs
  after init scripts alone. The complaint about a second main option cannot come up. It waits
  for the tasks only if the exit value is 0, and shuts the engine down.
\<close>

theorem main_runs:
  fixes env :: main_env and opts :: options
  assumes env: "env = env0\<lparr>m_getenv := control_FTL_JIT (m_getenv env0)\<rparr>"
    and getopt: "m_getopt env (index_of_script_path_or_hyphen (expand_medium_opts argv))
      (expand_medium_opts argv) = (os, place)"
    and parsed: "parse_options (dump_sdk (m_bundle env) (m_writes env)) os place
      \<lparr>o_config = initial_config, o_classpath = None, o_dependencies = None, o_local_repo = None,
       o_main_opt = False, o_fs = m_fs env\<rparr> = Some (Goes_on (opts, optind, args))"
    and classpath: "full_classpath env opts = Some cp"
    and themed: "fst (check_theme (the (theme (set_theme env (o_config opts)))))"
  shows "let evs = map (\<lambda>s. Evaluate (sc_type s) (sc_source s) (sc_expression s)) (scripts (o_config opts));
      rest = drop optind args; ex = m_exit_after env;
      interactive = (repl_mode (o_config opts) \<or> evs = [] \<and> rest = [] \<and> compile_opts (o_config opts) = []);
      todo = (case main_ns_name (o_config opts) of
          Some ns \<Rightarrow> [Run_main_in_ns ns rest]
        | None \<Rightarrow>
            if interactive then (if quiet (o_config opts) \<or> evs \<noteq> [] then [] else [Banner]) @ [Run_repl]
            else (if rest = [] then []
              else (if m_jsc3 env
                  then [Evaluate ''text'' ''nil'' True, Evaluate ''text'' ''(require 'planck.repl)'' True] else []) @
                [if hd rest = ''-'' then Evaluate ''text'' (c_string (m_stdin env)) False
                 else Evaluate ''path'' (hd rest) False]) @ [Run_main_cli_fn]);
      before = evs @ todo;
      all = before @ (if ex before = 0 then [Block_until_tasks_complete] else []) @ [Engine_shutdown]
    in (\<exists>k. 0 < k \<and> k \<le> length evs \<and> ex (take k evs) \<noteq> 0 \<and> (\<forall>j. 0 < j \<and> j < k \<longrightarrow> ex (take j evs) = 0) \<and>
         main env0 argv = Some (ex (take k evs), take k evs)) \<or>
       (\<forall>k. 0 < k \<and> k \<le> length evs \<longrightarrow> ex (take k evs) = 0) \<and> main env0 argv = Some (ex all, all)"
proof -
  define c0 where "c0 = set_mode args optind
    (set_theme env (set_classpath env cp (o_config opts)))"
  define c where "c = c0\<lparr>is_tty := m_isatty env\<rparr>"
  have "main_opts_ok opts"
    by (rule parse_options_ok [OF _ _ parsed]) (simp_all add: main_opts_ok_def initial_config_def)
  then have one: "main_ns_name c0 = None \<or> \<not> repl_mode c0"
    by (auto simp: c0_def main_opts_ok_def)
  have "theme c0 = theme (set_theme env (o_config opts))"
    unfolding c0_def set_mode_fields by (rule set_theme_cong) simp_all
  then have good: "fst (check_theme (the (theme c0)))" using themed by simp
  have "main env0 argv = (if \<not> fst (check_theme (the (theme c0))) then Some (1, [])
    else if main_ns_name c0 \<noteq> None \<and> repl_mode c0 then Some (1, []) else Some (run_program env c))"
    unfolding main_def Let_def env [symmetric] getopt prod.case parsed option.case exiting.case classpath c_def c0_def ..
  then have m: "main env0 argv = Some (run_program env c)" using good one by auto
  have sc: "scripts c = scripts (o_config opts)" by (simp add: c_def c0_def)
  have evs: "map (\<lambda>s. Evaluate (sc_type s) (sc_source s) (sc_expression s)) (scripts (o_config opts)) =
      map eval_script (scripts c)" by (simp add: sc eval_script_def [abs_def])
  have todo: "main_actions env c = (case main_ns_name (o_config opts) of
          Some ns \<Rightarrow> [Run_main_in_ns ns (drop optind args)]
        | None \<Rightarrow>
            if repl_mode (o_config opts) \<or> map eval_script (scripts c) = [] \<and> drop optind args = [] \<and> compile_opts (o_config opts) = []
            then (if quiet (o_config opts) \<or> map eval_script (scripts c) \<noteq> [] then [] else [Banner]) @ [Run_repl]
            else (if drop optind args = [] then []
              else (if m_jsc3 env
                  then [Evaluate ''text'' ''nil'' True, Evaluate ''text'' ''(require 'planck.repl)'' True] else []) @
                [if hd (drop optind args) = ''-'' then Evaluate ''text'' (c_string (m_stdin env)) False
                 else Evaluate ''path'' (hd (drop optind args)) False]) @ [Run_main_cli_fn])"
    using one by (auto simp: main_actions_def take_script_def c_def c0_def split: option.splits)
  show ?thesis unfolding evs Let_def todo [symmetric] m using run_program_cases [of c env] by (simp add: Let_def)
qed

section \<open>The script on the command line\<close>

text \<open>An argument that may be the script, given the one before it.\<close>

definition script_here :: "string \<Rightarrow> string \<Rightarrow> bool" where
  "script_here previous_opt arg \<longleftrightarrow>
     arg = ''-'' \<or> (arg = [] \<or> hd arg \<noteq> CHR ''-'') \<and> \<not> should_ignore_arg previous_opt"

lemma script_index_first:
  "let k = script_index_from i p args - i in
   i \<le> script_index_from i p args \<and> k \<le> length args \<and>
   (\<forall>j < k. \<not> script_here ((p # args) ! j) (args ! j)) \<and>
   (k < length args \<longrightarrow> script_here ((p # args) ! k) (args ! k))"
proof (induction args arbitrary: i p)
  case Nil
  then show ?case by simp
next
  case (Cons a args)
  show ?case
  proof (cases "script_here p a")
    case True
    then have "script_index_from i p (a # args) = i" by (auto simp: script_here_def)
    with True show ?thesis by simp
  next
    case False
    then have s: "script_index_from i p (a # args) = script_index_from (i + 1) a args"
      by (auto simp: script_here_def)
    let ?r = "script_index_from (i + 1) a args"
    from Cons.IH [of "i + 1" a] have ih: "i + 1 \<le> ?r" "?r - (i + 1) \<le> length args"
      "\<forall>j < ?r - (i + 1). \<not> script_here ((a # args) ! j) (args ! j)"
      "?r - (i + 1) < length args \<longrightarrow> script_here ((a # args) ! (?r - (i + 1))) (args ! (?r - (i + 1)))"
      by (simp_all add: Let_def)
    have k: "?r - i = Suc (?r - (i + 1))" using ih(1) by simp
    have "\<not> script_here ((p # a # args) ! j) ((a # args) ! j)" if "j < ?r - i" for j
      using that ih(3) False k by (cases j) auto
    with ih k show ?thesis unfolding s by (simp add: Let_def)
  qed
qed

text \<open>
  After a long option, whether it takes an argument or not, the next argument is never the script.
\<close>

lemma long_option_hides_script:
  assumes "prefix ''--'' opt" "script \<noteq> ''-''"
  shows "index_of_script_path_or_hyphen (prog # opt # script # args) \<noteq> 2"
proof -
  obtain xs where opt: "opt = ''--'' @ xs" using assms(1) by (auto simp: prefix_def)
  have ign: "should_ignore_arg opt" by (simp add: should_ignore_arg_def opt)
  have "3 \<le> script_index_from 3 script args"
    using script_index_first [of 3 script args] by (simp add: Let_def)
  then show ?thesis
    using assms(2) ign by (auto simp: index_of_script_path_or_hyphen_def opt numeral_eq_Suc)
qed

text \<open>\<open>--quiet\<close> takes no argument, but the script behind it is not found: its options are Planck's.\<close>

lemma quiet_hides_script:
  "index_of_script_path_or_hyphen [''planck'', ''--quiet'', ''a.cljs'', ''-v''] = 4"
  "index_of_script_path_or_hyphen [''planck'', ''-q'', ''a.cljs'', ''-v''] = 2"
  by (simp_all add: index_of_script_path_or_hyphen_def should_ignore_arg_def takes_argument_def)

section \<open>Dependencies\<close>

text \<open>A dependency without artifact: the dots of the group are slashes in the artifact's place too.\<close>

lemma dependency_without_artifact:
  "dependency_path ''r'' ''a/b.c:1'' = Some ''r/a/b.c/1/b.c-1.jar''"
  "dependency_path ''r'' ''b.c:1'' = Some ''r/b/c/b/c/1/b/c-1.jar''"
  by (simp_all add: dependency_path_def strtok_next_def dots_to_slashes_def)

lemma classpath_entry_absolute:
  "prefix ''/'' dir \<Longrightarrow> prefix ''/'' (sp_path (classpath_entry (Some dir) source))"
  by (auto simp: classpath_entry_def fully_qualify_def ensure_trailing_slash_def str_concat_def str_has_prefix_0
    prefix_def)


section \<open>Witness\<close>

definition sample_env :: main_env where
  "sample_env = \<lparr>m_getenv = (\<lambda>_. None), m_getcwd = None, m_isatty = True, m_stdin = [],
     m_getopt = (\<lambda>n argv. ([(CHR ''e'', ''1'', 3, argv)], 3, argv)),
     m_bundle = (\<lambda>_. None), m_writes = (\<lambda>_. []), m_jsc3 = False, m_exit_after = (\<lambda>acts. 0),
     m_fs = \<lparr>nodes = (\<lambda>_. None), cwd = []\<rparr>\<rparr>"

lemma main_runs_witness:
  "main sample_env [''planck'', ''-e'', ''1'', ''a.cljs'', ''x''] =
    Some (0, [Evaluate ''text'' ''1'' True, Evaluate ''path'' ''a.cljs'' False, Run_main_cli_fn,
      Block_until_tasks_complete, Engine_shutdown])"
proof -
  let ?argv = "[''planck'', ''-e'', ''1'', ''a.cljs'', ''x'']"
  let ?env = "sample_env\<lparr>m_getenv := control_FTL_JIT (m_getenv sample_env)\<rparr>"
  let ?opts0 = "\<lparr>o_config = initial_config, o_classpath = None, o_dependencies = None, o_local_repo = None,
    o_main_opt = False, o_fs = m_fs ?env\<rparr>"
  define opts where "opts = apply_option CHR ''e'' ''1'' ?opts0"
  have g: "m_getopt ?env (index_of_script_path_or_hyphen (expand_medium_opts ?argv))
      (expand_medium_opts ?argv) = ([(CHR ''e'', ''1'', 3, ?argv)], 3, ?argv)"
    by (simp add: sample_env_def expand_medium_opts_def)
  have p: "parse_options (dump_sdk (m_bundle ?env) (m_writes ?env))
      [(CHR ''e'', ''1'', 3, ?argv)] (3, ?argv) ?opts0 = Some (Goes_on (opts, 3, ?argv))"
    by (simp add: opts_def handle_option_def apply_option_def with_config_def)
  have cp: "full_classpath ?env opts = Some None"
    by (simp add: opts_def full_classpath_def apply_option_def with_config_def)
  have "theme (o_config opts) = None" "dumb_terminal (o_config opts) = False"
    by (simp_all add: opts_def apply_option_def with_config_def initial_config_def)
  then have th: "fst (check_theme (the (theme (set_theme ?env (o_config opts)))))"
    by (simp add: set_theme_def default_theme_ok)
  have o: "scripts (o_config opts) = [\<lparr>sc_type = ''text'', sc_expression = True, sc_source = ''1''\<rparr>]"
    "main_ns_name (o_config opts) = None" "repl_mode (o_config opts) = False"
    by (simp_all add: opts_def apply_option_def with_config_def initial_config_def)
  from main_runs [OF refl g p cp th] show ?thesis by (simp add: o) (simp add: sample_env_def)
qed

end
