(* ===== verification/Http.thy ===== *)
theory Http
  imports Io Js
begin

text \<open>
  \<open>http.c\<close>: requests over libcurl, which is a parameter: for the options set on a handle the
  result of the transfer, the header lines and parts of the body it passes to the two callbacks,
  and the status. A part of a body is at most 16384 bytes long. \<open>None\<close> is an access outside a
  buffer or the use of a NULL pointer.
\<close>

section \<open>Header lines\<close>

text \<open>The first colon and the last \<open>\r\n\<close> of a line; a \<open>\r\<close> at its very end makes the loop read on behind it.\<close>

fun scan_header :: "nat \<Rightarrow> string \<Rightarrow> nat option \<Rightarrow> nat \<Rightarrow> (nat option \<times> nat) option" where
  "scan_header i [] key_end val_end = Some (key_end, val_end)"
| "scan_header i (c # cs) key_end val_end =
     (let key_end' = (if c = CHR '':'' \<and> key_end = None then Some i else key_end) in
      if c = CHR 0x0D
      then case cs of
          [] \<Rightarrow> None
        | d # _ \<Rightarrow> scan_header (i + 1) cs key_end' (if d = CHR 0x0A then i else val_end)
      else scan_header (i + 1) cs key_end' val_end)"

definition blank :: "char \<Rightarrow> bool" where
  "blank c \<longleftrightarrow> c = CHR '' '' \<or> c = CHR 0x09"

fun trim_start :: "string \<Rightarrow> nat \<Rightarrow> nat \<Rightarrow> nat" where
  "trim_start buf start 0 = start"
| "trim_start buf start (Suc n) = (if blank (buf ! start) then trim_start buf (start + 1) n else start)"

fun trim_end :: "string \<Rightarrow> nat \<Rightarrow> nat \<Rightarrow> nat" where
  "trim_end buf start 0 = 0"
| "trim_end buf start (Suc i) =
     (if start < i \<and> blank (buf ! i) then trim_end buf start i else Suc i)"

text \<open>The name and value of a line, if it has a colon.\<close>

definition parse_header :: "string \<Rightarrow> (string \<times> string) option option" where
  "parse_header buffer =
     (case scan_header 0 buffer None (length buffer) of
        None \<Rightarrow> None
      | Some (None, _) \<Rightarrow> Some None
      | Some (Some key_end, val_end) \<Rightarrow>
          if val_end = 0 then None
          else let val_start = trim_start buffer (key_end + 1) (val_end - (key_end + 1));
                   val_end' = trim_end buffer val_start val_end in
            Some (Some (take key_end buffer,
              if val_start < val_end' then take (val_end' - val_start) (drop val_start buffer) else [])))"

text \<open>A property set read-only stays what it was set to first.\<close>

definition put_once :: "string \<Rightarrow> js \<Rightarrow> (string \<times> js) list \<Rightarrow> (string \<times> js) list" where
  "put_once k v ps = (if map_of ps k = None then ps @ [(k, v)] else ps)"

definition header_to_object_callback :: "string \<Rightarrow> (string \<times> js) list \<Rightarrow> (string \<times> js) list option" where
  "header_to_object_callback buffer headers =
     (case parse_header buffer of
        None \<Rightarrow> None
      | Some None \<Rightarrow> Some headers
      | Some (Some (k, v)) \<Rightarrow> Some (put_once (c_string k) (JStr (c_string v)) headers))"

section \<open>The body\<close>

definition CURL_MAX_WRITE_SIZE :: nat where "CURL_MAX_WRITE_SIZE = 16384"

text \<open>
  The buffer is the array of its \<open>length\<close> bytes with the \<open>offset\<close> written so far; before the
  first part it is NULL, an array of no bytes. \<open>length\<close> is an \<open>int\<close> and must not overflow.
\<close>

definition write_grow :: "nat \<Rightarrow> rbuf \<Rightarrow> rbuf option" where
  "write_grow n st =
     (let len = length (r_data st) in
      if len - r_offset st < n
      then let new_length = len * 2 + CURL_MAX_WRITE_SIZE + (if len = 0 then 1 else 0) in
        if new_length < 2 ^ 31
        then Some (st\<lparr>r_data := r_data st @ replicate (new_length - len) None\<rparr>) else None
      else Some st)"

definition write_string_callback :: "string \<Rightarrow> rbuf \<Rightarrow> rbuf option" where
  "write_string_callback buffer st =
     (case write_grow (length buffer) st of
        None \<Rightarrow> None
      | Some st1 \<Rightarrow>
          (case read_chunk st1 buffer of
             None \<Rightarrow> None
           | Some st2 \<Rightarrow>
               (case wr (r_data st2) (r_offset st2) (Some NUL) of
                  None \<Rightarrow> None | Some d \<Rightarrow> Some (st2\<lparr>r_data := d\<rparr>))))"

definition empty_body :: rbuf where
  "empty_body = \<lparr>r_data = [], r_offset = 0\<rparr>"

fun receive_body :: "string list \<Rightarrow> rbuf \<Rightarrow> rbuf option" where
  "receive_body [] st = Some st"
| "receive_body (c # cs) st =
     (case write_string_callback c st of None \<Rightarrow> None | Some st' \<Rightarrow> receive_body cs st')"

fun receive_headers :: "string list \<Rightarrow> (string \<times> js) list \<Rightarrow> (string \<times> js) list option" where
  "receive_headers [] ps = Some ps"
| "receive_headers (l # ls) ps =
     (case header_to_object_callback l ps of None \<Rightarrow> None | Some ps' \<Rightarrow> receive_headers ls ps')"

section \<open>A request\<close>

datatype post = No_body | Post_bytes string | Post_text "string option"

record curl_opts =
  co_method :: "string option"
  co_url :: "string option"
  co_user_agent :: "string option option"
  co_follow :: bool
  co_max_redirects :: "int option"
  co_insecure :: bool
  co_socket :: "string option option"
  co_headers :: "string list option"
  co_timeout :: int
  co_post :: post

record curl_result =
  cr_res :: int
  cr_header_lines :: "string list"
  cr_body_parts :: "string list"
  cr_status :: int

record curl =
  curl_unix_sockets :: bool
  curl_perform :: "curl_opts \<Rightarrow> curl_result"
  curl_strerror :: "int \<Rightarrow> string"

definition is_true :: "js \<Rightarrow> bool" where
  "is_true v \<longleftrightarrow> is_bool v \<and> to_bool v"

definition request_headers :: "(js \<Rightarrow> string) \<Rightarrow> js \<Rightarrow> string list option" where
  "request_headers to_str v =
     (case v of
        JObj ps \<Rightarrow> Some (map (\<lambda>(k, x). c_string k @ '': '' @ c_string (to_string to_str x)) ps)
      | JArr vs \<Rightarrow> Some (map (\<lambda>i. show_nat i @ '': '' @ c_string (to_string to_str (vs ! i))) [0..<length vs])
      | _ \<Rightarrow> None)"

definition request_body :: "js \<Rightarrow> post" where
  "request_body v =
     (if v = JUndefined then No_body
      else case v of
        JArr vs \<Rightarrow> Post_bytes (map (\<lambda>x. char_of (nat (to_number x mod 256))) vs)
      | _ \<Rightarrow> Post_text (value_to_c_string v))"

definition request_options :: "(js \<Rightarrow> string) \<Rightarrow> js \<Rightarrow> curl_opts" where
  "request_options to_str opts =
     \<lparr>co_method = value_to_c_string (get_prop ''method'' opts),
      co_url = value_to_c_string (get_prop ''url'' opts),
      co_user_agent = (let v = get_prop ''user-agent'' opts in
        if v \<noteq> JUndefined then Some (value_to_c_string v) else None),
      co_follow = is_true (get_prop ''follow-redirects'' opts),
      co_max_redirects = (let v = get_prop ''max-redirects'' opts in
        if is_true (get_prop ''follow-redirects'' opts) \<and> is_num v then Some (to_number v) else None),
      co_insecure = is_true (get_prop ''insecure'' opts),
      co_socket = (let v = get_prop ''socket'' opts in
        if v \<noteq> JUndefined then Some (value_to_c_string v) else None),
      co_headers = request_headers to_str (get_prop ''headers'' opts),
      co_timeout = (let v = get_prop ''timeout'' opts in if is_num v then to_number v else 0),
      co_post = request_body (get_prop ''body'' opts)\<rparr>"

text \<open>The body as a value: its bytes, or the text up to its first NUL.\<close>

definition body_value :: "bool \<Rightarrow> rbuf \<Rightarrow> js" where
  "body_value binary st =
     (let s = map the (take (r_offset st) (r_data st)) in
      if binary then JArr (map (\<lambda>c. JNum (of_char c)) s) else JStr (c_string s))"

definition response_object ::
  "curl \<Rightarrow> bool \<Rightarrow> curl_result \<Rightarrow> rbuf \<Rightarrow> (string \<times> js) list \<Rightarrow> js" where
  "response_object curl binary r st headers =
     (let o1 = (if cr_res r \<noteq> 0 then put_once ''error'' (JStr (curl_strerror curl (cr_res r))) [] else []);
          o2 = (if r_data st \<noteq> [] then put_once ''body'' (body_value binary st) o1 else o1) in
      JObj (put_once ''headers'' (JObj headers) (put_once ''status'' (JNum (cr_status r)) o2)))"

definition function_http_request :: "(js \<Rightarrow> string) \<Rightarrow> curl \<Rightarrow> js list \<Rightarrow> js option" where
  "function_http_request to_str curl args =
     (case args of
        [opts] \<Rightarrow>
          if is_obj opts
          then if get_prop ''socket'' opts \<noteq> JUndefined \<and> \<not> curl_unix_sockets curl
            then Some (JObj (put_once ''error'' (JStr ''This version of libcurl does not support UNIX sockets.'') []))
            else let r = curl_perform curl (request_options to_str opts) in
              (case (receive_headers (cr_header_lines r) [], receive_body (cr_body_parts r) empty_body) of
                 (Some headers, Some st) \<Rightarrow>
                   Some (response_object curl (is_true (get_prop ''binary-response'' opts)) r st headers)
               | _ \<Rightarrow> None)
          else Some JNull
      | _ \<Rightarrow> Some JNull)"

end
