(* ===== verification/Http_Props.thy ===== *)
theory Http_Props
  imports Http
begin

text \<open>
  What the callbacks of \<open>http.c\<close> do: a header line gives its name and its trimmed value, the
  body's buffer holds the parts received, and its terminator falls outside it exactly when a part
  fills the room that is left.
\<close>

section \<open>The body\<close>

definition body_content :: "rbuf \<Rightarrow> string" where
  "body_content st = map the (take (r_offset st) (r_data st))"

definition body_ok :: "rbuf \<Rightarrow> bool" where
  "body_ok st \<longleftrightarrow> r_offset st \<le> length (r_data st) \<and> None \<notin> set (take (r_offset st) (r_data st)) \<and>
     (r_data st = [] \<or> r_offset st < length (r_data st) \<and> r_data st ! r_offset st = Some NUL)"

lemma body_ok_empty: "body_ok empty_body" "body_content empty_body = []"
  by (simp_all add: body_ok_def empty_body_def body_content_def)

text \<open>Storing into a buffer with more room than the part takes.\<close>

lemma store_terminated:
  assumes "r_offset st + length c < length (r_data st)" "None \<notin> set (take (r_offset st) (r_data st))"
  shows "\<exists>st1 d. read_chunk st c = Some st1 \<and> wr (r_data st1) (r_offset st1) (Some NUL) = Some d \<and>
    body_ok (st1\<lparr>r_data := d\<rparr>) \<and> body_content (st1\<lparr>r_data := d\<rparr>) = body_content st @ c"
proof -
  let ?o = "r_offset st" and ?d = "r_data st"
  let ?d1 = "take ?o ?d @ map Some c @ drop (?o + length c) ?d"
  have front: "take (?o + length c) ?d1 = take ?o ?d @ map Some c" using assms(1) by simp
  have len: "length ?d1 = length ?d" using assms(1) by simp
  show ?thesis
    using assms len front
    by (intro exI [of _ "st\<lparr>r_data := ?d1, r_offset := ?o + length c\<rparr>"] exI [of _ "?d1[?o + length c := Some NUL]"])
      (auto simp: read_chunk_def wr_def body_ok_def body_content_def comp_def)
qed

text \<open>
  C40. The callback for the body, given a part of at most 16384 bytes, appends it and terminates
  the text, unless the part fills the room that is left exactly: then, and only then, the
  terminating NUL is written behind the end of the buffer. (Bodies short of a gigabyte; beyond
  that the \<open>int\<close> for the length overflows.)
\<close>

theorem body_received:
  assumes "body_ok st" "length c \<le> 16384" "r_offset st + length c < 2 ^ 29"
  shows "(write_string_callback c st = None \<longleftrightarrow> length (r_data st) - r_offset st = length c) \<and>
    (\<forall>st'. write_string_callback c st = Some st' \<longrightarrow>
       body_ok st' \<and> body_content st' = body_content st @ c \<and> r_offset st' = r_offset st + length c)"
proof -
  let ?o = "r_offset st" and ?d = "r_data st"
  have ok: "?o \<le> length ?d" "None \<notin> set (take ?o ?d)" using assms(1) by (simp_all add: body_ok_def)
  show ?thesis
  proof (cases "length ?d - ?o = length c")
    case True
    then have "write_grow (length c) st = Some st" by (simp add: write_grow_def)
    moreover have "?o + length c = length ?d" using True ok(1) by simp
    ultimately show ?thesis
      using True by (auto simp: write_string_callback_def read_chunk_def wr_def)
  next
    case False
    have "\<exists>st1. write_grow (length c) st = Some st1 \<and> r_offset st1 = ?o \<and> ?o + length c < length (r_data st1) \<and>
      take ?o (r_data st1) = take ?o ?d"
    proof (cases "length ?d - ?o < length c")
      case True
      let ?n = "length ?d * 2 + CURL_MAX_WRITE_SIZE + (if length ?d = 0 then 1 else 0)"
      have "?n < 2 ^ 31" using True assms(3) ok(1) by (auto simp: CURL_MAX_WRITE_SIZE_def)
      moreover have "?o + length c < ?n" using assms(1,2) by (auto simp: CURL_MAX_WRITE_SIZE_def body_ok_def)
      ultimately show ?thesis using True ok(1) by (simp add: write_grow_def Let_def)
    next
      case enough: False
      with False ok(1) show ?thesis by (simp add: write_grow_def)
    qed
    then obtain st1 where st1: "write_grow (length c) st = Some st1" "r_offset st1 = ?o"
      "?o + length c < length (r_data st1)" "take ?o (r_data st1) = take ?o ?d" by blast
    then obtain st2 d where st2: "read_chunk st1 c = Some st2"
      "wr (r_data st2) (r_offset st2) (Some NUL) = Some d"
      "body_ok (st2\<lparr>r_data := d\<rparr>)" "body_content (st2\<lparr>r_data := d\<rparr>) = body_content st1 @ c"
      using store_terminated [of st1 c] ok(2) by auto
    have "r_offset st2 = ?o + length c" using st2(1) st1(2) by (auto simp: read_chunk_def split: if_splits)
    moreover have "body_content st1 = body_content st" using st1(2,4) by (simp add: body_content_def)
    ultimately show ?thesis
      using False st1(1) st2 by (simp add: write_string_callback_def)
  qed
qed

text \<open>Two parts that curl may deliver: a full one and one byte.\<close>

lemma two_parts_overrun:
  assumes "length c = 16384"
  shows "receive_body [c, [x]] empty_body = None"
proof -
  have "write_grow 16384 empty_body = Some \<lparr>r_data = replicate 16385 None, r_offset = 0\<rparr>"
    by (simp add: write_grow_def empty_body_def CURL_MAX_WRITE_SIZE_def)
  then obtain st where st: "write_string_callback c empty_body = Some st" "r_offset st = 16384"
    "length (r_data st) = 16385"
    using assms by (auto simp: write_string_callback_def read_chunk_def wr_def)
  then show ?thesis by (simp add: write_string_callback_def write_grow_def read_chunk_def wr_def)
qed


lemma body_received_witness:
  "\<exists>st. write_string_callback ''ab'' empty_body = Some st \<and> body_content st = ''ab''"
proof -
  have "r_offset empty_body = 0" "r_data empty_body = []" by (simp_all add: empty_body_def)
  with body_received [of empty_body "''ab''"] show ?thesis by (auto simp: body_ok_empty)
qed

section \<open>Header lines\<close>

lemma scan_header_plain:
  "CHR 0x0D \<notin> set xs \<Longrightarrow> ke \<noteq> None \<or> CHR '':'' \<notin> set xs \<Longrightarrow>
   scan_header i (xs @ ys) ke ve = scan_header (i + length xs) ys ke ve"
  by (induction xs arbitrary: i) auto

lemma trim_start_blanks:
  "\<forall>c \<in> set w. blank c \<Longrightarrow> \<not> blank x \<Longrightarrow> trim_start (p @ w @ x # xs) (length p) (length w + Suc n) = length p + length w"
proof (induction w arbitrary: p)
  case (Cons c w)
  from Cons.IH [of "p @ [c]"] Cons.prems show ?case by (simp add: nth_append)
qed simp

lemma trim_end_blanks:
  "\<forall>c \<in> set w. blank c \<Longrightarrow> \<not> blank x \<Longrightarrow> start \<le> length p \<Longrightarrow>
   trim_end (p @ x # w @ ys) start (length p + Suc (length w)) = Suc (length p)"
proof (induction w arbitrary: ys rule: rev_induct)
  case (snoc c w)
  from snoc.IH [of "c # ys"] snoc.prems show ?case by (simp add: nth_append)
qed simp

text \<open>A line with a name, blanks, a value that neither starts nor ends with a blank, and blanks.\<close>

lemma parse_header_line:
  assumes "CHR '':'' \<notin> set k" "CHR 0x0D \<notin> set (k @ w @ v @ w')" "\<forall>c \<in> set (w @ w'). blank c"
    and "v \<noteq> []" "\<not> blank (hd v)" "\<not> blank (last v)"
  shows "parse_header (k @ '':'' @ w @ v @ w' @ [CHR 0x0D, CHR 0x0A]) = Some (Some (k, v))"
proof -
  let ?b = "k @ '':'' @ w @ v @ w' @ [CHR 0x0D, CHR 0x0A]"
  let ?s = "Suc (length k) + length w" and ?e = "Suc (length k) + length w + length v + length w'"
  have "scan_header 0 ?b None (length ?b) = scan_header (length k) ('':'' @ (w @ v @ w') @ [CHR 0x0D, CHR 0x0A]) None (length ?b)"
    using assms(1,2) by (subst scan_header_plain) auto
  also have "\<dots> = scan_header (Suc (length k)) ((w @ v @ w') @ [CHR 0x0D, CHR 0x0A]) (Some (length k)) (length ?b)"
    by simp
  also have "\<dots> = Some (Some (length k), ?e)"
    using assms(2) by (subst scan_header_plain) (auto simp: add_ac)
  finally have scan: "scan_header 0 ?b None (length ?b) = Some (Some (length k), ?e)" .
  obtain x xs where v: "v = x # xs" using assms(4) by (cases v) auto
  obtain ys y where v': "v = ys @ [y]" using assms(4) by (cases v rule: rev_cases) auto
  have start: "trim_start ?b (Suc (length k)) (?e - Suc (length k)) = ?s"
    using trim_start_blanks [of w x "k @ '':''" "xs @ w' @ [CHR 0x0D, CHR 0x0A]" "length xs + length w'"] assms(3,5)
    by (simp add: v add_ac)
  have fin: "trim_end ?b ?s ?e = Suc (length k) + length w + length v"
    using trim_end_blanks [of w' y ?s "k @ '':'' @ w @ ys" "[CHR 0x0D, CHR 0x0A]"] assms(3,6)
    by (simp add: v' add_ac)
  show ?thesis
    unfolding parse_header_def scan using assms(4)
    by (simp add: Let_def start [simplified] fin [simplified])
qed

end
