(* ===== verification/Engine.thy ===== *)
theory Engine
  imports Loading
begin

text \<open>
  \<open>engine.c\<close>: starting the engine and waiting for it, the names of functions, the calls of the
  ClojureScript part, and printing. JavaScriptCore is a parameter: evaluating a script is an
  event, calling a function gives a value, and looking a name up reads a graph of objects.
\<close>

section \<open>Waiting for the engine\<close>

text \<open>
  The threads that wait and the one that has made the engine, as steps between the calls of the
  pthread library. A thread is where its program counter says. \<open>pthread_cond_signal\<close> wakes one of
  the threads that wait, if there is one; the wake-ups without a signal that POSIX allows are a
  step of their own.
\<close>

datatype epc =
    Idle | Wait_lock | Wait_test | Wait_asleep | Wait_woken | Wait_unlock int | Returned int
  | Ready_lock | Ready_set | Ready_signal | Ready_unlock int

record engine_init =
  engine_ready :: bool
  init_lock :: "nat option"
  epcs :: "nat \<Rightarrow> epc"

definition at :: "nat \<Rightarrow> epc \<Rightarrow> engine_init \<Rightarrow> engine_init" where
  "at t p s = s\<lparr>epcs := (epcs s)(t := p)\<rparr>"

definition block_until_engine_ready :: "nat \<Rightarrow> engine_init \<Rightarrow> engine_init" where
  "block_until_engine_ready t s = at t Wait_lock s"

definition signal_engine_ready :: "nat \<Rightarrow> engine_init \<Rightarrow> engine_init" where
  "signal_engine_ready t s = at t Ready_lock s"

text \<open>The steps of a thread that waits; the second argument is what the call returned.\<close>

inductive wait_step :: "nat \<Rightarrow> int \<Rightarrow> engine_init \<Rightarrow> engine_init \<Rightarrow> bool" where
  w_lock: "epcs s t = Wait_lock \<Longrightarrow> init_lock s = None \<Longrightarrow> wait_step t 0 s (at t Wait_test (s\<lparr>init_lock := Some t\<rparr>))"
| w_lock_fails: "epcs s t = Wait_lock \<Longrightarrow> e \<noteq> 0 \<Longrightarrow> wait_step t e s (at t (Returned e) s)"
| w_ready: "epcs s t = Wait_test \<Longrightarrow> engine_ready s \<Longrightarrow> wait_step t 0 s (at t (Wait_unlock 0) s)"
| w_sleep: "epcs s t = Wait_test \<Longrightarrow> \<not> engine_ready s \<Longrightarrow> wait_step t 0 s (at t Wait_asleep (s\<lparr>init_lock := None\<rparr>))"
| w_fails: "epcs s t = Wait_test \<Longrightarrow> \<not> engine_ready s \<Longrightarrow> e \<noteq> 0 \<Longrightarrow> wait_step t e s (at t (Wait_unlock e) s)"
| w_again: "epcs s t = Wait_woken \<Longrightarrow> init_lock s = None \<Longrightarrow> wait_step t 0 s (at t Wait_test (s\<lparr>init_lock := Some t\<rparr>))"
| w_unlock: "epcs s t = Wait_unlock e \<Longrightarrow> wait_step t 0 s (at t (Returned e) (s\<lparr>init_lock := None\<rparr>))"

inductive ready_step :: "nat \<Rightarrow> int \<Rightarrow> engine_init \<Rightarrow> engine_init \<Rightarrow> bool" where
  r_lock: "epcs s t = Ready_lock \<Longrightarrow> init_lock s = None \<Longrightarrow> ready_step t 0 s (at t Ready_set (s\<lparr>init_lock := Some t\<rparr>))"
| r_lock_fails: "epcs s t = Ready_lock \<Longrightarrow> e \<noteq> 0 \<Longrightarrow> ready_step t e s (at t (Returned e) s)"
| r_set: "epcs s t = Ready_set \<Longrightarrow> ready_step t 0 s (at t Ready_signal (s\<lparr>engine_ready := True\<rparr>))"
| r_wakes: "epcs s t = Ready_signal \<Longrightarrow> epcs s u = Wait_asleep \<Longrightarrow>
    ready_step t 0 s (at t (Ready_unlock 0) (at u Wait_woken s))"
| r_nobody: "epcs s t = Ready_signal \<Longrightarrow> \<forall>u. epcs s u \<noteq> Wait_asleep \<Longrightarrow> ready_step t 0 s (at t (Ready_unlock 0) s)"
| r_signal_fails: "epcs s t = Ready_signal \<Longrightarrow> e \<noteq> 0 \<Longrightarrow> ready_step t e s (at t (Ready_unlock e) s)"
| r_unlock: "epcs s t = Ready_unlock e \<Longrightarrow> ready_step t 0 s (at t (Returned e) (s\<lparr>init_lock := None\<rparr>))"

text \<open>Runs: the call of \<open>block_until_engine_ready\<close> by any idle thread, and the steps; no spurious wake-ups.\<close>

inductive engine_run :: "engine_init \<Rightarrow> engine_init \<Rightarrow> bool" where
  run_refl: "engine_run s s"
| run_call: "engine_run s s1 \<Longrightarrow> epcs s1 t = Idle \<Longrightarrow> engine_run s (block_until_engine_ready t s1)"
| run_wait: "engine_run s s1 \<Longrightarrow> wait_step t e s1 s2 \<Longrightarrow> engine_run s s2"
| run_ready: "engine_run s s1 \<Longrightarrow> ready_step t e s1 s2 \<Longrightarrow> engine_run s s2"

inductive_cases wait_stepE: "wait_step t e s s'"
inductive_cases ready_stepE: "ready_step t e s s'"

lemma at_simps [simp]:
  "epcs (at t p s) = (epcs s)(t := p)" "engine_ready (at t p s) = engine_ready s"
  "init_lock (at t p s) = init_lock s"
  by (simp_all add: at_def)

text \<open>A thread that returns 0 has found the engine ready; a thread in a section between lock and unlock holds the lock.\<close>

fun holds_init_lock :: "epc \<Rightarrow> bool" where
  "holds_init_lock Wait_test = True"
| "holds_init_lock (Wait_unlock _) = True"
| "holds_init_lock Ready_set = True"
| "holds_init_lock Ready_signal = True"
| "holds_init_lock (Ready_unlock _) = True"
| "holds_init_lock _ = False"

definition engine_inv :: "engine_init \<Rightarrow> bool" where
  "engine_inv s \<longleftrightarrow>
     (\<forall>t. holds_init_lock (epcs s t) \<longleftrightarrow> init_lock s = Some t) \<and>
     (\<forall>t. epcs s t \<in> {Wait_unlock 0, Returned 0, Ready_signal, Ready_unlock 0} \<longrightarrow> engine_ready s)"

lemma engine_inv_lock: "engine_inv s \<Longrightarrow> holds_init_lock (epcs s t) \<longleftrightarrow> init_lock s = Some t"
  by (simp add: engine_inv_def)

lemma wait_step_inv:
  assumes "wait_step t e s s'" "engine_inv s"
  shows "engine_inv s'"
  using assms engine_inv_lock [OF assms(2), of t]
  by (elim wait_stepE) (auto simp: engine_inv_def)

lemma ready_step_inv:
  assumes "ready_step t e s s'" "engine_inv s"
  shows "engine_inv s'"
  using assms engine_inv_lock [OF assms(2), of t]
  by (elim ready_stepE) (auto simp: engine_inv_def)

lemma engine_run_inv: "engine_run s s' \<Longrightarrow> engine_inv s \<Longrightarrow> engine_inv s'"
proof (induction rule: engine_run.induct)
  case (run_call s s1 t)
  then have ok: "engine_inv s1" by simp
  then have "holds_init_lock (epcs s1 t) \<longleftrightarrow> init_lock s1 = Some t" by (simp add: engine_inv_def)
  with run_call.hyps(2) have "init_lock s1 \<noteq> Some t" by simp
  with ok show ?case by (auto simp: engine_inv_def block_until_engine_ready_def)
qed (auto intro: wait_step_inv ready_step_inv)

text \<open>No thread passes \<open>block_until_engine_ready\<close> with 0 before the engine is ready.\<close>

lemma returns_when_ready:
  assumes "engine_run s s'" "engine_inv s" "epcs s' t = Returned 0"
  shows "engine_ready s'"
  using engine_run_inv [OF assms(1,2)] assms(3) by (auto simp: engine_inv_def)

text \<open>
  Once the engine has been announced, a thread still asleep stays so: no step wakes it, since
  only \<open>signal_engine_ready\<close> does, which is called once.
\<close>

definition announced :: "engine_init \<Rightarrow> bool" where
  "announced s \<longleftrightarrow> (\<forall>t. epcs s t \<notin> {Ready_lock, Ready_set, Ready_signal})"

lemma asleep_for_ever:
  assumes "engine_run s s'" "announced s" "epcs s t = Wait_asleep"
  shows "epcs s' t = Wait_asleep \<and> announced s'"
  using assms
proof (induction rule: engine_run.induct)
  case (run_call s s1 u)
  then show ?case by (auto simp: block_until_engine_ready_def announced_def)
next
  case (run_wait s s1 u e s2)
  then have "epcs s1 t = Wait_asleep \<and> announced s1" by simp
  with run_wait.hyps(2) show ?case by (auto elim!: wait_stepE simp: announced_def split: if_splits)
next
  case (run_ready s s1 u e s2)
  then have "epcs s1 t = Wait_asleep \<and> announced s1" by simp
  with run_ready.hyps(2) show ?case by (auto elim!: ready_stepE simp: announced_def split: if_splits)
qed auto

text \<open>Of two threads that wait the signal wakes one; the other then waits for ever.\<close>

lemma one_thread_woken:
  assumes "ready_step r 0 s s1" "epcs s r = Ready_signal" "epcs s t = Wait_asleep" "epcs s u = Wait_asleep" "t \<noteq> u"
    and "\<forall>x. x \<noteq> r \<longrightarrow> epcs s x \<notin> {Ready_lock, Ready_set, Ready_signal}" and "engine_run s1 s2"
  shows "epcs s2 t = Wait_asleep \<or> epcs s2 u = Wait_asleep"
proof -
  have "announced s1" using assms(1,2,6) by (auto elim!: ready_stepE simp: announced_def split: if_splits)
  moreover have "epcs s1 t = Wait_asleep \<or> epcs s1 u = Wait_asleep"
    using assms(1-5) by (auto elim!: ready_stepE split: if_splits)
  ultimately show ?thesis using asleep_for_ever [OF assms(7)] by blast
qed

section \<open>Interrupts\<close>

text \<open>\<open>keep_running\<close> and whether the handler for interrupts is set.\<close>

record interrupts =
  keep_running :: bool
  handler_set :: bool

definition int_handler :: "interrupts \<Rightarrow> interrupts" where
  "int_handler s = s\<lparr>keep_running := False, handler_set := False\<rparr>"

definition set_int_handler :: "interrupts \<Rightarrow> interrupts" where
  "set_int_handler s = s\<lparr>handler_set := True\<rparr>"

definition clear_int_handler :: "interrupts \<Rightarrow> interrupts" where
  "clear_int_handler s = s\<lparr>handler_set := False, keep_running := True\<rparr>"

definition should_keep_running :: "interrupts \<Rightarrow> bool" where
  "should_keep_running s = keep_running s"

section \<open>Munging\<close>

text \<open>The length of the result, and the result in an array of that length and one more.\<close>

definition munged_len :: "string \<Rightarrow> nat" where
  "munged_len s = sum_list (map (\<lambda>c. if c = CHR ''!'' then 6 else if c = CHR ''?'' then 7 else 1) s)"

definition munged :: "char \<Rightarrow> string" where
  "munged c =
     (if c = CHR ''-'' then ''_'' else if c = CHR ''!'' then ''_BANG_''
      else if c = CHR ''?'' then ''_QMARK_'' else [c])"

fun put_chars :: "char list \<Rightarrow> nat \<Rightarrow> string \<Rightarrow> char list option" where
  "put_chars ms j [] = Some ms"
| "put_chars ms j (c # cs) = (case wr ms j c of None \<Rightarrow> None | Some ms' \<Rightarrow> put_chars ms' (j + 1) cs)"

fun munge_loop :: "char list \<Rightarrow> nat \<Rightarrow> string \<Rightarrow> char list option" where
  "munge_loop ms j [] = Some ms"
| "munge_loop ms j (c # cs) =
     (case put_chars ms j (munged c) of
        None \<Rightarrow> None | Some ms' \<Rightarrow> munge_loop ms' (j + length (munged c)) cs)"

definition munge :: "string \<Rightarrow> string option" where
  "munge s =
     (let new_len = munged_len s in
      case munge_loop (replicate (new_len + 1) NUL) 0 s of
        None \<Rightarrow> None
      | Some ms \<Rightarrow> (case wr ms new_len NUL of None \<Rightarrow> None | Some ms' \<Rightarrow> cstr_of ms'))"

lemma put_chars_ok:
  "j + length cs \<le> length ms \<Longrightarrow> put_chars ms j cs = Some (take j ms @ cs @ drop (j + length cs) ms)"
proof (induction cs arbitrary: ms j)
  case (Cons c cs)
  then have "put_chars ms j (c # cs) = put_chars (ms[j := c]) (Suc j) cs" by (simp add: wr_def)
  also have "\<dots> = Some (take (Suc j) (ms[j := c]) @ cs @ drop (Suc j + length cs) (ms[j := c]))"
    using Cons.prems by (intro Cons.IH) simp
  also have "take (Suc j) (ms[j := c]) = take j ms @ [c]" using Cons.prems by (simp add: take_Suc_conv_app_nth)
  finally show ?case by simp
qed simp

lemma munge_loop_ok:
  "j + length (concat (map munged s)) \<le> length ms \<Longrightarrow>
   munge_loop ms j s = Some (take j ms @ concat (map munged s) @ drop (j + length (concat (map munged s))) ms)"
proof (induction s arbitrary: ms j)
  case (Cons c s)
  let ?m = "munged c" and ?r = "concat (map munged s)"
  let ?ms = "take j ms @ ?m @ drop (j + length ?m) ms"
  have "put_chars ms j ?m = Some ?ms" using Cons.prems by (intro put_chars_ok) simp
  moreover have "munge_loop ?ms (j + length ?m) s =
      Some (take (j + length ?m) ?ms @ ?r @ drop (j + length ?m + length ?r) ?ms)"
    using Cons.prems by (intro Cons.IH) simp
  ultimately show ?case using Cons.prems by (simp add: add_ac)
qed simp

text \<open>The array is exactly as long as needed: munging never leaves it and gives the characters' substitutes.\<close>

lemma munge_ok:
  assumes "NUL \<notin> set s"
  shows "munge s = Some (concat (map munged s))"
proof -
  let ?m = "concat (map munged s)"
  have len: "length ?m = munged_len s" by (induction s) (auto simp: munged_len_def munged_def)
  have "NUL \<notin> set ?m" using assms by (auto simp: munged_def split: if_splits)
  moreover have "munge_loop (replicate (munged_len s + 1) NUL) 0 s = Some (?m @ [NUL])"
  proof -
    have "drop (munged_len s) (replicate (munged_len s + 1) NUL) = [NUL]"
      unfolding drop_replicate by simp
    with munge_loop_ok [of 0 s "replicate (munged_len s + 1) NUL"] len show ?thesis
      by (simp del: replicate_Suc)
  qed
  moreover have "(?m @ [NUL])[munged_len s := NUL] = ?m @ NUL # []"
    using len by (simp add: list_update_append)
  ultimately show ?thesis
    using len cstr_of_append_NUL [of ?m "[]"] by (simp add: munge_def wr_def)
qed

section \<open>Looking functions up\<close>

text \<open>The property of an object with a name.\<close>

definition get_value_on_object :: "js \<Rightarrow> string \<Rightarrow> js" where
  "get_value_on_object obj name = get_prop name obj"

text \<open>Through the parts of the namespace from the global object on; the inner \<open>None\<close> is the NULL reference.\<close>

fun get_value_parts :: "js \<Rightarrow> js option \<Rightarrow> string list \<Rightarrow> js option" where
  "get_value_parts global v [] = v"
| "get_value_parts global v (p # ps) =
     (case v of
        Some JUndefined \<Rightarrow> Some JUndefined
      | Some ns \<Rightarrow> get_value_parts global (Some (get_value_on_object ns (the (munge p)))) ps
      | None \<Rightarrow> get_value_parts global (Some (get_value_on_object global (the (munge p)))) ps)"

definition get_value :: "js \<Rightarrow> string \<Rightarrow> string \<Rightarrow> js option" where
  "get_value global ns name =
     map_option (\<lambda>v. get_value_on_object v (the (munge name))) (get_value_parts global None (strtok_all CHR ''.'' ns))"

text \<open>The function, or the message before the assertion fails.\<close>

definition get_function :: "js \<Rightarrow> string \<Rightarrow> string \<Rightarrow> string + js" where
  "get_function global ns name =
     (case get_value global ns name of
        Some v \<Rightarrow>
          if v = JUndefined
          then Inl (take 1023 (''Failed to get function '' @ ns @ ''/'' @ name @ [CHR 0x0A])) else Inr v
      | None \<Rightarrow> Inl [])"

section \<open>Calling ClojureScript\<close>

text \<open>
  Each call first waits for the engine; \<open>err\<close> is what the wait returned. \<open>call\<close> gives the value
  of a function of a namespace on arguments. What is printed when the wait fails comes with the
  result. Where the code takes a value for a number without a test, as for counts and
  coordinates, the functions of \<open>planck.repl\<close> give numbers.
\<close>

definition failed_msg :: string where
  "failed_msg = ''Failed waiting for JavaScript engine to initialize.''"

type_synonym call = "string \<Rightarrow> js list \<Rightarrow> js"

definition source_arguments :: "string \<Rightarrow> string \<Rightarrow> bool \<Rightarrow> bool \<Rightarrow> string option \<Rightarrow> string \<Rightarrow> int \<Rightarrow> js list" where
  "source_arguments type source expression print_nil set_ns theme_name session_id =
     [JArr [JStr type, JStr source], JBool expression, JBool print_nil,
      (case set_ns of None \<Rightarrow> JNull | Some ns \<Rightarrow> JStr ns), JStr theme_name, JNum session_id]"

text \<open>The arguments with which \<open>execute\<close> is called, or what is printed.\<close>

definition evaluate_source ::
  "string \<Rightarrow> string \<Rightarrow> bool \<Rightarrow> bool \<Rightarrow> string option \<Rightarrow> string \<Rightarrow> bool \<Rightarrow> int \<Rightarrow> int \<Rightarrow> string + js list" where
  "evaluate_source type source expression print_nil set_ns theme_name block_until_ready session_id err =
     (if block_until_ready \<and> err \<noteq> 0 then Inl failed_msg
      else Inr (source_arguments type source expression print_nil set_ns theme_name session_id))"

definition run_main_in_ns :: "string \<Rightarrow> string list \<Rightarrow> int \<Rightarrow> string + js list" where
  "run_main_in_ns ns argv err = (if err \<noteq> 0 then Inl failed_msg else Inr (JStr ns # map JStr argv))"

definition run_main_cli_fn :: "int \<Rightarrow> string + js list" where
  "run_main_cli_fn err = (if err \<noteq> 0 then Inl failed_msg else Inr [])"

definition get_current_ns :: "call \<Rightarrow> int \<Rightarrow> string option \<times> string list" where
  "get_current_ns call err =
     (if err \<noteq> 0 then (None, [failed_msg]) else (value_to_c_string (call ''get-current-ns'' []), []))"

definition is_readable :: "call \<Rightarrow> string \<Rightarrow> int \<Rightarrow> string \<Rightarrow> string option \<times> string list" where
  "is_readable call theme_name err expression =
     (if err \<noteq> 0 then (None, [failed_msg])
      else (value_to_c_string (call ''is-readable?'' [JStr expression, JStr theme_name]), []))"

definition indent_space_count :: "call \<Rightarrow> int \<Rightarrow> string \<Rightarrow> int" where
  "indent_space_count call err text_arg =
     (if err \<noteq> 0 then 0 else c_int (to_number (call ''indent-space-count'' [JStr text_arg])))"

text \<open>The outer \<open>None\<close> is a failed assertion, the inner the NULL pointer.\<close>

definition get_completions :: "call \<Rightarrow> int \<Rightarrow> string \<Rightarrow> string option list option option" where
  "get_completions call err buffer =
     (if err \<noteq> 0 then Some None
      else let result = call ''get-completions'' [JStr buffer] in
        if \<not> is_obj result \<or> \<not> is_num (case result of JArr vs \<Rightarrow> JNum (int (length vs)) | _ \<Rightarrow> get_prop ''length'' result)
        then None
        else Some (Some (map (\<lambda>i. value_to_c_string (array_get_value_at_index result i))
          [0..<nat (array_get_count result)])))"

definition highlight_coords_for_pos ::
  "call \<Rightarrow> int \<Rightarrow> int \<Rightarrow> string \<Rightarrow> string list \<Rightarrow> int \<times> int \<Rightarrow> int \<times> int" where
  "highlight_coords_for_pos call err pos buf previous_lines old =
     (if err \<noteq> 0 then old
      else let result = call ''get-highlight-coords'' [JNum pos, JStr buf, JArr (map JStr previous_lines)] in
        if is_obj result
        then (c_int (to_number (array_get_value_at_index result 0)), c_int (to_number (array_get_value_at_index result 1)))
        else old)"

section \<open>Starting\<close>

text \<open>
  The scripts \<open>bootstrap\<close> evaluates, by their names, or the message with which it exits. The
  two texts are looked for in the output directory if there is one, else in the bundle.
\<close>

definition bootstrap_text :: "world \<Rightarrow> string option \<Rightarrow> string \<Rightarrow> string option" where
  "bootstrap_text w out path =
     (case out of Some o' \<Rightarrow> get_contents (str_concat o' path) (w_fs w) | None \<Rightarrow> w_bundle w path)"

definition bootstrap :: "world \<Rightarrow> string option \<Rightarrow> string list \<times> string option" where
  "bootstrap w out =
     (case bootstrap_text w out ''goog/base.js'' of
        None \<Rightarrow> ([''<bootstrap>''], Some ''The goog base JavaScript text could not be loaded'')
      | Some _ \<Rightarrow>
          (case bootstrap_text w out ''main.js'' of
             None \<Rightarrow> ([''<bootstrap>'', ''<bootstrap:base>''], Some ''The deps JavaScript text could not be loaded'')
           | Some _ \<Rightarrow>
               ([''<bootstrap>'', ''<bootstrap:base>'', ''<bootstrap:deps>'', ''<bootstrap>'', ''<bootstrap>'',
                 ''<bootstrap>''], None)))"

text \<open>The arguments of \<open>init\<close> and the command line, as the engine passes them on.\<close>

definition opt_js :: "string option \<Rightarrow> js" where
  "opt_js s = (case s of None \<Rightarrow> JNull | Some s \<Rightarrow> JStr s)"

definition init_arguments :: "config \<Rightarrow> js list" where
  "init_arguments c =
     [JBool (repl_mode c), JBool (verbose c), opt_js (cache_path c), opt_js (checked_arrays c),
      JBool (static_fns c), JBool (fn_invoke_direct c), JBool (elide_asserts c), JStr (optimizations c),
      JArr (map JStr (compile_opts c))]"

definition initial_command_line_args :: "config \<Rightarrow> js" where
  "initial_command_line_args c = JArr (map JStr (rest_args c))"

text \<open>What is evaluated last: in the REPL the macros it refers to.\<close>

definition apostrophe :: string where
  "apostrophe = [CHR 0x27]"

definition repl_requires :: "config \<Rightarrow> js list" where
  "repl_requires c =
     source_arguments ''text''
       (if repl_mode c
        then ''(eval `(~'' @ apostrophe @ ''ns ~'' @ apostrophe @
          ''cljs.user (:require ~@(-> @planck.repl/app-env :opts (:repl-requires '' @ apostrophe @
          ''[[planck.repl :refer-macros [source doc find-doc apropos dir pst]]])))))''
        else ''(require '' @ apostrophe @ ''planck.repl)'')
       True False (Some ''cljs.user'') ''dumb'' 0"


section \<open>Printing\<close>

text \<open>
  Messages go to the sender, if one is set, else to standard error. \<open>discarding_sender\<close> drops
  them; \<open>Socket_sender\<close> stands for that of a socket session.
\<close>

datatype sender = Discarding_sender | Socket_sender

record printing =
  cljs_sender :: "sender option"
  to_stderr :: "string list"
  to_socket :: "string list"

definition send :: "sender \<Rightarrow> string \<Rightarrow> printing \<Rightarrow> printing" where
  "send sndr msg s =
     (case sndr of Discarding_sender \<Rightarrow> s | Socket_sender \<Rightarrow> s\<lparr>to_socket := to_socket s @ [msg]\<rparr>)"

definition engine_print :: "string \<Rightarrow> printing \<Rightarrow> printing" where
  "engine_print msg s =
     (case cljs_sender s of
        Some current_sender \<Rightarrow> send current_sender msg s
      | None \<Rightarrow> s\<lparr>to_stderr := to_stderr s @ [msg]\<rparr>)"

definition engine_println :: "string \<Rightarrow> printing \<Rightarrow> printing" where
  "engine_println msg s = engine_print (snprintf 1024 (msg @ [CHR 0x0A])) s"

definition engine_perror :: "string \<Rightarrow> string \<Rightarrow> printing \<Rightarrow> printing" where
  "engine_perror strerror msg s =
     (if cljs_sender s = Some Discarding_sender
      then s\<lparr>to_stderr := to_stderr s @ [msg @ '': '' @ strerror @ [CHR 0x0A]]\<rparr>
      else engine_print (snprintf 1024 (msg @ '': '' @ strerror @ [CHR 0x0A])) s)"

definition engine_print_err_message :: "string \<Rightarrow> int \<Rightarrow> printing \<Rightarrow> printing" where
  "engine_print_err_message msg err s =
     engine_print (snprintf 1024 (msg @ '': '' @ show_int err @ [CHR 0x0A])) s"

definition function_print_fn_sender :: "js_lib \<Rightarrow> js list \<Rightarrow> printing \<Rightarrow> (js \<times> printing) option" where
  "function_print_fn_sender lib args s =
     (case args of
        [v] \<Rightarrow>
          (case value_to_c_string_ext lib v True of
             Some (Some str) \<Rightarrow> Some (JNull, engine_print str s)
           | _ \<Rightarrow> None)
      | _ \<Rightarrow> Some (JNull, s))"

text \<open>The functions that ClojureScript prints through after a sender has been set.\<close>

definition set_print_sender :: "sender option \<Rightarrow> printing \<Rightarrow> printing \<times> string \<times> string" where
  "set_print_sender sender s =
     (s\<lparr>cljs_sender := sender\<rparr>,
      if sender \<noteq> None then ''function_print_fn_sender'' else ''function_print_fn'',
      if sender \<noteq> None then ''function_print_fn_sender'' else ''function_print_err_fn'')"

text \<open>A line of 1023 characters or more loses its end, the line feed included.\<close>

lemma engine_println_cut:
  "cljs_sender s = None \<Longrightarrow> 1023 \<le> length msg \<Longrightarrow>
   to_stderr (engine_println msg s) = to_stderr s @ [take 1023 msg]"
  by (simp add: engine_println_def engine_print_def snprintf_def)

lemma engine_println_whole:
  "cljs_sender s = None \<Longrightarrow> length msg < 1023 \<Longrightarrow>
   to_stderr (engine_println msg s) = to_stderr s @ [msg @ [CHR 0x0A]]"
  by (simp add: engine_println_def engine_print_def snprintf_def)

text \<open>\<open>PLANCK_SIGNAL_TASK_COMPLETE\<close>, with the result of \<open>signal_task_complete\<close>.\<close>

definition function_signal_task_complete :: "int \<Rightarrow> printing \<Rightarrow> js \<times> printing" where
  "function_signal_task_complete err s =
     (JNull, if err \<noteq> 0 then engine_print_err_message ''signal_task_complete'' err s else s)"

end
