(* ===== verification/Engine_Init.thy ===== *)
theory Engine_Init
  imports Engine
begin

text \<open>
  \<open>engine.c\<close>: what the thread that makes the engine does, in its order, and \<open>clock.c\<close>, the
  timings it shows. An action is a call of JavaScriptCore, a change of the print sender, a
  message, or the announcement that lets the waiting threads go on. The texts of the scripts of
  \<open>bootstrap\<close> and of the timer functions stand under their names. \<open>ex\<close> gives the
  exception that a function throws and the \<open>toString\<close> of values.
\<close>

section \<open>The functions C offers to JavaScript\<close>


datatype startup =
    New_context
  | Script string              \<comment> \<open>\<open>evaluate_script\<close> from \<open><init>\<close>\<close>
  | Bootstrap_scripts "string list"
  | Timer_script
  | Native string string       \<comment> \<open>\<open>register_global_function\<close>\<close>
  | Set_global string js
  | Set_sender "sender option"
  | Call_function string "js list"
  | Shown string               \<comment> \<open>a label of \<open>display_launch_timing\<close>\<close>
  | Complaint string           \<comment> \<open>on standard error\<close>
  | Exit_process int
  | Announce_ready

definition register_global_function :: "string \<times> string \<Rightarrow> startup" where
  "register_global_function p = Native (fst p) (snd p)"

text \<open>\<open>set_print_sender\<close>: the sender, the two functions and the three scripts.\<close>

definition set_print_sender_actions :: "sender option \<Rightarrow> startup list" where
  "set_print_sender_actions sender =
     (let (_, out, err) = set_print_sender sender \<lparr>cljs_sender = None, to_stderr = [], to_socket = []\<rparr> in
      [Set_sender sender, Native ''PLANCK_PRINT_FN'' out, Native ''PLANCK_PRINT_ERR_FN'' err,
       Script ''cljs.core.set_print_fn_BANG_.call(null,PLANCK_PRINT_FN);'',
       Script ''cljs.core.set_print_err_fn_BANG_.call(null,PLANCK_PRINT_ERR_FN);'',
       Script ''cljs.core._STAR_print_newline_STAR_ = true;''])"

text \<open>Calling a function of \<open>planck.repl\<close> without arguments, with a complaint if it throws.\<close>

type_synonym thrown = "(js \<Rightarrow> string) \<times> (string \<Rightarrow> js option)"

definition call_reporting :: "thrown \<Rightarrow> string \<Rightarrow> js list \<Rightarrow> string \<Rightarrow> startup list" where
  "call_reporting ex f args pre =
     Call_function f args #
     (if snd ex f = None then [] else [Complaint (print_value (fst ex) pre (snd ex f))])"

definition maybe_load_user_file :: "thrown \<Rightarrow> config \<Rightarrow> startup list" where
  "maybe_load_user_file ex c =
     (if repl_mode c then call_reporting ex ''maybe-load-user-file'' [] ''Error loading user file: '' else [])"

definition init_paredit :: "thrown \<Rightarrow> startup list" where
  "init_paredit ex = call_reporting ex ''init-paredit'' [] ''Error initializing paredit: ''"

section \<open>The thread\<close>

definition quoted :: "string \<Rightarrow> string" where
  "quoted s = [CHR 0x22] @ s @ [CHR 0x22]"

definition version_script :: "string \<Rightarrow> string" where
  "version_script version =
     snprintf 1024 (''cljs.core._STAR_clojurescript_version_STAR_ = '' @ quoted version @ '';'')"






text \<open>The ClojureScript side, with everything it prints discarded, and the end.\<close>

definition init_clojurescript :: "string \<Rightarrow> thrown \<Rightarrow> config \<Rightarrow> startup list" where
  "init_clojurescript version ex c =
     set_print_sender_actions (Some Discarding_sender) @
     call_reporting ex ''init'' (init_arguments c) ''Error initializing engine: '' @
     [Shown ''planck.repl/init'', Script (version_script version),
      Call_function ''execute'' (repl_requires c),
      Shown (if repl_mode c then ''repl requires'' else ''repl code''),
      Script (''goog.provide('' @ apostrophe @ ''cljs.user'' @ apostrophe @ '');''),
      Script (''goog.require('' @ apostrophe @ ''cljs.core'' @ apostrophe @ '');'')] @
     set_print_sender_actions None @
     call_reporting ex ''init-data-readers'' [] ''Error initializing data readers: '' @
     maybe_load_user_file ex c @
     (if repl_mode c then init_paredit ex else []) @
     [Shown ''engine ready'', Announce_ready]"


text \<open>Starting the thread; \<open>ret\<close> is what \<open>pthread_create\<close> returned. The result is the exit value.\<close>

definition engine_start :: "int \<Rightarrow> string \<Rightarrow> printing \<Rightarrow> int option \<times> printing" where
  "engine_start ret strerror s =
     (if ret \<noteq> 0 then (Some 1, engine_perror strerror ''pthread_create'' s) else (None, s))"

section \<open>Launch timings\<close>

record timing =
  launch_time :: "64 word"
  last_display :: "64 word"

definition system_time_of :: "64 word \<Rightarrow> 64 word \<Rightarrow> 64 word" where
  "system_time_of tv_sec tv_nsec = 1000000000 * tv_sec + tv_nsec"

definition init_launch_timing :: "64 word \<Rightarrow> timing" where
  "init_launch_timing now = \<lparr>launch_time = now, last_display = now\<rparr>"

text \<open>The times shown, in nanoseconds: since the last display and since the launch.\<close>

definition display_launch_timing :: "64 word \<Rightarrow> timing \<Rightarrow> (64 word \<times> 64 word) option \<times> timing" where
  "display_launch_timing now t =
     (if launch_time t \<noteq> 0
      then (Some (now - last_display t, now - launch_time t), t\<lparr>last_display := now\<rparr>)
      else (None, t))"

fun displays :: "64 word list \<Rightarrow> timing \<Rightarrow> (64 word \<times> 64 word) option list" where
  "displays [] t = []"
| "displays (now # nows) t = (let (d, t') = display_launch_timing now t in d # displays nows t')"

lemma displays_Nil [simp]: "displays nows t = [] \<longleftrightarrow> nows = []"
  by (cases nows) (auto split: prod.splits)

lemma displays_from:
  "launch_time t \<noteq> 0 \<Longrightarrow> nows \<noteq> [] \<Longrightarrow>
   sum_list (map (\<lambda>d. fst (the d)) (displays nows t)) = snd (the (last (displays nows t))) - (last_display t - launch_time t)"
proof (induction nows arbitrary: t)
  case (Cons now nows)
  show ?case
  proof (cases nows)
    case Nil
    with Cons.prems show ?thesis by (simp add: display_launch_timing_def)
  next
    case (Cons x xs)
    let ?t = "t\<lparr>last_display := now\<rparr>"
    have "sum_list (map (\<lambda>d. fst (the d)) (displays nows ?t)) =
        snd (the (last (displays nows ?t))) - (now - launch_time t)"
      using Cons.IH [of ?t] Cons.prems Cons by simp
    moreover have "displays nows ?t \<noteq> []" using Cons by (simp del: displays.simps)
    ultimately show ?thesis using Cons.prems(1) by (simp add: display_launch_timing_def)
  qed
qed simp

text \<open>The times between the displays add up to the time since the launch, wrap-around included.\<close>

lemma timings_add_up:
  assumes "t = init_launch_timing start" "start \<noteq> 0" "nows \<noteq> []"
  shows "sum_list (map (\<lambda>d. fst (the d)) (displays nows t)) = last nows - start"
proof -
  have "snd (the (last (displays nows t))) = last nows - start" if "launch_time t = start" for t
    using that assms(2,3)
    by (induction nows arbitrary: t) (auto simp: display_launch_timing_def)
  then show ?thesis using displays_from [of t nows] assms by (simp add: init_launch_timing_def)
qed

section \<open>What holds after the start\<close>


fun calls :: "startup list \<Rightarrow> string list" where
  "calls [] = []"
| "calls (Call_function f args # as) = f # calls as"
| "calls (a # as) = calls as"

text \<open>The timings that are shown: those for which no sender is set.\<close>

fun shown :: "sender option \<Rightarrow> startup list \<Rightarrow> string list" where
  "shown s [] = []"
| "shown s (Shown l # as) = (if s = None then l # shown s as else shown s as)"
| "shown s (Set_sender s' # as) = shown s' as"
| "shown s (a # as) = shown s as"

lemma calls_append [simp]: "calls (xs @ ys) = calls xs @ calls ys"
  by (induction xs rule: calls.induct) auto

lemma calls_natives [simp]: "calls (map register_global_function ps) = []"
  by (induction ps) (auto simp: register_global_function_def)

















text \<open>The timings of the phases in which printing is discarded are never shown.\<close>

lemma timings_discarded:
  "shown None (init_clojurescript version ex c) = [''engine ready'']"
  by (simp add: init_clojurescript_def set_print_sender_actions_def set_print_sender_def
      call_reporting_def maybe_load_user_file_def init_paredit_def)

end
