(* ===== verification/Sockets.thy ===== *)
theory Sockets
  imports Io Js
begin

text \<open>
  \<open>sockets.c\<close> and the functions of \<open>functions.c\<close> over it. What the system calls return is a
  list of results. The callbacks of a connection work on a state of their own; a received part
  is what one \<open>recv\<close> delivered, at most 4095 bytes, and the list of parts ends where \<open>recv\<close>
  returns 0 or fails.
\<close>

section \<open>Writing\<close>

text \<open>One turn: \<open>select\<close> fails, or is followed by a \<open>write\<close>.\<close>

datatype sock_event = Select_fails int | Select_ok wres

text \<open>The result and what has been sent; \<open>None\<close> where the events run out.\<close>

fun write_to_socket :: "sock_event list \<Rightarrow> string \<Rightarrow> string \<Rightarrow> (int \<times> string) option" where
  "write_to_socket [] rest sent = None"
| "write_to_socket (Select_fails e # es) rest sent =
     (if e = EINTR then write_to_socket es rest sent else Some (-1, sent))"
| "write_to_socket (Select_ok (Werr e) # es) rest sent = Some (-1, sent)"
| "write_to_socket (Select_ok (Wrote k) # es) rest sent =
     (let len = length rest; n = min k len in
      if n = len then Some (0, sent @ take n rest)
      else write_to_socket es (drop n rest) (sent @ take n rest))"

section \<open>Connections\<close>

record conn_data_ret =
  cd_err :: int
  cd_close :: bool

text \<open>The state behind the callbacks, and whether the handler has closed the socket.\<close>

type_synonym 's conn_data_cb = "string option \<Rightarrow> 's \<Rightarrow> conn_data_ret \<times> 's"

fun conn_loop :: "'s conn_data_cb \<Rightarrow> string list \<Rightarrow> int \<Rightarrow> 's \<Rightarrow> bool \<times> 's" where
  "conn_loop cb [] err s = (False, s)"
| "conn_loop cb (d # ds) err s =
     (if err \<noteq> 0 then (False, s)
      else let (r, s') = cb (Some (c_string (take 4095 d))) s in
        if cd_close r then (True, s') else conn_loop cb ds (cd_err r) s')"

definition conn_handler ::
  "('s \<Rightarrow> int \<times> 's) option \<Rightarrow> 's conn_data_cb \<Rightarrow> string list \<Rightarrow> 's \<Rightarrow> bool \<times> 's" where
  "conn_handler accepted cb recvs s =
     (let (err, s1) = (case accepted of None \<Rightarrow> (0, s) | Some f \<Rightarrow> f s);
          (closed, s2) = conn_loop cb recvs err s1 in
      (closed, snd (cb None s2)))"

text \<open>The reader of a connection Planck has made; what the callback returns is not looked at.\<close>

fun inbound_loop :: "'s conn_data_cb \<Rightarrow> string list \<Rightarrow> 's \<Rightarrow> 's" where
  "inbound_loop cb [] s = s"
| "inbound_loop cb (d # ds) s = inbound_loop cb ds (snd (cb (Some (c_string (take 4095 d))) s))"

definition read_inbound_socket_data :: "'s conn_data_cb \<Rightarrow> string list \<Rightarrow> 's \<Rightarrow> 's" where
  "read_inbound_socket_data cb recvs s = snd (cb None (inbound_loop cb recvs s))"

text \<open>
  Listening: the results of \<open>socket\<close>, \<open>bind\<close> and \<open>listen\<close> (\<open>-1\<close> on failure); the result and
  the descriptor stored.
\<close>

definition bind_and_listen :: "int \<Rightarrow> int \<Rightarrow> int \<Rightarrow> int \<times> int option" where
  "bind_and_listen sock bind_rv listen_rv =
     (if sock = -1 then (-1, None)
      else if bind_rv = -1 then (-1, Some sock)
      else (listen_rv, Some sock))"

text \<open>
  Accepting: the descriptors for which handlers are started. The loop ends at descriptor 0 only;
  \<open>pthread_create\<close> reports errors by positive numbers, so that its test is for nothing. The flag
  tells whether the failure of \<open>accept\<close> is reported.
\<close>

fun accept_loop :: "int list \<Rightarrow> int list \<Rightarrow> (int list \<times> bool) option" where
  "accept_loop [] created = None"
| "accept_loop (new_socket # rest) created =
     (if new_socket = 0 then Some ([], new_socket < 0)
      else case created of
        [] \<Rightarrow> None
      | c # cs \<Rightarrow>
          if c < 0 then Some ([new_socket], False)
          else map_option (\<lambda>(hs, f). (new_socket # hs, f)) (accept_loop rest cs))"

definition accept_connections :: "int list \<Rightarrow> int list \<Rightarrow> (int list \<times> bool) option" where
  "accept_connections accepts created = accept_loop accepts created"

definition close_socket :: "(int \<Rightarrow> int) \<Rightarrow> int \<Rightarrow> int" where
  "close_socket shutdown fd = shutdown fd"

text \<open>Connecting: the descriptor, \<open>-1\<close> on failure, and whether a reader has been started.\<close>

definition connect_socket :: "int \<Rightarrow> bool \<Rightarrow> int \<Rightarrow> int \<Rightarrow> int \<times> bool" where
  "connect_socket sock host_found connect_rv created =
     (if sock = -1 then (-1, False)
      else if \<not> host_found then (-1, False)
      else if connect_rv = -1 then (-1, False)
      else if created < 0 then (-1, False)
      else (sock, True))"

section \<open>The functions for JavaScript\<close>

text \<open>The calls of the callbacks written in JavaScript: which one, and its arguments.\<close>

datatype js_call = Accept_cb int | Data_cb int js

definition socket_conn_data_arrived :: "int \<Rightarrow> js_call list conn_data_cb" where
  "socket_conn_data_arrived sock data calls =
     (\<lparr>cd_err = 0, cd_close = False\<rparr>,
      calls @ [Data_cb sock (case data of Some d \<Rightarrow> JStr d | None \<Rightarrow> JNull)])"

definition accepted_socket_connection :: "int \<Rightarrow> js_call list \<Rightarrow> int \<times> js_call list" where
  "accepted_socket_connection sock calls = (0, calls @ [Accept_cb sock])"

text \<open>The value returned and the message of an exception.\<close>

definition function_socket_connect ::
  "(string \<Rightarrow> int \<Rightarrow> int \<times> bool) \<Rightarrow> string \<Rightarrow> js list \<Rightarrow> js \<times> string option" where
  "function_socket_connect connect err args =
     (case args of
        [a, b, c] \<Rightarrow>
          if is_str a \<and> is_num b \<and> is_obj c
          then let sock = fst (connect (the (value_to_c_string a)) (c_int (to_number b))) in
            if sock = -1 then (JNull, Some err) else (JNum sock, None)
          else (JNull, None)
      | _ \<Rightarrow> (JNull, None))"

text \<open>Whether the thread that accepts connections has been started.\<close>

definition function_socket_listen :: "(int \<Rightarrow> int \<times> int option) \<Rightarrow> string \<Rightarrow> js list \<Rightarrow> bool \<times> string option" where
  "function_socket_listen listen err args =
     (case args of
        [a, b] \<Rightarrow>
          if is_num a \<and> is_obj b
          then (if fst (listen (c_int (to_number a))) = -1 then (False, Some err) else (True, None))
          else (False, None)
      | _ \<Rightarrow> (False, None))"

definition function_socket_write ::
  "(int \<Rightarrow> sock_event list) \<Rightarrow> string \<Rightarrow> js list \<Rightarrow> (string \<times> string option) option" where
  "function_socket_write events err args =
     (case args of
        [a, b] \<Rightarrow>
          if is_num a \<and> is_str b
          then map_option (\<lambda>(rv, sent). (sent, if rv = -1 then Some err else None))
            (write_to_socket (events (c_int (to_number a))) (the (value_to_c_string b)) [])
          else Some ([], None)
      | _ \<Rightarrow> Some ([], None))"

definition function_socket_close :: "(int \<Rightarrow> int) \<Rightarrow> string \<Rightarrow> js list \<Rightarrow> js \<times> string option" where
  "function_socket_close shutdown err args =
     (case args of
        [a] \<Rightarrow>
          if is_num a
          then (JNull, if close_socket shutdown (c_int (to_number a)) = -1 then Some err else None)
          else (JNull, None)
      | _ \<Rightarrow> (JNull, None))"

section \<open>What they do\<close>

text \<open>How many writes could move something, when nothing fails for good.\<close>

fun moves :: "sock_event list \<Rightarrow> nat" where
  "moves [] = 0"
| "moves (Select_ok (Wrote (Suc k)) # es) = Suc (moves es)"
| "moves (_ # es) = moves es"

definition sock_ok :: "sock_event \<Rightarrow> bool" where
  "sock_ok ev = (case ev of Select_fails e \<Rightarrow> e = EINTR | Select_ok (Werr e) \<Rightarrow> False | Select_ok (Wrote k) \<Rightarrow> True)"

lemma write_to_socket_sent:
  "write_to_socket es rest sent = Some (rv, out) \<Longrightarrow>
   (rv = 0 \<and> out = sent @ rest) \<or> (rv = -1 \<and> (\<exists>n. out = sent @ take n rest))"
proof (induction es rest sent rule: write_to_socket.induct)
  case (2 e es rest sent)
  then show ?case by (auto split: if_splits intro: exI [of _ 0])
next
  case (3 e es rest sent)
  then show ?case by (auto intro: exI [of _ 0])
next
  case (4 k es rest sent)
  let ?n = "min k (length rest)"
  show ?case
  proof (cases "?n = length rest")
    case True
    with "4.prems" show ?thesis by auto
  next
    case False
    with "4.prems" have "write_to_socket es (drop ?n rest) (sent @ take ?n rest) = Some (rv, out)"
      by (auto simp: Let_def min_def split: if_splits)
    from "4.IH" [OF refl refl False this] show ?thesis
      by (auto simp: take_add [symmetric] simp flip: take_add)
  qed
qed auto

text \<open>
  A write that meets no error but interruptions, and can move as many times as the text has
  bytes, returns 0 and has sent the whole text; a result of 0 is never given for less.
\<close>

lemma write_to_socket_complete:
  "list_all sock_ok es \<Longrightarrow> length rest \<le> moves es \<Longrightarrow> rest \<noteq> [] \<Longrightarrow>
   write_to_socket es rest sent = Some (0, sent @ rest)"
proof (induction es rest sent rule: write_to_socket.induct)
  case (2 e es rest sent)
  then show ?case by (simp add: sock_ok_def)
next
  case (4 k es rest sent)
  let ?n = "min k (length rest)"
  show ?case
  proof (cases "?n = length rest")
    case True
    then show ?thesis by (simp add: Let_def)
  next
    case False
    then have "drop ?n rest \<noteq> []" by auto
    moreover have "length (drop ?n rest) \<le> moves es"
      using "4.prems"(2) False by (cases k) auto
    moreover have "list_all sock_ok es" using "4.prems"(1) by simp
    ultimately have "write_to_socket es (drop ?n rest) (sent @ take ?n rest) =
        Some (0, (sent @ take ?n rest) @ drop ?n rest)"
      using "4.IH" [OF refl refl False] by blast
    with False show ?thesis by (simp add: Let_def)
  qed
qed (auto simp: sock_ok_def)

text \<open>A listener in JavaScript is told of the connection, of every part received in turn, and of the end.\<close>

lemma conn_handler_calls:
  "conn_handler (Some (accepted_socket_connection sock)) (socket_conn_data_arrived sock) recvs calls =
    (False, calls @ Accept_cb sock # map (\<lambda>d. Data_cb sock (JStr (c_string (take 4095 d)))) recvs @ [Data_cb sock JNull])"
proof -
  have "conn_loop (socket_conn_data_arrived sock) recvs 0 cs =
      (False, cs @ map (\<lambda>d. Data_cb sock (JStr (c_string (take 4095 d)))) recvs)" for cs
    by (induction recvs arbitrary: cs) (auto simp: socket_conn_data_arrived_def)
  then show ?thesis
    by (simp add: conn_handler_def accepted_socket_connection_def socket_conn_data_arrived_def)
qed

text \<open>
  What the callback answers to the end of the input is not looked at: if it did not ask for the
  socket to be closed before, the socket stays open.
\<close>

lemma peer_end_leaves_open:
  assumes "\<And>d s'. \<not> cd_close (fst (cb (Some d) s'))"
  shows "\<not> fst (conn_handler accepted cb recvs s)"
proof -
  have "\<not> fst (conn_loop cb recvs err s')" for err s'
    using assms by (induction recvs arbitrary: err s') (auto simp: Let_def case_prod_unfold)
  then show ?thesis by (simp add: conn_handler_def Let_def case_prod_unfold)
qed

text \<open>A failing \<open>accept\<close> starts a handler for descriptor \<open>-1\<close>, and is never reported.\<close>

lemma accept_failure_handled:
  "accept_connections (-1 # rest) (0 # cs) = map_option (\<lambda>(hs, f). (-1 # hs, f)) (accept_connections rest cs)"
  by (simp add: accept_connections_def)

lemma accept_failure_silent: "accept_connections accepts created = Some (hs, f) \<Longrightarrow> \<not> f"
  unfolding accept_connections_def
  by (induction accepts created arbitrary: hs rule: accept_loop.induct)
    (auto split: if_splits list.splits)

end
