(* ===== verification/Line_Raw.thy ===== *)
theory Line_Raw
  imports Line_Run Io
begin

text \<open>
  The entry points of \<open>linenoise.c\<close>: the modes of the terminal, the loop of \<open>linenoiseRaw\<close> that
  collects the lines of a pasted form, \<open>linenoise\<close> itself, and printing while a line is edited.

  \<open>console\<close> adds to the state of the editor the mode that the terminal is in, the answers of
  \<open>isatty\<close>, \<open>tcgetattr\<close> and \<open>tcsetattr\<close> (a list, at whose end the calls succeed), and the static
  variables for the terminal. A turn of the loop comes with what its uninitialised array holds
  and how the look at the next byte goes; where the turns end the model is \<open>Spinning\<close>.
\<close>

unbundle bit_operations_syntax

section \<open>Raw mode\<close>

text \<open>The flags as on Linux.\<close>

abbreviation BRKINT :: "32 word" where "BRKINT \<equiv> 0x2"
abbreviation ICRNL :: "32 word" where "ICRNL \<equiv> 0x100"
abbreviation INPCK :: "32 word" where "INPCK \<equiv> 0x10"
abbreviation ISTRIP :: "32 word" where "ISTRIP \<equiv> 0x20"
abbreviation IXON :: "32 word" where "IXON \<equiv> 0x400"
abbreviation OPOST :: "32 word" where "OPOST \<equiv> 0x1"
abbreviation CS8 :: "32 word" where "CS8 \<equiv> 0x30"
abbreviation ECHO :: "32 word" where "ECHO \<equiv> 0x8"
abbreviation ICANON :: "32 word" where "ICANON \<equiv> 0x2"
abbreviation IEXTEN :: "32 word" where "IEXTEN \<equiv> 0x8000"
abbreviation ISIG :: "32 word" where "ISIG \<equiv> 0x1"

record termios =
  c_iflag :: "32 word"
  c_oflag :: "32 word"
  c_cflag :: "32 word"
  c_lflag :: "32 word"
  c_vmin :: nat
  c_vtime :: nat

record console =
  c_ed :: ed
  c_mode :: termios
  c_isatty :: bool
  c_getattr :: bool
  c_setattr :: "bool list"
  s_orig_termios :: termios
  s_rawmode :: bool
  s_atexit :: bool

definition tcsetattr :: "termios \<Rightarrow> console \<Rightarrow> bool \<times> console" where
  "tcsetattr m c =
     (case c_setattr c of
        [] \<Rightarrow> (True, c\<lparr>c_mode := m\<rparr>)
      | b # bs \<Rightarrow> (b, (if b then c\<lparr>c_mode := m\<rparr> else c)\<lparr>c_setattr := bs\<rparr>))"

definition console_ev :: "event \<Rightarrow> console \<Rightarrow> console" where
  "console_ev v c = c\<lparr>c_ed := emit_ev v (c_ed c)\<rparr>"

definition raw_of :: "termios \<Rightarrow> termios" where
  "raw_of t = t\<lparr>
     c_iflag := c_iflag t AND NOT (BRKINT OR ICRNL OR INPCK OR ISTRIP OR IXON),
     c_oflag := c_oflag t AND NOT OPOST,
     c_cflag := c_cflag t OR CS8,
     c_lflag := c_lflag t AND NOT (ECHO OR ICANON OR IEXTEN OR ISIG),
     c_vmin := 1, c_vtime := 0\<rparr>"

definition enableRawMode :: "console \<Rightarrow> int \<times> console" where
  "enableRawMode c =
     (if \<not> c_isatty c then (-1, console_ev Errno_notty c)
      else let c1 = c\<lparr>s_atexit := True\<rparr> in
        if \<not> c_getattr c1 then (-1, console_ev Errno_notty c1)
        else let c2 = c1\<lparr>s_orig_termios := c_mode c1\<rparr>;
                 (ok, c3) = tcsetattr (raw_of (s_orig_termios c2)) c2 in
          if ok then (0, c3\<lparr>s_rawmode := True\<rparr>) else (-1, console_ev Errno_notty c3))"

definition disableRawMode :: "console \<Rightarrow> console" where
  "disableRawMode c =
     (if s_rawmode c
      then let (ok, c1) = tcsetattr (s_orig_termios c) c in
        if ok then c1\<lparr>s_rawmode := False\<rparr> else c1
      else c)"

text \<open>At exit; the history is freed as well, which nothing sees.\<close>

definition linenoiseAtExit :: "console \<Rightarrow> console" where
  "linenoiseAtExit c = disableRawMode c"

section \<open>Reading ahead\<close>

text \<open>
  Whether a byte (or the end of the input) is there when the loop looks, and whether the two
  calls of \<open>fcntl\<close> succeed. Where the first fails the read blocks.
\<close>

record peek =
  pk_there :: bool
  pk_set :: bool
  pk_reset :: bool

definition get_next_char :: "peek \<Rightarrow> ed \<Rightarrow> char \<times> ed" where
  "get_next_char p e =
     (let e1 = (if pk_set p then e else emit_ev (Note ''Failed to set `O_NONBLOCK` on `STDIN_FILENO`'') e);
          (nread, c, e2) = (if pk_there p \<or> \<not> pk_set p then tty_read NUL e1 else (-1, NUL, e1));
          c' = (if nread = -1 then NUL else c);
          e3 = (if pk_reset p then e2
                else emit_ev (Note ''Failed to turn off `O_NONBLOCK` on `STDIN_FILENO`'') e2)
      in (c', emit_ev Errno_reset e3))"

section \<open>Collecting the lines\<close>

text \<open>
  \<open>accum_buf\<close> with \<open>accum_count\<close>: \<open>count\<close> bytes of \<open>buf\<close> are added, after a line end unless
  nothing was collected before.
\<close>

definition grow_accum :: "nat \<Rightarrow> rbuf \<Rightarrow> rbuf" where
  "grow_accum count a =
     (if r_offset a + count + 2 > length (r_data a)
      then a\<lparr>r_data := realloc_c (r_data a) (length (r_data a) * 2)\<rparr> else a)"

definition add_line :: "nat \<Rightarrow> string \<Rightarrow> rbuf \<Rightarrow> rbuf option" where
  "add_line count buf a =
     do {
       let a1 = grow_accum count a;
       a2 \<leftarrow> (if r_offset a1 \<noteq> 0 then read_chunk a1 [LF] else Some a1);
       s \<leftarrow> block_c buf 0 count;
       a3 \<leftarrow> read_chunk a2 s;
       d \<leftarrow> wr (r_data a3) (r_offset a3) (Some NUL);
       Some (a3\<lparr>r_data := d\<rparr>)
     }"

definition accum_init :: rbuf where
  "accum_init = \<lparr>r_data = replicate (2 * LINENOISE_MAX_LINE) None, r_offset = 0\<rparr>"

text \<open>\<open>n\<close> is the fuel of the editor; \<open>None\<close> is the NULL result.\<close>

fun raw_loop ::
  "nat \<Rightarrow> string \<Rightarrow> nat \<Rightarrow> (string \<times> peek) list \<Rightarrow> string \<Rightarrow> char \<Rightarrow> rbuf \<Rightarrow> ed \<Rightarrow> (rbuf option \<times> ed) run" where
  "raw_loop n secondary spaces [] prompt peeked a e = Spinning"
| "raw_loop n secondary spaces ((buf, p) # ts) prompt peeked a e =
     bind_run (linenoiseEdit n buf prompt spaces peeked e) (\<lambda>(count, e1).
       if count = -1 then Done (None, e1)
       else bind_run (lift (add_line (nat count) (l_buf e1) a)) (\<lambda>a1.
         let (c, e2) = get_next_char p e1 in
         if c \<noteq> NUL
         then raw_loop n secondary spaces ts secondary c a1 ((emit_ev (Stdio [LF]) e2)\<lparr>s_pasting := True\<rparr>)
         else Done (Some a1, e2)))"

text \<open>The text collected, as the C string that the caller gets.\<close>

definition read_lines ::
  "nat \<Rightarrow> string \<Rightarrow> nat \<Rightarrow> (string \<times> peek) list \<Rightarrow> string \<Rightarrow> ed \<Rightarrow> (string option \<times> ed) run" where
  "read_lines n secondary spaces ts prompt e =
     bind_run (raw_loop n secondary spaces ts prompt NUL accum_init e) (\<lambda>(a, e1).
       case a of
         None \<Rightarrow> Done (None, e1)
       | Some b \<Rightarrow> bind_run (lift (buf_string (r_data b))) (\<lambda>s. Done (Some s, e1)))"

section \<open>Reading without an editor\<close>

text \<open>
  \<open>fgets\<close> on the input: at most \<open>n\<close> bytes, up to a line end; then whether it ended with the
  input (0) or an error (\<open>-1\<close>).
\<close>

fun stdin_bytes :: "nat \<Rightarrow> ed \<Rightarrow> string \<times> int \<times> ed" where
  "stdin_bytes 0 e = ([], 1, e)"
| "stdin_bytes (Suc n) e =
     (let (nread, c, e1) = tty_read NUL e in
      if nread \<noteq> 1 then ([], nread, e1)
      else if c = LF then ([c], 1, e1)
      else let (s, r, e2) = stdin_bytes n e1 in (c # s, r, e2))"

definition fgets_stdin :: "ed \<Rightarrow> string option \<times> ed" where
  "fgets_stdin e =
     (let (s, r, e1) = stdin_bytes (LINENOISE_MAX_LINE - 1) e in
      (if r = -1 \<or> s = [] then None else Some (c_string s), e1))"

definition chomp :: "string \<Rightarrow> string" where
  "chomp s = (if s \<noteq> [] \<and> last s = LF then butlast s else s)"

definition strip_line_ends :: "string \<Rightarrow> string" where
  "strip_line_ends s = rev (dropWhile (\<lambda>c. c = LF \<or> c = CHR 0x0D) (rev s))"

definition linenoiseRaw ::
  "nat \<Rightarrow> (string \<times> peek) list \<Rightarrow> string \<Rightarrow> string \<Rightarrow> nat \<Rightarrow> console \<Rightarrow> (string option \<times> console) run" where
  "linenoiseRaw n ts prompt secondary spaces c =
     (if \<not> c_isatty c
      then (let (s, e) = fgets_stdin (c_ed c) in Done (map_option chomp s, c\<lparr>c_ed := e\<rparr>))
      else let (r, c1) = enableRawMode c in
        if r = -1 then Done (None, console_ev (Note ''failed to enable raw mode'') c1)
        else bind_run (read_lines n secondary spaces ts prompt (c_ed c1)) (\<lambda>(s, e).
          Done (s, console_ev (Stdio [LF]) (disableRawMode (c1\<lparr>c_ed := e\<rparr>)))))"

definition to_lower :: "char \<Rightarrow> char" where
  "to_lower c = (if 65 \<le> (of_char c :: nat) \<and> (of_char c :: nat) \<le> 90 then char_of (of_char c + 32 :: nat) else c)"

definition isUnsupportedTerm :: "string option \<Rightarrow> bool" where
  "isUnsupportedTerm name =
     (case name of
        None \<Rightarrow> False
      | Some s \<Rightarrow> map to_lower s \<in> {''dumb'', ''cons25'', ''emacs''})"

definition linenoise ::
  "nat \<Rightarrow> (string \<times> peek) list \<Rightarrow> string option \<Rightarrow> string \<Rightarrow> string \<Rightarrow> string \<Rightarrow> nat \<Rightarrow> console \<Rightarrow>
   (string option \<times> console) run" where
  "linenoise n ts name prompt secondary ansi spaces c =
     (if isUnsupportedTerm name
      then (let (s, e) = fgets_stdin (emit_ev (Stdio prompt) (c_ed c)) in
        Done (map_option strip_line_ends s, c\<lparr>c_ed := e\<rparr>))
      else linenoiseRaw n ts prompt secondary spaces (c\<lparr>c_ed := (c_ed c)\<lparr>s_ansi := ansi\<rparr>\<rparr>))"

section \<open>Printing while a line is edited\<close>

definition linenoisePrintNow :: "string \<Rightarrow> ed \<Rightarrow> ed option" where
  "linenoisePrintNow txt0 e =
     (if txt0 = [LF] then Some e
      else let e1 = emit_ev (Stdio ([CHR 0x0D] @ erase_right @ txt0 @ [LF])) e in
        if s_active e1 then refreshLine e1 else Some e1)"

section \<open>A resized window\<close>

definition sigwinchHandler :: "ed \<Rightarrow> ed" where
  "sigwinchHandler e =
     (if s_active e
      then let (cols, e1) = getColumns e in e1\<lparr>l_cols := nat (cols mod 2 ^ 64)\<rparr>
      else e)"

section \<open>Settings\<close>

definition linenoiseSetMultiLine :: "bool \<Rightarrow> ed \<Rightarrow> ed" where
  "linenoiseSetMultiLine ml e = e\<lparr>s_mlmode := ml\<rparr>"

definition linenoiseSetCompletionCallback :: "(string \<Rightarrow> string list) option \<Rightarrow> ed \<Rightarrow> ed" where
  "linenoiseSetCompletionCallback fn e = e\<lparr>e_complete := fn\<rparr>"

definition linenoiseSetHighlightCallback :: "bool \<Rightarrow> ed \<Rightarrow> ed" where
  "linenoiseSetHighlightCallback fn e = e\<lparr>e_hl := fn\<rparr>"

definition linenoiseSetHighlightCancelCallback :: "bool \<Rightarrow> ed \<Rightarrow> ed" where
  "linenoiseSetHighlightCancelCallback fn e = e\<lparr>e_hlcancel := fn\<rparr>"

section \<open>Key codes\<close>

text \<open>\<open>%02x\<close> of an \<open>int\<close>.\<close>

fun show_hex :: "nat \<Rightarrow> string" where
  "show_hex n =
     (if n < 16 then [''0123456789abcdef'' ! n] else show_hex (n div 16) @ [''0123456789abcdef'' ! (n mod 16)])"

declare show_hex.simps [simp del]

definition hex2 :: "int \<Rightarrow> string" where
  "hex2 i = (let h = show_hex (nat (i mod 2 ^ 32)) in if length h < 2 then CHR ''0'' # h else h)"

definition isprint :: "char \<Rightarrow> bool" where
  "isprint c \<longleftrightarrow> 32 \<le> (of_char c :: nat) \<and> (of_char c :: nat) < 127"

definition key_code_line :: "char \<Rightarrow> string" where
  "key_code_line c =
     [CHR 0x27, if isprint c then c else CHR ''?'', CHR 0x27] @ '' '' @ hex2 (schar c) @ '' ('' @
     show_int (schar c) @ '') (type quit to exit)'' @ [LF]"

text \<open>A read that fails or ends is repeated; \<open>quit\<close> are the last four bytes.\<close>

fun key_codes_loop :: "nat \<Rightarrow> string \<Rightarrow> ed \<Rightarrow> ed run" where
  "key_codes_loop 0 quit e = Spinning"
| "key_codes_loop (Suc n) quit e =
     (let (nread, c, e1) = tty_read NUL e in
      if nread \<le> 0 then key_codes_loop n quit e1
      else let quit' = drop 1 quit @ [c] in
        if quit' = ''quit'' then Done e1
        else key_codes_loop n quit' (emit_ev (Stdio [CHR 0x0D]) (emit_ev (Stdio (key_code_line c)) e1)))"

definition linenoisePrintKeyCodes :: "nat \<Rightarrow> console \<Rightarrow> console run" where
  "linenoisePrintKeyCodes n c =
     (let c0 = console_ev (Stdio (''Linenoise key codes debugging mode.'' @ [LF] @
            ''Press keys to see scan codes. Type '' @ [CHR 0x27] @ ''quit'' @ [CHR 0x27] @
            '' at any time to exit.'' @ [LF])) c;
          (r, c1) = enableRawMode c0
      in if r = -1 then Done c1
         else bind_run (key_codes_loop n (replicate 4 (CHR '' '')) (c_ed c1)) (\<lambda>e.
           Done (disableRawMode (c1\<lparr>c_ed := e\<rparr>))))"

end
