(* ===== verification/Line_Raw_Props.thy ===== *)
theory Line_Raw_Props
  imports Line_Raw Line_Props
begin

text \<open>
  What \<open>linenoise\<close> returns and how it leaves the terminal: the lines of a pasted form come back
  joined, and the mode of the terminal is restored on every way out.
\<close>

section \<open>The collected lines\<close>

text \<open>The lines that the editor returns, one turn after the other.\<close>

fun edited_lines ::
  "nat \<Rightarrow> string \<Rightarrow> nat \<Rightarrow> (string \<times> peek) list \<Rightarrow> string \<Rightarrow> char \<Rightarrow> ed \<Rightarrow> (string list option \<times> ed) run" where
  "edited_lines n secondary spaces [] prompt peeked e = Spinning"
| "edited_lines n secondary spaces ((buf, p) # ts) prompt peeked e =
     bind_run (linenoiseEdit n buf prompt spaces peeked e) (\<lambda>(count, e1).
       if count = -1 then Done (None, e1)
       else let l = take (nat count) (l_buf e1); (c, e2) = get_next_char p e1 in
         if c \<noteq> NUL
         then bind_run (edited_lines n secondary spaces ts secondary c ((emit_ev (Stdio [LF]) e2)\<lparr>s_pasting := True\<rparr>))
           (\<lambda>(ls, e3). Done (map_option ((#) l) ls, e3))
         else Done (Some [l], e2))"

text \<open>A line end stands between two lines, but not after lines that are all empty.\<close>

definition join_line :: "string \<Rightarrow> string \<Rightarrow> string" where
  "join_line t l = (if t = [] then l else t @ LF # l)"

definition collected :: "string \<Rightarrow> rbuf \<Rightarrow> bool" where
  "collected t a \<longleftrightarrow> r_offset a = length t \<and> length t < length (r_data a) \<and>
     4096 \<le> length (r_data a) \<and> take (length t) (r_data a) = map Some t"

lemma collected_init: "collected [] accum_init"
  by (simp add: collected_def accum_init_def)

lemma grow_accum_ok:
  assumes "collected t a" "count \<le> 4095"
  shows "collected t (grow_accum count a)" "length t + count + 2 \<le> length (r_data (grow_accum count a))"
  using assms by (auto simp: collected_def grow_accum_def realloc_c_def)

lemma read_chunk_collected:
  assumes "r_offset a = length t" "take (length t) (r_data a) = map Some t"
    "length t + length s < length (r_data a)"
  shows "read_chunk a s = Some (a\<lparr>r_data := map Some (t @ s) @ drop (length (t @ s)) (r_data a),
      r_offset := length (t @ s)\<rparr>)"
  using assms by (simp add: read_chunk_def)

lemma add_line_ok:
  assumes "collected t a" "count \<le> 4095" "count \<le> length buf"
  shows "\<exists>a'. add_line count buf a = Some a' \<and> collected (join_line t (take count buf)) a' \<and>
    buf_string (r_data a') = Some (c_string (join_line t (take count buf)))"
proof -
  define a1 where "a1 = grow_accum count a"
  note g = grow_accum_ok [OF assms(1,2), folded a1_def]
  define t1 where "t1 = (if t = [] then [] else t @ [LF])"
  define a2 where "a2 = a1\<lparr>r_data := map Some t1 @ drop (length t1) (r_data a1), r_offset := length t1\<rparr>"
  let ?s = "take count buf"
  have len: "length t1 + length ?s < length (r_data a1)" using g(2) assms(3) by (simp add: t1_def)
  have front: "r_offset a1 = length t" "take (length t) (r_data a1) = map Some t"
    using g(1) by (simp_all add: collected_def)
  have a2: "(if r_offset a1 \<noteq> 0 then read_chunk a1 [LF] else Some a1) = Some a2"
    using front g(2) read_chunk_collected [OF front, of "[LF]"] by (auto simp: a2_def t1_def)
  have l: "join_line t ?s = t1 @ ?s" by (simp add: join_line_def t1_def)
  define d where "d = map Some (t1 @ ?s) @ drop (length (t1 @ ?s)) (r_data a1)"
  have a3: "read_chunk a2 ?s = Some (a2\<lparr>r_data := d, r_offset := length (t1 @ ?s)\<rparr>)"
    using len read_chunk_collected [of a2 t1 ?s] by (simp add: a2_def d_def add.commute)
  have room: "length (t1 @ ?s) < length (r_data a1)" using len by simp
  define d' where "d' = map Some (t1 @ ?s) @ Some NUL # drop (Suc (length (t1 @ ?s))) (r_data a1)"
  have "d = map Some (t1 @ ?s) @ r_data a1 ! length (t1 @ ?s) # drop (Suc (length (t1 @ ?s))) (r_data a1)"
    unfolding d_def using room by (simp only: Cons_nth_drop_Suc)
  then have "wr d (length (t1 @ ?s)) (Some NUL) = Some d'"
    using room by (simp add: wr_def d'_def list_update_append)
  then have run: "add_line count buf a = Some (a2\<lparr>r_data := d', r_offset := length (t1 @ ?s)\<rparr>)"
    using a2 a3 assms(3) unfolding add_line_def Let_def a1_def [symmetric] by (simp add: block_c_def)
  have "collected (t1 @ ?s) (a2\<lparr>r_data := d', r_offset := length (t1 @ ?s)\<rparr>)"
    using g(1) room by (auto simp: collected_def d'_def)
  moreover have "buf_string d' = Some (c_string (t1 @ ?s))"
    unfolding d'_def by (rule buf_string_terminated)
  ultimately show ?thesis using run l by auto
qed

text \<open>Looking ahead keeps what the editor needs.\<close>

lemma get_next_char_ready:
  assumes "edit_ready e" "get_next_char p e = (c, e1)"
  shows "edit_ready ((emit_ev v e1)\<lparr>s_pasting := True\<rparr>)"
    "c \<noteq> NUL \<Longrightarrow> no_meta_b (key e1 KM_ESC) (Some c # e_input e1)"
    "s_keymap e1 = s_keymap e" "suffix (e_input e1) (e_input e)"
proof -
  have c: "e_input e = Some c # e_input e1 \<or> c = NUL \<and> suffix (e_input e1) (e_input e)"
    using assms(2) by (auto simp: get_next_char_def tty_read_def emit_ev_def suffix_Cons Let_def
        split: if_splits list.splits option.splits prod.splits)
  then show suf: "suffix (e_input e1) (e_input e)" by (auto simp: suffix_Cons)
  have e1: "e1 = e\<lparr>e_input := e_input e1, e_trace := e_trace e1\<rparr>"
    using assms(2) by (auto simp: get_next_char_def tty_read_def emit_ev_def Let_def
        split: if_splits list.splits option.splits prod.splits)
  show km: "s_keymap e1 = s_keymap e" by (subst e1) simp
  have nm: "no_meta_b (key e KM_ESC) (e_input e)" using assms(1) by (simp add: edit_ready_def)
  note nm' = no_meta_b_suffix [OF suf nm]
  then show "edit_ready ((emit_ev v e1)\<lparr>s_pasting := True\<rparr>)"
    using assms(1) by (subst e1) (simp add: edit_ready_def complete_ok_def key_def emit_ev_def)
  show "no_meta_b (key e1 KM_ESC) (Some c # e_input e1)" if "c \<noteq> NUL"
    using c that nm km by (simp add: key_def)
qed

text \<open>The loop collects what the editor returns.\<close>

lemma raw_loop_collects:
  assumes "edit_ready e" "no_meta_b (key e KM_ESC) (Some peeked # e_input e)"
    "\<forall>(buf, p) \<in> set ts. length buf = 4096" "collected t a"
  shows "case edited_lines n secondary spaces ts prompt peeked e of
      Crash \<Rightarrow> False
    | Spinning \<Rightarrow> raw_loop n secondary spaces ts prompt peeked a e = Spinning
    | Done (None, e') \<Rightarrow> raw_loop n secondary spaces ts prompt peeked a e = Done (None, e') \<and> edit_ready e'
    | Done (Some ls, e') \<Rightarrow> \<exists>a'. raw_loop n secondary spaces ts prompt peeked a e = Done (Some a', e') \<and>
        edit_ready e' \<and> buf_string (r_data a') = Some (c_string (foldl join_line t ls))"
  using assms
proof (induction ts arbitrary: prompt peeked t a e)
  case (Cons turn ts)
  obtain buf p where turn: "turn = (buf, p)" by (cases turn)
  have len: "length buf = 4096" using Cons.prems(3) turn by simp
  have fin: "safe (finished e) (linenoiseEdit n buf prompt spaces peeked e)"
    by (rule linenoiseEdit_finished [OF Cons.prems(1) len Cons.prems(2)])
  show ?case
  proof (cases "linenoiseEdit n buf prompt spaces peeked e")
    case (Done x)
    obtain count e1 where x: "x = (count, e1)" by (cases x)
    have f: "finished e (count, e1)" using fin Done x by simp
    then have e1: "edit_ready e1" "count = -1 \<or> count = int (l_len e1)" "ed_ok e1" "l_buflen e1 = 4095"
      by (auto simp: finished_def)
    show ?thesis
    proof (cases "count = -1")
      case True
      with Done x e1(1) turn show ?thesis by simp
    next
      case False
      then have count: "nat count = l_len e1" using e1(2) by simp
      have fits: "l_len e1 \<le> 4095" "l_len e1 \<le> length (l_buf e1)"
        using e1(3,4) by (simp_all add: ed_ok_def)
      obtain a1 where a1: "add_line (l_len e1) (l_buf e1) a = Some a1"
          "collected (join_line t (take (l_len e1) (l_buf e1))) a1"
          "buf_string (r_data a1) = Some (c_string (join_line t (take (l_len e1) (l_buf e1))))"
        using add_line_ok [OF Cons.prems(4) fits] by blast
      obtain c e2 where g: "get_next_char p e1 = (c, e2)" by (cases "get_next_char p e1")
      note gr = get_next_char_ready [OF e1(1) g]
      have e2: "edit_ready e2"
        using gr(1) [of Beep] by (simp add: edit_ready_def emit_ev_def complete_ok_def key_def)
      show ?thesis
      proof (cases "c = NUL")
        case True
        then show ?thesis using Done x False count a1 g turn e2 by simp
      next
        case nz: False
        let ?e = "(emit_ev (Stdio [LF]) e2)\<lparr>s_pasting := True\<rparr>"
        have nm: "no_meta_b (key ?e KM_ESC) (Some c # e_input ?e)"
          using gr(2) [OF nz] by (simp add: emit_ev_def key_def)
        have bufs: "\<forall>(buf, p) \<in> set ts. length buf = 4096" using Cons.prems(3) by simp
        note IH = Cons.IH [OF gr(1) nm bufs a1(2), of secondary]
        show ?thesis
        proof (cases "edited_lines n secondary spaces ts secondary c ?e")
          case rest: (Done y)
          then show ?thesis
            using IH Done x False count a1 g turn nz by (cases y) (auto split: option.splits)
        qed (use IH Done x False count a1 g turn nz in auto)
      qed
    qed
  qed (use fin turn in auto)
qed simp

text \<open>
  C15. What \<open>linenoise\<close> collects of a pasted form, where the editor is ready and the escape key is
  not followed by \<open>b\<close>: the lines that the editor returned turn by turn, joined by line ends (none
  after leading empty lines), whatever their number and length; the collecting buffer is never left.
\<close>

theorem pasted_lines_joined:
  assumes "edit_ready e" "no_meta_b (key e KM_ESC) (Some NUL # e_input e)"
    "\<forall>(buf, p) \<in> set ts. length buf = 4096"
  shows "read_lines n secondary spaces ts prompt e =
      bind_run (edited_lines n secondary spaces ts prompt NUL e)
        (\<lambda>(ls, e'). Done (map_option (\<lambda>ls. c_string (foldl join_line [] ls)) ls, e')) \<and>
    read_lines n secondary spaces ts prompt e \<noteq> Crash"
  using raw_loop_collects [OF assms collected_init, of n secondary spaces prompt]
  by (auto simp: read_lines_def split: run.splits option.splits prod.splits)

definition sample_turn :: "string \<times> peek" where
  "sample_turn = (replicate 4096 NUL, \<lparr>pk_there = False, pk_set = True, pk_reset = True\<rparr>)"

lemma sample_edit: "\<exists>ret e'. linenoiseEdit 3 (replicate 4096 NUL) ''=> '' 0 NUL (sample_ed []) = Done (ret, e')"
proof -
  have k: "key (sample_ed []) KM_ESC = 27" "key (sample_ed []) KM_REVERSE_I_SEARCH = 18"
    by (simp_all add: sample_ed_def key_def keymap_default_def)
  have i: "e_input (sample_ed []) = []" "e_junk (sample_ed []) = NUL" by (simp_all add: sample_ed_def)
  have "edit_ready (sample_ed [])" by (rule sample_ready) simp
  moreover have "no_search (sample_ed [])" using k i by (auto simp: no_search_def pressed_def schar_def)
  ultimately have "linenoiseEdit 3 (replicate 4096 NUL) ''=> '' 0 NUL (sample_ed []) \<noteq> Spinning"
    using k i by (intro linenoiseEdit_ends) (simp_all add: pressed_def schar_def)
  moreover have "linenoiseEdit 3 (replicate 4096 NUL) ''=> '' 0 NUL (sample_ed []) \<noteq> Crash"
    using linenoiseEdit_finished [OF \<open>edit_ready (sample_ed [])\<close>, of "replicate 4096 NUL" NUL 3 "''=> ''" 0] k i
    by auto
  ultimately show ?thesis by (cases "linenoiseEdit 3 (replicate 4096 NUL) ''=> '' 0 NUL (sample_ed [])") auto
qed

lemma sample_lines: "\<exists>ls e'. edited_lines 3 ''   '' 0 [sample_turn] ''=> '' NUL (sample_ed []) = Done (ls, e')"
  using sample_edit by (auto simp: sample_turn_def get_next_char_def)

lemma pasted_lines_joined_witness:
  "\<exists>ls e'. edited_lines 3 ''   '' 0 [sample_turn] ''=> '' NUL (sample_ed []) = Done (ls, e') \<and>
    read_lines 3 ''   '' 0 [sample_turn] ''=> '' (sample_ed []) =
      Done (map_option (\<lambda>ls. c_string (foldl join_line [] ls)) ls, e')"
proof -
  obtain ls e' where l: "edited_lines 3 ''   '' 0 [sample_turn] ''=> '' NUL (sample_ed []) = Done (ls, e')"
    using sample_lines by blast
  have "edit_ready (sample_ed [])" by (rule sample_ready) simp
  moreover have "no_meta_b (key (sample_ed []) KM_ESC) (Some NUL # e_input (sample_ed []))"
    by (simp add: sample_ed_def)
  ultimately show ?thesis
    using pasted_lines_joined [of "sample_ed []" "[sample_turn]" 3 "''   ''" 0 "''=> ''"] l
    by (simp add: sample_turn_def)
qed

section \<open>The mode of the terminal\<close>

lemma bind_run_Done: "bind_run m f = Done y \<longleftrightarrow> (\<exists>x. m = Done x \<and> f x = Done y)"
  by (cases m) auto

definition restored :: "console \<Rightarrow> console \<Rightarrow> bool" where
  "restored c c' \<longleftrightarrow>
     (if s_rawmode c' then s_orig_termios c' = c_mode c \<and> s_atexit c' \<and> False \<in> set (c_setattr c)
      else c_mode c' = c_mode c)"

lemma enableRawMode_cases:
  assumes "enableRawMode c = (r, c1)" "\<not> s_rawmode c"
  shows "if r = -1 then c_mode c1 = c_mode c \<and> \<not> s_rawmode c1
    else s_orig_termios c1 = c_mode c \<and> s_rawmode c1 \<and> s_atexit c1 \<and> set (c_setattr c1) \<subseteq> set (c_setattr c)"
  using assms
  by (auto simp: enableRawMode_def tcsetattr_def console_ev_def Let_def split: if_splits list.splits)

lemma disableRawMode_cases:
  assumes "s_rawmode c"
  shows "if s_rawmode (disableRawMode c)
    then s_orig_termios (disableRawMode c) = s_orig_termios c \<and> s_atexit (disableRawMode c) = s_atexit c \<and>
      False \<in> set (c_setattr c)
    else c_mode (disableRawMode c) = s_orig_termios c"
  using assms by (auto simp: disableRawMode_def tcsetattr_def split: list.splits)

lemma linenoiseRaw_restored:
  assumes "linenoiseRaw n ts prompt secondary spaces c = Done (s, c')" "\<not> s_rawmode c"
  shows "restored c c'"
proof (cases "c_isatty c")
  case True
  obtain r c1 where r: "enableRawMode c = (r, c1)" by (cases "enableRawMode c")
  note en = enableRawMode_cases [OF r assms(2)]
  show ?thesis
  proof (cases "r = -1")
    case True
    with assms \<open>c_isatty c\<close> r en show ?thesis
      by (auto simp: linenoiseRaw_def restored_def console_ev_def)
  next
    case False
    with assms \<open>c_isatty c\<close> r obtain e where
      c': "c' = console_ev (Stdio [LF]) (disableRawMode (c1\<lparr>c_ed := e\<rparr>))"
      by (auto simp: linenoiseRaw_def bind_run_Done)
    from False en disableRawMode_cases [of "c1\<lparr>c_ed := e\<rparr>"] show ?thesis
      by (auto simp: c' restored_def console_ev_def split: if_splits)
  qed
next
  case False
  with assms show ?thesis by (auto simp: linenoiseRaw_def restored_def split: prod.splits)
qed

text \<open>
  C26. \<open>linenoise\<close> leaves the terminal in the mode it found, whichever way it returns. Where
  the call that restores the mode fails, the mode stays noted and is restored at exit.
\<close>

theorem terminal_mode_restored:
  assumes "linenoise n ts name prompt secondary ansi spaces c = Done (s, c')" "\<not> s_rawmode c"
  shows "(if s_rawmode c' then s_atexit c' \<and> False \<in> set (c_setattr c) else c_mode c' = c_mode c) \<and>
    (c_setattr c' = [] \<longrightarrow> c_mode (linenoiseAtExit c') = c_mode c)"
proof -
  have "restored c c'"
  proof (cases "isUnsupportedTerm name")
    case False
    with assms linenoiseRaw_restored [of n ts prompt secondary spaces "c\<lparr>c_ed := (c_ed c)\<lparr>s_ansi := ansi\<rparr>\<rparr>" s c']
    show ?thesis by (simp add: linenoise_def restored_def split: if_splits)
  qed (use assms in \<open>auto simp: linenoise_def restored_def split: prod.splits\<close>)
  then show ?thesis
    by (auto simp: restored_def linenoiseAtExit_def disableRawMode_def tcsetattr_def split: if_splits)
qed

definition sample_console :: console where
  "sample_console =
     \<lparr>c_ed = sample_ed [],
      c_mode = \<lparr>c_iflag = 0x100, c_oflag = 1, c_cflag = 0, c_lflag = 0x8A3B, c_vmin = 1, c_vtime = 0\<rparr>,
      c_isatty = True, c_getattr = True, c_setattr = [],
      s_orig_termios = \<lparr>c_iflag = 0, c_oflag = 0, c_cflag = 0, c_lflag = 0, c_vmin = 0, c_vtime = 0\<rparr>,
      s_rawmode = False, s_atexit = False\<rparr>"

lemma sample_linenoise:
  "\<exists>s c'. linenoise 3 [sample_turn] (Some ''xterm'') ''=> '' ''   '' [] 0 sample_console = Done (s, c')"
proof -
  have "edit_ready (sample_ed [])" by (rule sample_ready) simp
  moreover have "no_meta_b (key (sample_ed []) KM_ESC) (Some NUL # e_input (sample_ed []))"
    by (simp add: sample_ed_def)
  ultimately obtain ls e' where "read_lines 3 ''   '' 0 [sample_turn] ''=> '' (sample_ed []) = Done (ls, e')"
    using raw_loop_collects [of "sample_ed []" NUL "[sample_turn]" "[]" accum_init 3 "''   ''" 0 "''=> ''"]
      sample_lines collected_init
    by (auto simp: read_lines_def sample_turn_def split: option.splits)
  moreover have "(sample_ed [])\<lparr>s_ansi := []\<rparr> = sample_ed []" by (simp add: sample_ed_def)
  ultimately show ?thesis
    by (simp add: linenoise_def linenoiseRaw_def isUnsupportedTerm_def to_lower_def enableRawMode_def
        tcsetattr_def sample_console_def)
qed

lemma terminal_mode_restored_witness:
  "\<exists>s c'. linenoise 3 [sample_turn] (Some ''xterm'') ''=> '' ''   '' [] 0 sample_console = Done (s, c') \<and>
    c_mode c' = c_mode sample_console"
proof -
  obtain s c' where r: "linenoise 3 [sample_turn] (Some ''xterm'') ''=> '' ''   '' [] 0 sample_console = Done (s, c')"
    using sample_linenoise by blast
  have "\<not> s_rawmode sample_console" "c_setattr sample_console = []" by (simp_all add: sample_console_def)
  with terminal_mode_restored [OF r] have "c_mode c' = c_mode sample_console" by (auto split: if_splits)
  with r show ?thesis by blast
qed

end
