(* ===== verification/Session.thy ===== *)
theory Session
  imports Engine_Init Sockets Line_Raw_Props Repl_Props
begin

text \<open>
  Where the REPL meets the line editor, the engine and the sockets: what \<open>linenoise\<close> returns as a
  reading of the command line loop, the completion callback, starting the socket REPL, and
  socket sessions whose threads interleave.
\<close>

section \<open>Reading a line\<close>

text \<open>Whether \<open>errno\<close> is \<open>EAGAIN\<close>: the last event that sets it decides.\<close>

fun errno_again :: "event list \<Rightarrow> bool \<Rightarrow> bool" where
  "errno_again [] b = b"
| "errno_again (Errno_again # vs) b = errno_again vs True"
| "errno_again (Errno_notty # vs) b = errno_again vs False"
| "errno_again (Errno_reset # vs) b = errno_again vs False"
| "errno_again (v # vs) b = errno_again vs b"

text \<open>The tests on the result of \<open>linenoise\<close>; \<open>before\<close> is the trace before the call.\<close>

definition reading_of :: "event list \<Rightarrow> string option \<times> console \<Rightarrow> reading" where
  "reading_of before p =
     (case fst p of
        Some l \<Rightarrow> Line_read l
      | None \<Rightarrow> if errno_again (drop (length before) (e_trace (c_ed (snd p)))) False then Interrupted else Closed)"

text \<open>The call: both prompts of the session, the color of the theme, the indentation.\<close>

definition terminal_reading ::
  "nat \<Rightarrow> (string \<times> peek) list \<Rightarrow> string option \<Rightarrow> string \<Rightarrow> cfg \<Rightarrow> repl \<Rightarrow> console \<Rightarrow> (reading \<times> console) run" where
  "terminal_reading n ts name ansi c r con =
     bind_run (linenoise n ts name (the (current_prompt r)) (the (form_prompt c r True)) ansi
         (nat (indent_space_count r)) con) (\<lambda>p.
       Done (reading_of (e_trace (c_ed con)) p, snd p))"

section \<open>Completion\<close>

definition linenoiseAddCompletion :: "string list \<Rightarrow> string \<Rightarrow> string list" where
  "linenoiseAddCompletion lc s = lc @ [s]"

text \<open>\<open>None\<close>: the engine has given a completion that is no string, or no array.\<close>

definition completion :: "call \<Rightarrow> int \<Rightarrow> string \<Rightarrow> string list \<Rightarrow> string list option" where
  "completion call err buf lc =
     (case get_completions call err buf of
        None \<Rightarrow> None
      | Some None \<Rightarrow> Some lc
      | Some (Some cs) \<Rightarrow> if None \<in> set cs then None else Some (foldl linenoiseAddCompletion lc (map the cs)))"

lemma completion_adds:
  assumes "get_completions call err buf = Some (Some (map Some cs))"
  shows "completion call err buf lc = Some (lc @ cs)"
proof -
  have "foldl linenoiseAddCompletion xs ys = xs @ ys" for xs ys
    by (induction ys arbitrary: xs) (simp_all add: linenoiseAddCompletion_def)
  then show ?thesis using assms by (simp add: completion_def comp_def)
qed

section \<open>Setting the line editor up\<close>

text \<open>
  The settings for a terminal that is not dumb. What \<open>completion\<close> adds to an empty list is what the
  editor gets for a line; the callbacks of the bracket
  highlighting are those of \<open>Highlight\<close>.
\<close>

definition setup_editor :: "call \<Rightarrow> int \<Rightarrow> ed \<Rightarrow> ed" where
  "setup_editor call err e =
     linenoiseSetHighlightCancelCallback True
       (linenoiseSetHighlightCallback True
         (linenoiseSetCompletionCallback (Some (\<lambda>buf. the (completion call err buf [])))
           (linenoiseSetMultiLine True e)))"

section \<open>Starting the socket REPL\<close>

datatype socket_start =
    Wait_engine | Sender_set "Repl.sender option" | Message string | Accepting

text \<open>
  \<open>listen_rv\<close> is the result of \<open>bind_and_listen\<close>; the accepting thread first reports that it
  listens.
\<close>

definition socket_repl_listen_successful_cb :: "cfg \<Rightarrow> string \<Rightarrow> int \<Rightarrow> socket_start list" where
  "socket_repl_listen_successful_cb c host port =
     (if cfg_quiet c then []
      else [Message (snprintf 1024 (''Planck socket REPL listening at '' @ host @ '':'' @ show_int port @ ''.'' @ [LF]))])"

definition start_socket_repl :: "cfg \<Rightarrow> string \<Rightarrow> int \<Rightarrow> int \<Rightarrow> string \<Rightarrow> socket_start list" where
  "start_socket_repl c host port listen_rv strerror =
     (if port = 0 then []
      else [Wait_engine, Sender_set (if dumb_terminal c then None else Some Print_now)] @
        (if listen_rv = -1
         then [Message (snprintf 1024 (''Failed to set up socket REPL: '' @ strerror @ [LF]))]
         else Accepting # socket_repl_listen_successful_cb c host port))"

section \<open>From the editor to the evaluation\<close>

text \<open>The lines of a pasted form that are not empty are the tokens the loop processes.\<close>

lemma foldl_join_line: "t \<noteq> [] \<Longrightarrow> foldl join_line t ls = t @ concat (map (\<lambda>l. LF # l) ls)"
  by (induction ls arbitrary: t) (simp_all add: join_line_def)

lemma join_lines_split:
  assumes "\<forall>l \<in> set ls. LF \<notin> set l"
  shows "strtok_all LF (foldl join_line [] ls) = filter (\<lambda>l. l \<noteq> []) ls"
proof -
  have rest: "strtok_all LF (t @ concat (map (\<lambda>l. LF # l) ls)) = filter (\<lambda>l. l \<noteq> []) (t # ls)"
    if "LF \<notin> set t" "\<forall>l \<in> set ls. LF \<notin> set l" for t ls
    using that
  proof (induction ls arbitrary: t)
    case (Cons l ls)
    then show ?case using strtok_all_step [of LF t "l @ concat (map (\<lambda>l. LF # l) ls)"] by simp
  qed (use strtok_all_last [of LF] in simp)
  show ?thesis
    using assms
  proof (induction ls)
    case (Cons l ls)
    show ?case
    proof (cases "l = []")
      case False
      have "foldl join_line [] (l # ls) = l @ concat (map (\<lambda>l. LF # l) ls)"
        using foldl_join_line [OF False, of ls] by (simp add: join_line_def [of "[]"])
      with False Cons.prems rest [of l ls] show ?thesis by simp
    qed (use Cons in \<open>simp add: join_line_def\<close>)
  qed (simp add: strtok_all.simps strtok_next_def)
qed

lemma join_lines_empty: "foldl join_line [] ls = [] \<longleftrightarrow> filter (\<lambda>l. l \<noteq> []) ls = []"
proof (induction ls)
  case (Cons l ls)
  then show ?case using foldl_join_line [of l ls] by (cases "l = []") (simp_all add: join_line_def [of "[]"])
qed simp

lemma set_join_lines: "c \<in> set (foldl join_line t ls) \<Longrightarrow> c \<in> set t \<or> c = LF \<or> (\<exists>l \<in> set ls. c \<in> set l)"
  by (induction ls arbitrary: t) (fastforce simp: join_line_def split: if_splits)+

text \<open>
  C8. What is pasted into the editor is processed line by line: where the editor returned the
  lines \<open>ls\<close> one after the other, the loop gets them in one reading, their join. Below 16384
  bytes it processes those that are not empty one by one, in their order (a reading that is
  empty continues a form already begun as one empty line); from 16384 bytes on the reading is
  processed as one line, which goes to the history as those same lines. The editor must be
  ready (a multi-line terminal, history entries and completions that fit), the escape key not
  be followed by \<open>b\<close>, and the lines hold no line end and no NUL.
\<close>

theorem pasted_lines_processed:
  assumes "edit_ready e" "no_meta_b (key e KM_ESC) (Some NUL # e_input e)"
    "\<forall>(buf, p) \<in> set ts. length buf = 4096"
    "edited_lines n secondary spaces ts prompt NUL e = Done (Some ls, e')"
    "\<forall>l \<in> set ls. LF \<notin> set l \<and> NUL \<notin> set l" "a \<in> w_live w"
  shows "read_lines n secondary spaces ts prompt e = Done (Some (foldl join_line [] ls), e') \<and>
    strtok_all LF (foldl join_line [] ls) = filter (\<lambda>l. l \<noteq> []) ls \<and>
    process_input m eng c pasting (a, foldl join_line [] ls) r w =
      (if input r \<noteq> None \<and> filter (\<lambda>l. l \<noteq> []) ls = []
       then process_line m eng c pasting (r\<lparr>indent_space_count := 0\<rparr>) (a, []) False w
       else if length (foldl join_line [] ls) < 16384
       then process_tokens m eng c pasting (filter (\<lambda>l. l \<noteq> []) ls) r w
       else process_line m eng c pasting (r\<lparr>indent_space_count := 0\<rparr>) (a, foldl join_line [] ls) True w)"
proof -
  let ?t = "foldl join_line [] ls"
  have "NUL \<notin> set ?t" using set_join_lines [of NUL "[]" ls] assms(5) by auto
  then have t: "c_string ?t = ?t" by (rule c_string_no_nul)
  have "read_lines n secondary spaces ts prompt e = Done (Some ?t, e')"
    using raw_loop_collects [OF assms(1-3) collected_init, of n secondary spaces prompt] assms(4) t
    by (auto simp: read_lines_def)
  moreover have "strtok_all CHR 0x0A ?t = filter (\<lambda>l. l \<noteq> []) ls"
    using join_lines_split [of ls] assms(5) by simp
  moreover have "?t = [] \<longleftrightarrow> filter (\<lambda>l. l \<noteq> []) ls = []" by (rule join_lines_empty)
  ultimately show ?thesis
    using assms(6) by (cases "?t = []") (simp_all add: process_input_def read_blk_def)
qed

text \<open>Two letters pasted on two lines.\<close>

lemma handle_letter:
  assumes "ed_ok e" "s_keymap e = keymap_default" "e_complete e = None" "l_len e = 0" "l_buflen e = 4095"
    "c = CHR ''a'' \<or> c = CHR ''b''"
  shows "\<exists>e4. handle (Suc n) c e = Done (Continue e4) \<and> edited e ([c], []) e4"
proof -
  have "sides e = ([], [])" using assms(1,4) by (simp add: sides_def line_def ed_ok_def)
  then obtain e4 where "linenoiseEditInsert c e = Some (0, e4)" "edited e ([c], []) e4"
    using insert_room [OF assms(1), of c] assms(4,5) by auto
  moreover have "schar c = 97 \<or> schar c = 98" using assms(6) by (auto simp: schar_def)
  then have "\<forall>x \<in> set keymap_default. x \<noteq> schar c" by (auto simp: keymap_default_def)
  then have "\<not> pressed e k c" if "k < 21" for k
    using that nth_mem [of k keymap_default] assms(2)
    by (auto simp: pressed_def key_def keymap_default_def)
  moreover have "c \<noteq> SP" "c \<noteq> NUL" using assms(6) by auto
  ultimately show ?thesis using assms(3) by (simp add: handle_def)
qed

definition typing :: "ed \<Rightarrow> char option list \<Rightarrow> string \<Rightarrow> bool" where
  "typing e xs s \<longleftrightarrow> ed_ok e \<and> sides e = (s, []) \<and> e_input e = xs \<and> l_buflen e = 4095 \<and>
     s_keymap e = keymap_default \<and> e_complete e = None \<and> e_write_ok e \<and> s_history e \<noteq> []"

lemma typing_line: "typing e xs s \<Longrightarrow> l_len e = length s \<and> take (l_len e) (l_buf e) = s"
  by (auto simp: typing_def sides_def line_def ed_ok_def)

lemma typing_kept: "typing e xs s \<Longrightarrow> edited e (t, []) e' \<Longrightarrow> typing e' xs t"
  using kept_fields [of e e'] by (auto simp: typing_def edited_def)

lemma typing_noted: "typing e xs s \<Longrightarrow> typing (note_time c e) xs s"
  by (subst note_time_facts) (auto simp: typing_def ed_ok_def sides_def line_def)

lemma typing_read: "typing e (Some c # xs) s \<Longrightarrow> typing (e\<lparr>e_input := xs\<rparr>) xs s"
  by (auto simp: typing_def ed_ok_def sides_def line_def)

lemma typing_emit: "typing e xs s \<Longrightarrow> typing (emit_ev v e) xs s"
  by (auto simp: typing_def ed_ok_def sides_def line_def emit_ev_def)

lemma loop_letter:
  assumes "typing e ys []" "c = CHR ''a'' \<or> c = CHR ''b''" "peeked = c \<and> ys = xs \<or> peeked = NUL \<and> ys = Some c # xs"
  shows "\<exists>e4. edit_loop (Suc (Suc n)) peeked e = edit_loop (Suc n) NUL e4 \<and> typing e4 xs [c]"
proof -
  define e1 where "e1 = (if peeked \<noteq> NUL then e else e\<lparr>e_input := xs\<rparr>)"
  have nonzero: "c \<noteq> NUL" using assms(2) by auto
  have e1: "typing e1 xs []" using assms(1,3) nonzero typing_read [of e c xs "[]"] by (auto simp: e1_def)
  have got: "(if peeked \<noteq> NUL then (1, peeked, e) else tty_read (e_junk e) e) = (1, c, e1)"
    using assms(1,3) nonzero by (auto simp: e1_def tty_read_def typing_def)
  define e3 where "e3 = (if e_hlcancel (note_time c e1) then emit_ev HighlightCancel (note_time c e1)
    else note_time c e1)"
  have e3: "typing e3 xs []" using typing_noted [OF e1] typing_emit by (simp add: e3_def)
  obtain e4 where e4: "handle (Suc n) c e3 = Done (Continue e4)" "edited e3 ([c], []) e4"
    using handle_letter [of e3 c n] e3 typing_line [OF e3] assms(2) by (auto simp: typing_def)
  have "edit_loop (Suc (Suc n)) peeked e = edit_loop (Suc n) NUL e4"
    using e4(1) by (simp add: got e3_def [symmetric] Let_def)
  with typing_kept [OF e3 e4(2)] show ?thesis by blast
qed

lemma loop_end:
  assumes "typing e [] s"
  shows "\<exists>e'. edit_loop (Suc n) NUL e = Done (int (length s), e') \<and> take (length s) (l_buf e') = s \<and> e_input e' = []"
proof -
  have t: "typing (note_time (e_junk e) e) [] s" by (rule typing_noted [OF assms])
  have "tty_read (e_junk e) e = (0, e_junk e, e)" using assms by (simp add: tty_read_def typing_def)
  moreover have "e_input (note_time (e_junk e) e) = []" using t by (simp add: typing_def)
  moreover have "take (length s) (l_buf (note_time (e_junk e) e)) = s"
    "l_len (note_time (e_junk e) e) = length s" using typing_line [OF t] by auto
  ultimately show ?thesis by (simp add: Let_def)
qed

lemma loop_enter:
  assumes "typing e (Some CHR 0x0D # xs) s"
  shows "\<exists>e'. edit_loop (Suc (Suc n)) NUL e = Done (int (length s), e') \<and> take (length s) (l_buf e') = s \<and> e_input e' = xs \<and>
    e_complete e' = None \<and> e_write_ok e'"
proof -
  let ?c = "CHR 0x0D" and ?e1 = "e\<lparr>e_input := xs\<rparr>"
  have got: "tty_read (e_junk e) e = (1, ?c, ?e1)" using assms by (simp add: tty_read_def typing_def)
  define e3 where "e3 = (if e_hlcancel (note_time ?c ?e1) then emit_ev HighlightCancel (note_time ?c ?e1)
    else note_time ?c ?e1)"
  have e3: "typing e3 xs s" using typing_noted [OF typing_read [OF assms]] typing_emit by (simp add: e3_def)
  define e4 where "e4 = e3\<lparr>s_history := butlast (s_history e3)\<rparr>"
  have "ed_ok e4" "sides e4 = (s, [])" using e3 by (auto simp: e4_def typing_def ed_ok_def sides_def line_def)
  then obtain e5 where e5: "linenoiseEditMoveEnd e4 = Some e5" "edited e4 (s, []) e5"
    using move_end.op_edits [OF _ TrueI, of e4] by auto
  have "ed_ok e5" "sides e5 = (s, [])" "e_input e5 = xs" "e_complete e5 = None" "e_write_ok e5"
    using e5(2) kept_fields [of e4 e5] e3 by (auto simp: edited_def e4_def typing_def)
  then have l: "l_len e5 = length s" "take (length s) (l_buf e5) = s" "e_input e5 = xs"
    "e_complete e5 = None" "e_write_ok e5"
    by (auto simp: sides_def line_def ed_ok_def)
  have "schar ?c = 13" by (simp add: schar_def)
  then have "handle (Suc n) ?c e3 = Done (leave (int (length s)) e5)"
    using e3 e5(1) l(1) by (simp add: handle_def pressed_def key_def keymap_default_def pop_history_def
        typing_def e4_def [symmetric] ed_ok_def) (simp add: e4_def)
  then show ?thesis using l by (simp add: got e3_def [symmetric] Let_def leave_def)
qed

lemma start_typing:
  assumes "edit_ready e" "length buf = 4096" "no_meta_b (key e KM_ESC) (Some peeked # e_input e)"
    "s_keymap e = keymap_default" "e_complete e = None" "e_write_ok e"
  shows "\<exists>e7. linenoiseEdit n buf prompt 0 peeked e = edit_loop n peeked e7 \<and> typing e7 (e_input e) []"
proof (rule linenoiseEdit_start [OF assms(1-3), of prompt 0])
  fix e7
  assume r: "\<And>n. linenoiseEdit n buf prompt 0 peeked e = edit_loop n peeked e7" "ed_inv e7"
    "l_buflen e7 = 4095" "same_env e (e7\<lparr>l_buflen := l_buflen e\<rparr>)" "e_input e7 = e_input e"
    "(0 :: nat) = 0 \<Longrightarrow> l_len e7 = 0" "e_write_ok e7 = e_write_ok e"
  have "typing e7 (e_input e) []"
    using r(2-7) assms(4-6)
    by (auto simp: typing_def ed_inv_def hist_ok_def same_env_def sides_def line_def ed_ok_def)
  with r(1) show ?thesis by blast
qed (use assms(6) in simp)

text \<open>The first line ends with the enter key, the second with the input.\<close>

definition paste :: "char option list" where
  "paste = [Some CHR ''a'', Some CHR 0x0D, Some CHR ''b'']"

definition paste_turns :: "(string \<times> peek) list" where
  "paste_turns = [(replicate 4096 NUL, \<lparr>pk_there = True, pk_set = True, pk_reset = True\<rparr>), sample_turn]"

lemma paste_ready: "edit_ready (sample_ed paste)" "no_meta_b (key (sample_ed paste) KM_ESC) (Some NUL # e_input (sample_ed paste))"
proof -
  show "edit_ready (sample_ed paste)" by (rule sample_ready) (simp add: paste_def schar_def)
  show "no_meta_b (key (sample_ed paste) KM_ESC) (Some NUL # e_input (sample_ed paste))"
    by (simp add: sample_ed_def paste_def key_def keymap_default_def schar_def)
qed

lemma paste_edited:
  "\<exists>e'. edited_lines 3 ''   '' 0 paste_turns ''=> '' NUL (sample_ed paste) = Done (Some [''a'', ''b''], e')"
proof -
  let ?buf = "replicate 4096 NUL" and ?e = "sample_ed paste"
  note e = sample_ed_def [of paste]
  obtain e7 where e7: "linenoiseEdit 3 ?buf ''=> '' 0 NUL ?e = edit_loop 3 NUL e7" "typing e7 paste []"
    using start_typing [OF paste_ready(1) _ paste_ready(2), of ?buf 3 "''=> ''"] by (auto simp: e)
  obtain e8 where e8: "edit_loop 3 NUL e7 = edit_loop 2 NUL e8" "typing e8 [Some CHR 0x0D, Some CHR ''b''] ''a''"
    using loop_letter [OF e7(2), of "CHR ''a''" NUL "[Some CHR 0x0D, Some CHR ''b'']" 1]
    by (auto simp: paste_def numeral_3_eq_3 numeral_2_eq_2)
  obtain e1 where e1: "edit_loop 2 NUL e8 = Done (1, e1)" "take 1 (l_buf e1) = ''a''" "e_input e1 = [Some CHR ''b'']"
      "e_complete e1 = None" "e_write_ok e1"
    using loop_enter [OF e8(2), of 0] by (auto simp: numeral_2_eq_2)
  have fin: "edit_ready e1" "s_keymap e1 = keymap_default"
    using linenoiseEdit_finished [OF paste_ready(1) _ paste_ready(2), of ?buf 3 "''=> ''" 0] e7(1) e8(1) e1(1)
    by (auto simp: finished_def e)
  define e2 where "e2 = snd (get_next_char \<lparr>pk_there = True, pk_set = True, pk_reset = True\<rparr> e1)"
  have next': "get_next_char \<lparr>pk_there = True, pk_set = True, pk_reset = True\<rparr> e1 = (CHR ''b'', e2)"
    using e1(3) by (simp add: e2_def get_next_char_def tty_read_def)
  have e2: "e_input e2 = []" "e_complete e2 = None" "e_write_ok e2" "s_keymap e2 = keymap_default"
    using e1 fin by (simp_all add: e2_def get_next_char_def tty_read_def emit_ev_def)
  let ?f = "(emit_ev (Stdio [LF]) e2)\<lparr>s_pasting := True\<rparr>"
  have f: "edit_ready ?f" "no_meta_b (key ?f KM_ESC) (Some CHR ''b'' # e_input ?f)"
    using get_next_char_ready(1) [OF fin(1) next'] e2
    by (simp_all add: emit_ev_def key_def keymap_default_def schar_def)
  obtain f7 where f7: "linenoiseEdit 3 ?buf ''   '' 0 CHR ''b'' ?f = edit_loop 3 CHR ''b'' f7" "typing f7 [] []"
    using start_typing [OF f(1) _ f(2), of ?buf 3 "''   ''"] e2 by (auto simp: emit_ev_def)
  obtain f8 where f8: "edit_loop 3 CHR ''b'' f7 = edit_loop 2 NUL f8" "typing f8 [] ''b''"
    using loop_letter [OF f7(2), of "CHR ''b''" "CHR ''b''" "[]" 1] by (auto simp: numeral_3_eq_3 numeral_2_eq_2)
  obtain f9 where "edit_loop 2 NUL f8 = Done (1, f9)" "take 1 (l_buf f9) = ''b''"
    using loop_end [OF f8(2), of 1] by (auto simp: numeral_2_eq_2)
  then show ?thesis
    using e7(1) e8(1) e1(1,2) next' f7(1) f8(1)
    by (simp add: paste_turns_def sample_turn_def get_next_char_def)
qed

lemma pasted_lines_processed_witness:
  "\<exists>e'. read_lines 3 ''   '' 0 paste_turns ''=> '' (sample_ed paste) = Done (Some (''a'' @ LF # ''b''), e') \<and>
    process_input 1 sample_engine sample_cfg False (0, ''a'' @ LF # ''b'') make_repl (sample_world\<lparr>w_live := {0}, w_next := 1\<rparr>) =
      process_tokens 1 sample_engine sample_cfg False [''a'', ''b''] make_repl (sample_world\<lparr>w_live := {0}, w_next := 1\<rparr>)"
proof -
  obtain e' where "edited_lines 3 ''   '' 0 paste_turns ''=> '' NUL (sample_ed paste) = Done (Some [''a'', ''b''], e')"
    using paste_edited by blast
  from pasted_lines_processed [OF paste_ready _ this, of 0 "sample_world\<lparr>w_live := {0}, w_next := 1\<rparr>" 1 sample_engine sample_cfg
      False make_repl] show ?thesis
    by (auto simp: paste_turns_def sample_turn_def make_repl_def join_line_def)
qed

end
