(* ===== verification/Socket_Sessions.thy ===== *)
theory Socket_Sessions
  imports Planck_Prelude
begin

text \<open>
  \<open>repl.c\<close>: the sessions of the socket REPL, each in a thread of its own, as the steps of
  \<open>socket_repl_data_arrived\<close> between its accesses to what the threads share: the socket that
  output goes to, and the lock. \<open>sock\<close> gives the socket of a thread and \<open>out\<close> what the evaluation
  of its line prints.
\<close>

datatype spc =
    At_sock                   \<comment> \<open>a line has arrived\<close>
  | At_lock
  | At_output "string list"   \<comment> \<open>evaluating, with this output to come\<close>
  | At_reset
  | At_unlock
  | At_end

record sessions =
  sk_pc :: "nat \<Rightarrow> spc"
  repl_print_mutex :: "nat option"
  sock_to_write_to :: int
  sk_sent :: "(nat \<times> int \<times> string) list"

definition moves_to :: "nat \<Rightarrow> spc \<Rightarrow> sessions \<Rightarrow> sessions" where
  "moves_to t p s = s\<lparr>sk_pc := (sk_pc s)(t := p)\<rparr>"

text \<open>\<open>socket_sender\<close>: nothing is sent while no socket is set.\<close>

definition sends :: "nat \<Rightarrow> string \<Rightarrow> sessions \<Rightarrow> sessions" where
  "sends t x s =
     (if sock_to_write_to s \<noteq> 0 then s\<lparr>sk_sent := sk_sent s @ [(t, sock_to_write_to s, x)]\<rparr> else s)"

inductive session_step ::
  "(nat \<Rightarrow> int) \<Rightarrow> (nat \<Rightarrow> string list) \<Rightarrow> nat \<Rightarrow> sessions \<Rightarrow> sessions \<Rightarrow> bool" for sock out where
  s_sock: "sk_pc s t = At_sock \<Longrightarrow>
    session_step sock out t s (moves_to t At_lock (s\<lparr>sock_to_write_to := sock t\<rparr>))"
| s_lock: "sk_pc s t = At_lock \<Longrightarrow> repl_print_mutex s = None \<Longrightarrow>
    session_step sock out t s (moves_to t (At_output (out t)) (s\<lparr>repl_print_mutex := Some t\<rparr>))"
| s_print: "sk_pc s t = At_output (x # xs) \<Longrightarrow>
    session_step sock out t s (moves_to t (At_output xs) (sends t x s))"
| s_evaluated: "sk_pc s t = At_output [] \<Longrightarrow> session_step sock out t s (moves_to t At_reset s)"
| s_reset: "sk_pc s t = At_reset \<Longrightarrow>
    session_step sock out t s (moves_to t At_unlock (s\<lparr>sock_to_write_to := 0\<rparr>))"
| s_unlock: "sk_pc s t = At_unlock \<Longrightarrow>
    session_step sock out t s (moves_to t At_end (s\<lparr>repl_print_mutex := None\<rparr>))"

inductive_cases session_stepE: "session_step sock out t s s'"

inductive sessions_run :: "(nat \<Rightarrow> int) \<Rightarrow> (nat \<Rightarrow> string list) \<Rightarrow> sessions \<Rightarrow> sessions \<Rightarrow> bool" for sock out where
  sr_refl: "sessions_run sock out s s"
| sr_step: "session_step sock out t s s1 \<Longrightarrow> sessions_run sock out s1 s2 \<Longrightarrow> sessions_run sock out s s2"

lemma sessions_run_trans:
  "sessions_run sock out s s1 \<Longrightarrow> sessions_run sock out s1 s2 \<Longrightarrow> sessions_run sock out s s2"
  by (induction rule: sessions_run.induct) (auto intro: sr_step)

lemma moves_to_fields [simp]:
  "sk_pc (moves_to t p s) = (sk_pc s)(t := p)" "repl_print_mutex (moves_to t p s) = repl_print_mutex s"
  "sock_to_write_to (moves_to t p s) = sock_to_write_to s" "sk_sent (moves_to t p s) = sk_sent s"
  by (simp_all add: moves_to_def)

lemma moves_to_pc: "sk_pc (moves_to t p s) t = p"
  by simp

lemma sends_fields [simp]:
  "sk_pc (sends t x s) = sk_pc s" "repl_print_mutex (sends t x s) = repl_print_mutex s"
  "sock_to_write_to (sends t x s) = sock_to_write_to s"
  "sk_sent (sends t x s) = sk_sent s @ (if sock_to_write_to s \<noteq> 0 then [(t, sock_to_write_to s, x)] else [])"
  by (simp_all add: sends_def)

section \<open>Evaluation and the lock\<close>

fun in_section :: "spc \<Rightarrow> bool" where
  "in_section (At_output _) = True"
| "in_section At_reset = True"
| "in_section At_unlock = True"
| "in_section _ = False"

definition section_inv :: "sessions \<Rightarrow> bool" where
  "section_inv s \<longleftrightarrow> (\<forall>t. in_section (sk_pc s t) \<longleftrightarrow> repl_print_mutex s = Some t)"

lemma session_step_section:
  assumes "session_step sock out t s s'" "section_inv s"
  shows "section_inv s'"
proof -
  have "in_section (sk_pc s t) \<longleftrightarrow> repl_print_mutex s = Some t"
    using assms(2) by (simp add: section_inv_def)
  with assms show ?thesis by (elim session_stepE) (auto simp: section_inv_def)
qed

text \<open>No two sessions evaluate at the same time.\<close>

lemma one_session_evaluates:
  "sessions_run sock out s s' \<Longrightarrow> section_inv s \<Longrightarrow>
   in_section (sk_pc s' t) \<Longrightarrow> in_section (sk_pc s' u) \<Longrightarrow> t = u"
proof (induction rule: sessions_run.induct)
  case (sr_refl s)
  then show ?case by (metis section_inv_def option.inject)
next
  case (sr_step t s s1 s2)
  then show ?case using session_step_section by blast
qed

text \<open>A session alone: from the evaluation to the end, the output goes where the variable says.\<close>

lemma evaluation_runs:
  "sk_pc s t = At_output xs \<Longrightarrow> \<exists>s'. sessions_run sock out s s' \<and> sk_pc s' = (sk_pc s)(t := At_end) \<and>
    repl_print_mutex s' = None \<and> sock_to_write_to s' = 0 \<and>
    sk_sent s' = sk_sent s @ (if sock_to_write_to s \<noteq> 0 then map (\<lambda>x. (t, sock_to_write_to s, x)) xs else [])"
proof (induction xs arbitrary: s)
  case Nil
  let ?s1 = "moves_to t At_reset s"
  let ?s2 = "moves_to t At_unlock (?s1\<lparr>sock_to_write_to := 0\<rparr>)"
  let ?s3 = "moves_to t At_end (?s2\<lparr>repl_print_mutex := None\<rparr>)"
  have "session_step sock out t s ?s1" "session_step sock out t ?s1 ?s2" "session_step sock out t ?s2 ?s3"
    using Nil by (auto intro!: s_evaluated s_reset s_unlock)
  then have "sessions_run sock out s ?s3" by (blast intro: sr_step sr_refl)
  then show ?case by (intro exI [of _ ?s3]) simp
next
  case (Cons x xs)
  let ?s1 = "moves_to t (At_output xs) (sends t x s)"
  have "session_step sock out t s ?s1" using Cons.prems by (rule s_print)
  moreover obtain s' where "sessions_run sock out ?s1 s'" "sk_pc s' = (sk_pc ?s1)(t := At_end)"
      "repl_print_mutex s' = None" "sock_to_write_to s' = 0"
      "sk_sent s' = sk_sent ?s1 @ (if sock_to_write_to ?s1 \<noteq> 0 then map (\<lambda>y. (t, sock_to_write_to ?s1, y)) xs else [])"
    using Cons.IH [of ?s1, OF moves_to_pc] by blast
  ultimately show ?case by (intro exI [of _ s']) (auto intro: sr_step)
qed

text \<open>
  C32. The socket that output goes to is set before the lock is taken: when a line arrives on
  socket \<open>sock b\<close> while a session evaluates, the rest of that session's output can go to
  \<open>sock b\<close>, and what the line of \<open>b\<close> prints to nobody.
\<close>

theorem output_to_wrong_session:
  assumes "sk_pc s a = At_output xs" "repl_print_mutex s = Some a" "sk_pc s b = At_sock" "a \<noteq> b" "sock b \<noteq> 0"
  shows "\<exists>s'. sessions_run sock out s s' \<and> sk_pc s' a = At_end \<and> sk_pc s' b = At_end \<and>
    sk_sent s' = sk_sent s @ map (\<lambda>x. (a, sock b, x)) xs"
proof -
  let ?s1 = "moves_to b At_lock (s\<lparr>sock_to_write_to := sock b\<rparr>)"
  have "session_step sock out b s ?s1" using assms(3) by (rule s_sock)
  then have r1: "sessions_run sock out s ?s1" by (blast intro: sr_step sr_refl)
  obtain s2 where s2: "sessions_run sock out ?s1 s2" "sk_pc s2 = (sk_pc ?s1)(a := At_end)"
      "repl_print_mutex s2 = None" "sock_to_write_to s2 = 0"
      "sk_sent s2 = sk_sent s @ map (\<lambda>x. (a, sock b, x)) xs"
    using evaluation_runs [of ?s1 a xs sock out] assms by auto
  let ?s3 = "moves_to b (At_output (out b)) (s2\<lparr>repl_print_mutex := Some b\<rparr>)"
  have "session_step sock out b s2 ?s3" using s2(2,3) assms(4) by (auto intro!: s_lock)
  then have r3: "sessions_run sock out s2 ?s3" by (blast intro: sr_step sr_refl)
  obtain s4 where s4: "sessions_run sock out ?s3 s4" "sk_pc s4 = (sk_pc ?s3)(b := At_end)"
      "sk_sent s4 = sk_sent ?s3"
    using evaluation_runs [of ?s3 b "out b" sock out] s2(4) by auto
  have "sessions_run sock out s s4"
    by (rule sessions_run_trans [OF r1 sessions_run_trans [OF s2(1) sessions_run_trans [OF r3 s4(1)]]])
  with s2 s4 assms(4) show ?thesis by (intro exI [of _ s4]) auto
qed

lemma output_to_wrong_session_witness:
  "\<exists>s'. sessions_run (\<lambda>t. int t + 4) (\<lambda>t. [''3''])
      \<lparr>sk_pc = (\<lambda>t. At_sock)(0 := At_output [''secret'']), repl_print_mutex = Some 0,
        sock_to_write_to = 4, sk_sent = []\<rparr> s' \<and>
    sk_sent s' = [(0, 5, ''secret'')]"
  using output_to_wrong_session [of "\<lparr>sk_pc = (\<lambda>t. At_sock)(0 := At_output [''secret'']), repl_print_mutex = Some 0,
        sock_to_write_to = 4, sk_sent = []\<rparr>" 0 "[''secret'']" 1 "\<lambda>t. int t + 4" "\<lambda>t. [''3'']"]
  by auto

end
