(* ===== verification/Std_Io.thy ===== *)
theory Std_Io
  imports Js Engine
begin

text \<open>
  The functions of \<open>functions.c\<close> on the standard streams, and what an interrupt does to a form that
  prints through them.

  Standard output is buffered: \<open>so_buffer\<close> is what has been printed and not yet written. libc may
  write a part of it after any print; how much is the argument \<open>auto\<close>. Standard error is not
  buffered. A function raises null (\<open>Inl ()\<close>) or returns a value; \<open>None\<close> is undefined behaviour,
  a NULL pointer for a string.
\<close>

section \<open>The streams\<close>

record std =
  so_buffer :: string
  so_written :: string
  se_written :: string
  si_rest :: string

definition fputs_stdout :: "(string \<Rightarrow> nat) \<Rightarrow> string \<Rightarrow> std \<Rightarrow> std" where
  "fputs_stdout auto s d =
     (let b = so_buffer d @ s; n = auto b
      in d\<lparr>so_buffer := drop n b, so_written := so_written d @ take n b\<rparr>)"

definition fflush_stdout :: "std \<Rightarrow> std" where
  "fflush_stdout d = d\<lparr>so_buffer := [], so_written := so_written d @ so_buffer d\<rparr>"

definition fputs_stderr :: "string \<Rightarrow> std \<Rightarrow> std" where
  "fputs_stderr s d = d\<lparr>se_written := se_written d @ s\<rparr>"

definition stdout_text :: "std \<Rightarrow> string" where
  "stdout_text d = so_written d @ so_buffer d"

lemma stdout_text_simps [simp]:
  "stdout_text (fputs_stdout auto s d) = stdout_text d @ s"
  "stdout_text (fflush_stdout d) = stdout_text d"
  "stdout_text (fputs_stderr s d) = stdout_text d"
  "so_buffer (fflush_stdout d) = []"
  "so_buffer (fputs_stderr s d) = so_buffer d"
  "so_written (fputs_stderr s d) = so_written d"
  "se_written (fputs_stdout auto s d) = se_written d"
  "se_written (fflush_stdout d) = se_written d"
  "se_written (fputs_stderr s d) = se_written d @ s"
  by (simp_all add: stdout_text_def fputs_stdout_def fflush_stdout_def fputs_stderr_def Let_def
      del: take_append drop_append)

section \<open>Printing\<close>

abbreviation colors_off :: string where "colors_off \<equiv> CHR 0x1B # ''[m'' @ [CHR 0x0A]"

definition function_print_fn ::
  "js_lib \<Rightarrow> (string \<Rightarrow> nat) \<Rightarrow> interrupts \<Rightarrow> js list \<Rightarrow> std \<Rightarrow> ((unit + js) \<times> std) option" where
  "function_print_fn lib auto i args d =
     (if \<not> should_keep_running i
      then Some (Inl (), fflush_stdout (fputs_stdout auto colors_off d))
      else case args of
        [v] \<Rightarrow>
          (case value_to_c_string_ext lib v True of
             Some (Some str) \<Rightarrow> Some (Inr JNull, fflush_stdout (fputs_stdout auto str d))
           | _ \<Rightarrow> None)
      | _ \<Rightarrow> Some (Inr JNull, d))"

definition function_print_err_fn ::
  "js_lib \<Rightarrow> interrupts \<Rightarrow> js list \<Rightarrow> std \<Rightarrow> ((unit + js) \<times> std) option" where
  "function_print_err_fn lib i args d =
     (if \<not> should_keep_running i
      then Some (Inl (), fputs_stderr colors_off d)
      else case args of
        [v] \<Rightarrow>
          (case value_to_c_string_ext lib v True of
             Some (Some str) \<Rightarrow> Some (Inr JNull, fputs_stderr str d)
           | _ \<Rightarrow> None)
      | _ \<Rightarrow> Some (Inr JNull, d))"

definition raw_text :: "js list \<Rightarrow> string option" where
  "raw_text args = (case args of [v] \<Rightarrow> if is_str v then value_to_c_string v else None | _ \<Rightarrow> None)"

definition function_raw_write_stdout :: "(string \<Rightarrow> nat) \<Rightarrow> js list \<Rightarrow> std \<Rightarrow> js \<times> std" where
  "function_raw_write_stdout auto args d =
     (JNull, case raw_text args of Some s \<Rightarrow> fputs_stdout auto s d | None \<Rightarrow> d)"

definition function_raw_write_stderr :: "js list \<Rightarrow> std \<Rightarrow> js \<times> std" where
  "function_raw_write_stderr args d =
     (JNull, case raw_text args of Some s \<Rightarrow> fputs_stderr s d | None \<Rightarrow> d)"

definition function_raw_flush_stdout :: "std \<Rightarrow> js \<times> std" where
  "function_raw_flush_stdout d = (JNull, fflush_stdout d)"

definition function_raw_flush_stderr :: "std \<Rightarrow> js \<times> std" where
  "function_raw_flush_stderr d = (JNull, d)"

text \<open>The console: each argument through a buffer of 1000 bytes.\<close>

fun console_pieces :: "(js \<Rightarrow> string) \<Rightarrow> bool \<Rightarrow> js list \<Rightarrow> string list" where
  "console_pieces to_str started [] = [[CHR 0x0A]]"
| "console_pieces to_str started (v # vs) =
     (if started then ['' ''] else []) @
     c_string (take 999 (to_string to_str v)) # console_pieces to_str True vs"

definition function_console_stdout :: "(js \<Rightarrow> string) \<Rightarrow> (string \<Rightarrow> nat) \<Rightarrow> js list \<Rightarrow> std \<Rightarrow> js \<times> std" where
  "function_console_stdout to_str auto args d =
     (JUndefined, fold (fputs_stdout auto) (console_pieces to_str False args) d)"

definition function_console_stderr :: "(js \<Rightarrow> string) \<Rightarrow> js list \<Rightarrow> std \<Rightarrow> js \<times> std" where
  "function_console_stderr to_str args d =
     (JUndefined, fold fputs_stderr (console_pieces to_str False args) d)"

section \<open>Reading\<close>

text \<open>A part of standard input: a byte from a terminal, else up to 1024.\<close>

definition function_raw_read_stdin :: "bool \<Rightarrow> std \<Rightarrow> js \<times> std" where
  "function_raw_read_stdin tty d =
     (let n = (if tty then 1 else 1024); buf = take n (si_rest d) in
      (if 0 < length buf then c_string_to_value (Some (c_string buf)) else JNull,
       d\<lparr>si_rest := drop n (si_rest d)\<rparr>))"

section \<open>A form that is interrupted\<close>

text \<open>
  The calls that a form makes, and the moments at which the user presses the key for the interrupt:
  with the handler set it runs, else the signal ends the process. An exception leaves the form;
  \<open>repl.c\<close> sets the handler before the evaluation and clears it afterwards.
\<close>

datatype native =
    Print_fn "js list" | Print_err_fn "js list"
  | Raw_write_stdout "js list" | Raw_write_stderr "js list" | Raw_flush_stdout | Raw_flush_stderr
  | Console_stdout "js list" | Console_stderr "js list"

datatype moment = Call native | Interrupt

fun native_call ::
  "js_lib \<Rightarrow> (js \<Rightarrow> string) \<Rightarrow> (string \<Rightarrow> nat) \<Rightarrow> interrupts \<Rightarrow> native \<Rightarrow> std \<Rightarrow> ((unit + js) \<times> std) option" where
  "native_call lib to_str auto i (Print_fn args) d = function_print_fn lib auto i args d"
| "native_call lib to_str auto i (Print_err_fn args) d = function_print_err_fn lib i args d"
| "native_call lib to_str auto i (Raw_write_stdout args) d =
     Some (apfst Inr (function_raw_write_stdout auto args d))"
| "native_call lib to_str auto i (Raw_write_stderr args) d =
     Some (apfst Inr (function_raw_write_stderr args d))"
| "native_call lib to_str auto i Raw_flush_stdout d = Some (apfst Inr (function_raw_flush_stdout d))"
| "native_call lib to_str auto i Raw_flush_stderr d = Some (apfst Inr (function_raw_flush_stderr d))"
| "native_call lib to_str auto i (Console_stdout args) d =
     Some (apfst Inr (function_console_stdout to_str auto args d))"
| "native_call lib to_str auto i (Console_stderr args) d =
     Some (apfst Inr (function_console_stderr to_str args d))"

datatype ending = Returned interrupts std | Raised interrupts std | Killed std | Undefined_behaviour

fun run_form ::
  "js_lib \<Rightarrow> (js \<Rightarrow> string) \<Rightarrow> (string \<Rightarrow> nat) \<Rightarrow> moment list \<Rightarrow> interrupts \<Rightarrow> std \<Rightarrow> ending" where
  "run_form lib to_str auto [] i d = Returned i d"
| "run_form lib to_str auto (Interrupt # ms) i d =
     (if handler_set i then run_form lib to_str auto ms (int_handler i) d else Killed d)"
| "run_form lib to_str auto (Call c # ms) i d =
     (case native_call lib to_str auto i c d of
        None \<Rightarrow> Undefined_behaviour
      | Some (Inl _, d') \<Rightarrow> Raised i d'
      | Some (Inr _, d') \<Rightarrow> run_form lib to_str auto ms i d')"

text \<open>Calls that look at no interrupt: they neither raise nor touch a NULL pointer.\<close>

fun plain :: "moment \<Rightarrow> bool" where
  "plain Interrupt = False"
| "plain (Call (Print_fn _)) = False"
| "plain (Call (Print_err_fn _)) = False"
| "plain (Call _) = True"

lemma plain_call:
  "plain (Call c) \<Longrightarrow> \<exists>v d'. native_call lib to_str auto i c d = Some (Inr v, d')"
  by (cases c) (simp_all add: apfst_def map_prod_def split: prod.split)

lemma plain_runs:
  "list_all plain ms \<Longrightarrow> \<exists>d'. run_form lib to_str auto ms i d = Returned i d'"
proof (induction ms arbitrary: d)
  case Nil
  then show ?case by simp
next
  case (Cons m ms)
  then obtain c where m: "m = Call c" by (cases m) auto
  obtain v d1 where "native_call lib to_str auto i c d = Some (Inr v, d1)"
    using plain_call [of c lib to_str auto i d] Cons.prems m by auto
  then show ?case using Cons m by simp
qed

lemma run_form_append:
  "run_form lib to_str auto ms i d = Returned i1 d1 \<Longrightarrow>
   run_form lib to_str auto (ms @ ms') i d = run_form lib to_str auto ms' i1 d1"
proof (induction lib to_str auto ms i d rule: run_form.induct)
  case (3 lib to_str auto c ms i d)
  then show ?case by (auto split: option.splits sum.splits prod.splits)
qed (auto split: if_splits)

lemma calls_keep_interrupts:
  "Interrupt \<notin> set ms \<Longrightarrow> run_form lib to_str auto ms i d = Returned i1 d1 \<Longrightarrow> i1 = i"
proof (induction lib to_str auto ms i d rule: run_form.induct)
  case (3 lib to_str auto c ms i d)
  then show ?case by (auto split: option.splits sum.splits prod.splits)
qed auto

text \<open>Output keeps its order: nothing is lost but what a killed process had not written.\<close>

lemma console_texts:
  "stdout_text (fold (fputs_stdout auto) ss d) = stdout_text d @ concat ss"
  "se_written (fold fputs_stderr ss d) = se_written d @ concat ss"
  by (induction ss arbitrary: d) simp_all

lemma print_fn_flushed:
  "function_print_fn lib auto i args d = Some (r, d') \<Longrightarrow> length args = 1 \<Longrightarrow> so_buffer d' = []"
  by (auto simp: function_print_fn_def length_Suc_conv split: if_splits option.splits)

section \<open>Properties\<close>

text \<open>
  C34. After the interrupt of a form, whose handler \<open>set_int_handler\<close> has set, what the form does
  with the raw functions and the console still happens; its next print through \<open>PLANCK_PRINT_FN\<close>
  raises null, which leaves the form: nothing of the rest is executed, the text of that print does
  not appear, and what was printed before is written out, followed by the reset of the colours. The
  state is ready for the next form after \<open>clear_int_handler\<close>. A second interrupt before that print
  ends the process.
\<close>

theorem interrupted_form_stops:
  assumes "Interrupt \<notin> set before"
    and "run_form lib to_str auto before (set_int_handler i) d = Returned i1 d1"
    and "list_all plain quietly"
  shows "\<exists>d2 d3.
    run_form lib to_str auto quietly (int_handler i1) d1 = Returned (int_handler i1) d2 \<and>
    run_form lib to_str auto (before @ Interrupt # quietly @ Call (Print_fn args) # rest) (set_int_handler i) d =
      Raised (int_handler i1) d3 \<and>
    so_written d3 = stdout_text d2 @ colors_off \<and> so_buffer d3 = [] \<and> se_written d3 = se_written d2 \<and>
    clear_int_handler (int_handler i1) = i1\<lparr>keep_running := True, handler_set := False\<rparr> \<and>
    run_form lib to_str auto (before @ Interrupt # quietly @ Interrupt # rest) (set_int_handler i) d = Killed d2"
proof -
  have handled: "handler_set i1"
    using calls_keep_interrupts [OF assms(1,2)] by (simp add: set_int_handler_def)
  obtain d2 where d2: "run_form lib to_str auto quietly (int_handler i1) d1 = Returned (int_handler i1) d2"
    using plain_runs [OF assms(3)] by blast
  let ?d3 = "fflush_stdout (fputs_stdout auto colors_off d2)"
  have "function_print_fn lib auto (int_handler i1) args d2 = Some (Inl (), ?d3)"
    by (simp add: function_print_fn_def should_keep_running_def int_handler_def)
  then have "run_form lib to_str auto (before @ Interrupt # quietly @ Call (Print_fn args) # rest) (set_int_handler i) d =
      Raised (int_handler i1) ?d3"
    using handled d2 by (simp add: run_form_append [OF assms(2)] run_form_append [OF d2])
  moreover have "run_form lib to_str auto (before @ Interrupt # quietly @ Interrupt # rest) (set_int_handler i) d = Killed d2"
    using handled by (simp add: run_form_append [OF assms(2)] run_form_append [OF d2]) (simp add: int_handler_def)
  moreover have "so_written ?d3 = stdout_text d2 @ colors_off"
    using stdout_text_simps(1) [of auto colors_off d2]
    by (simp add: stdout_text_def fflush_stdout_def)
  ultimately show ?thesis
    using d2 by (intro exI [of _ d2] exI [of _ ?d3]) (simp add: int_handler_def clear_int_handler_def)
qed

theorem interrupted_form_stops_witness:
  "\<exists>d. run_form \<lparr>jl_is_error = \<lambda>_. False, jl_stringify = \<lambda>_. JUndefined\<rparr> (\<lambda>_. []) (\<lambda>_. 0)
      ([Call (Print_fn [JStr ''a''])] @ Interrupt # [Call (Raw_write_stdout [JStr ''b''])] @
       Call (Print_fn [JStr ''c'']) # [Call (Print_fn [JStr ''d''])])
      (set_int_handler \<lparr>keep_running = True, handler_set = False\<rparr>)
      \<lparr>so_buffer = [], so_written = [], se_written = [], si_rest = []\<rparr> =
    Raised \<lparr>keep_running = False, handler_set = False\<rparr> d \<and>
    so_written d = ''ab'' @ colors_off"
proof -
  let ?lib = "\<lparr>jl_is_error = \<lambda>_. False, jl_stringify = \<lambda>_. JUndefined\<rparr>"
  let ?i = "\<lparr>keep_running = True, handler_set = False\<rparr>"
  let ?d = "\<lparr>so_buffer = [], so_written = [], se_written = [], si_rest = []\<rparr>"
  let ?d1 = "\<lparr>so_buffer = [], so_written = ''a'', se_written = [], si_rest = []\<rparr>"
  have 1: "run_form ?lib (\<lambda>_. []) (\<lambda>_. 0) [Call (Print_fn [JStr ''a''])] (set_int_handler ?i) ?d =
      Returned (set_int_handler ?i) ?d1"
    by code_simp
  have 2: "run_form ?lib (\<lambda>_. []) (\<lambda>_. 0) [Call (Raw_write_stdout [JStr ''b''])] (int_handler (set_int_handler ?i)) ?d1 =
      Returned (int_handler (set_int_handler ?i)) (?d1\<lparr>so_buffer := ''b''\<rparr>)"
    by code_simp
  show ?thesis
    using interrupted_form_stops [OF _ 1, of "[Call (Raw_write_stdout [JStr ''b''])]" "[JStr ''c'']"
        "[Call (Print_fn [JStr ''d''])]"] 2
    by (auto simp: int_handler_def set_int_handler_def stdout_text_def)
qed

end
