(* ===== verification/Bundle.thy ===== *)
theory Bundle
  imports Io
begin

text \<open>
  \<open>bundle_inflate.h\<close>, which unpacks a bundled file, and the empty bundle of \<open>bundle.c\<close>. zlib is a
  parameter: \<open>step\<close> is a call of \<open>inflate\<close> with the room there is, and gives the status, the bytes it
  has written and the new state of the stream. The loop is as long as \<open>inflate\<close> returns \<open>Z_OK\<close>;
  where it does not end the model is \<open>None\<close>. The inner \<open>None\<close> is a write outside \<open>dest\<close>.
\<close>

abbreviation Z_OK :: int where "Z_OK \<equiv> 0"
abbreviation Z_STREAM_END :: int where "Z_STREAM_END \<equiv> 1"
abbreviation Z_BUF_ERROR :: int where "Z_BUF_ERROR \<equiv> -5"

record 'z inflater =
  z_init :: "string \<Rightarrow> 'z option"   \<comment> \<open>\<open>inflateInit2\<close>, for the input\<close>
  z_step :: "'z \<Rightarrow> nat \<Rightarrow> int \<times> string \<times> 'z"
  z_end :: "'z \<Rightarrow> bool"

text \<open>The room left, as the unsigned subtraction of the sources.\<close>

definition avail_out :: "nat \<Rightarrow> nat \<Rightarrow> nat" where
  "avail_out len total_out = unat (of_nat len - of_nat total_out :: 32 word)"

partial_function (option) inflate_loop ::
  "('z \<Rightarrow> nat \<Rightarrow> int \<times> string \<times> 'z) \<Rightarrow> nat \<Rightarrow> rbuf \<Rightarrow> 'z \<Rightarrow> (bool \<times> rbuf \<times> 'z) option option" where
  "inflate_loop step len b z =
     (case step z (avail_out len (r_offset b)) of
        (status, out, z') \<Rightarrow>
          (case read_chunk b out of
             None \<Rightarrow> Some None
           | Some b' \<Rightarrow>
               if status = Z_STREAM_END then Some (Some (True, b', z'))
               else if status \<noteq> Z_OK then Some (Some (False, b', z'))
               else inflate_loop step len b' z'))"

definition bundle_inflate ::
  "'z inflater \<Rightarrow> char option list \<Rightarrow> string \<Rightarrow> nat \<Rightarrow> (int \<times> char option list) option option" where
  "bundle_inflate zl dest src len =
     (if src = [] then Some (Some (0, dest))
      else case z_init zl src of
        None \<Rightarrow> Some (Some (-1, dest))
      | Some z \<Rightarrow>
          map_option (map_option (\<lambda>(finished, b, z').
              (if \<not> z_end zl z' then -1 else if finished then 0 else -1, r_data b)))
            (inflate_loop (z_step zl) len \<lparr>r_data = dest, r_offset = 0\<rparr> z))"

text \<open>Without bundled sources: a warning, and no file.\<close>

definition bundle_get_contents :: "string \<Rightarrow> string option \<times> string" where
  "bundle_get_contents path =
     (None, ''WARN: no bundled sources, need to run script/bundle-c'' @ [CHR 0x0A])"

section \<open>Unpacking ends inside the buffer\<close>

text \<open>
  What zlib documents: a call writes no more than there is room for, and \<open>Z_OK\<close> means progress, of
  the output or of the input, of which \<open>left z\<close> is left.
\<close>

definition zlib_ok :: "('z \<Rightarrow> nat \<Rightarrow> int \<times> string \<times> 'z) \<Rightarrow> ('z \<Rightarrow> nat) \<Rightarrow> bool" where
  "zlib_ok step left \<longleftrightarrow> (\<forall>z n status out z'. step z n = (status, out, z') \<longrightarrow>
     length out \<le> n \<and> left z' \<le> left z \<and> (status = Z_OK \<longrightarrow> out \<noteq> [] \<or> left z' < left z))"

lemma avail_out_eq:
  assumes "total_out \<le> len" "len < 2 ^ 32"
  shows "avail_out len total_out = len - total_out"
proof -
  have "of_nat len - of_nat total_out = (of_nat (len - total_out) :: 32 word)"
    using assms(1) by simp
  then show ?thesis using assms(2) by (simp add: avail_out_def unsigned_of_nat take_bit_nat_eq_self)
qed

lemma inflate_loop_ends:
  assumes "zlib_ok step left" "len \<le> length (r_data b)" "r_offset b \<le> len" "len < 2 ^ 32"
  shows "\<exists>finished b' z'. inflate_loop step len b z = Some (Some (finished, b', z')) \<and>
    length (r_data b') = length (r_data b) \<and> drop len (r_data b') = drop len (r_data b)"
  using assms(2,3)
proof (induction "len - r_offset b + left z" arbitrary: b z rule: less_induct)
  case less
  obtain status out z' where s: "step z (avail_out len (r_offset b)) = (status, out, z')"
    by (metis prod_cases3)
  have facts: "length out \<le> len - r_offset b" "left z' \<le> left z"
      "status = Z_OK \<Longrightarrow> out \<noteq> [] \<or> left z' < left z"
    using assms(1) s avail_out_eq [OF less.prems(2) assms(4)] unfolding zlib_ok_def by metis+
  define b' where "b' = b\<lparr>r_data := take (r_offset b) (r_data b) @ map Some out @
      drop (r_offset b + length out) (r_data b), r_offset := r_offset b + length out\<rparr>"
  have fits: "r_offset b + length out \<le> len" using facts(1) less.prems(2) by linarith
  then have c: "read_chunk b out = Some b'" and kept: "length (r_data b') = length (r_data b)"
      "drop len (r_data b') = drop len (r_data b)" "r_offset b' \<le> len"
    using less.prems by (simp_all add: read_chunk_def b'_def)
  show ?case
  proof (cases "status = Z_OK")
    case True
    have "len - r_offset b' \<le> len - r_offset b" "out \<noteq> [] \<Longrightarrow> len - r_offset b' < len - r_offset b"
      using fits by (simp_all add: b'_def flip: length_greater_0_conv)
    then have "len - r_offset b' + left z' < len - r_offset b + left z"
      using facts(2) facts(3) [OF True] by linarith
    from less.hyps [OF this] kept less.prems
    obtain finished b'' z'' where "inflate_loop step len b' z' = Some (Some (finished, b'', z''))"
        "length (r_data b'') = length (r_data b)" "drop len (r_data b'') = drop len (r_data b)"
      by auto
    then show ?thesis using True by (simp add: inflate_loop.simps [of step len b] s c)
  next
    case False
    then have "inflate_loop step len b z = Some (Some (status = Z_STREAM_END, b', z'))"
      by (simp add: inflate_loop.simps [of step len b] s c)
    then show ?thesis using kept by blast
  qed
qed

text \<open>
  A bundled file unpacks into a buffer of its length: the call returns, and the byte that the caller
  has put behind the buffer is still there.
\<close>

lemma bundle_inflate_returns:
  assumes "zlib_ok (z_step zl) left" "len \<le> length dest" "len < 2 ^ 32"
  shows "\<exists>rv d. bundle_inflate zl dest src len = Some (Some (rv, d)) \<and> rv \<in> {0, -1} \<and>
    length d = length dest \<and> drop len d = drop len dest"
proof (cases "src = [] \<or> z_init zl src = None")
  case True
  then show ?thesis by (auto simp: bundle_inflate_def)
next
  case False
  then obtain z where "src \<noteq> []" "z_init zl src = Some z" by auto
  then obtain finished b' z' where "inflate_loop (z_step zl) len \<lparr>r_data = dest, r_offset = 0\<rparr> z =
      Some (Some (finished, b', z'))" "length (r_data b') = length dest" "drop len (r_data b') = drop len dest"
    using inflate_loop_ends [OF assms(1), of len "\<lparr>r_data = dest, r_offset = 0\<rparr>" z] assms(2,3) by auto
  then show ?thesis
    using \<open>src \<noteq> []\<close> \<open>z_init zl src = Some z\<close> by (cases finished; cases "z_end zl z'") (simp_all add: bundle_inflate_def)
qed

end
