(* ===== verification/Command_Line.thy ===== *)
theory Command_Line
  imports Main_Program Engine_Init
begin

text \<open>
  How the arguments of a script reach it: \<open>main\<close> and the thread that makes the engine both use the
  configuration. \<open>main\<close> takes the script off the arguments (\<open>main.c\<close>) and the other thread makes
  \<open>PLANCK_INITIAL_COMMAND_LINE_ARGS\<close> of them (\<open>engine.c\<close>), without any synchronisation; an evaluation
  waits until the engine is ready. The steps are those of a program that is started with a script.
\<close>

datatype mpc =
    Init_scripts "script list"   \<comment> \<open>to be evaluated\<close>
  | Main_action
  | Evaluating string
  | Over

record launch =
  la_config :: config
  la_pc :: mpc
  la_args :: "js option"   \<comment> \<open>the global variable\<close>
  la_ready :: bool
  la_seen :: "js option"   \<comment> \<open>what the script finds there\<close>

definition launched :: "config \<Rightarrow> launch" where
  "launched c = \<lparr>la_config = c, la_pc = Init_scripts (scripts c), la_args = None, la_ready = False, la_seen = None\<rparr>"

inductive launch_step :: "launch \<Rightarrow> launch \<Rightarrow> bool" where
  m_init: "la_pc s = Init_scripts (x # xs) \<Longrightarrow> la_ready s \<Longrightarrow>
    launch_step s (s\<lparr>la_pc := Init_scripts xs\<rparr>)"
| m_main: "la_pc s = Init_scripts [] \<Longrightarrow> launch_step s (s\<lparr>la_pc := Main_action\<rparr>)"
| m_take: "la_pc s = Main_action \<Longrightarrow> take_script (la_config s) = (path, c) \<Longrightarrow>
    launch_step s (s\<lparr>la_config := c, la_pc := Evaluating path\<rparr>)"
| m_evaluate: "la_pc s = Evaluating path \<Longrightarrow> la_ready s \<Longrightarrow>
    launch_step s (s\<lparr>la_pc := Over, la_seen := la_args s\<rparr>)"
| e_args: "la_args s = None \<Longrightarrow>
    launch_step s (s\<lparr>la_args := Some (initial_command_line_args (la_config s))\<rparr>)"
| e_ready: "la_args s \<noteq> None \<Longrightarrow> launch_step s (s\<lparr>la_ready := True\<rparr>)"

inductive launch_run :: "launch \<Rightarrow> launch \<Rightarrow> bool" where
  lr_refl: "launch_run s s"
| lr_step: "launch_run s s1 \<Longrightarrow> launch_step s1 s2 \<Longrightarrow> launch_run s s2"

text \<open>
  With an init script the engine is ready before the script is taken off: the arguments that the
  script finds start with its own path.
\<close>

definition waits_first :: "config \<Rightarrow> launch \<Rightarrow> bool" where
  "waits_first c s \<longleftrightarrow>
     (la_args s = None \<longrightarrow> la_config s = c \<and> (\<exists>x xs. la_pc s = Init_scripts (x # xs)) \<and> \<not> la_ready s) \<and>
     (\<forall>a. la_args s = Some a \<longrightarrow> a = initial_command_line_args c) \<and>
     (la_pc s = Over \<longrightarrow> la_seen s = Some (initial_command_line_args c))"

lemma waits_first_run:
  assumes "launch_run (launched c) s" "scripts c \<noteq> []"
  shows "waits_first c s"
  using assms(1)
proof (induction "launched c" s rule: launch_run.induct)
  case lr_refl
  obtain x xs where "scripts c = x # xs" using assms(2) by (cases "scripts c") auto
  then show ?case by (simp add: waits_first_def launched_def)
next
  case (lr_step s1 s2)
  from lr_step.hyps(3,2) show ?case
    by (induction rule: launch_step.induct) (auto simp: waits_first_def)
qed

lemma init_script_shifts_arguments:
  assumes "launch_run (launched c) s" "scripts c \<noteq> []" "rest_args c = path # args" "la_pc s = Over"
  shows "la_seen s = Some (JArr (map JStr (path # args)))"
  using waits_first_run [OF assms(1,2)] assms(3,4)
  by (simp add: waits_first_def initial_command_line_args_def)

text \<open>Without one, the order in which the threads come to the arguments decides.\<close>

lemma arguments_by_chance:
  assumes "scripts c = []" "rest_args c = path # args"
  shows "\<exists>s. launch_run (launched c) s \<and> la_pc s = Over \<and> la_seen s = Some (JArr (map JStr args))"
    and "\<exists>s. launch_run (launched c) s \<and> la_pc s = Over \<and> la_seen s = Some (JArr (map JStr (path # args)))"
proof -
  let ?s0 = "launched c" and ?c' = "c\<lparr>rest_args := args\<rparr>"
  have take: "take_script c = (path, ?c')" using assms(2) by (simp add: take_script_def)
  let ?s1 = "?s0\<lparr>la_pc := Main_action\<rparr>"
  let ?s2 = "?s1\<lparr>la_config := ?c', la_pc := Evaluating path\<rparr>"
  let ?a = "initial_command_line_args ?c'" and ?b = "initial_command_line_args c"
  have 1: "launch_run ?s0 ?s1"
    using assms(1) by (intro lr_step [OF lr_refl] m_main) (simp add: launched_def)
  have 2: "launch_run ?s0 (?s2\<lparr>la_args := Some ?a\<rparr>)"
    using lr_step [OF lr_step [OF 1 m_take [where path = path and c = ?c']] e_args] take by (simp add: launched_def)
  have "launch_run ?s0 (?s2\<lparr>la_args := Some ?a, la_ready := True, la_pc := Over, la_seen := Some ?a\<rparr>)"
    using lr_step [OF lr_step [OF 2 e_ready] m_evaluate [where path = path]] by (simp add: launched_def)
  then show "\<exists>s. launch_run (launched c) s \<and> la_pc s = Over \<and> la_seen s = Some (JArr (map JStr args))"
    by (intro exI conjI, assumption) (simp_all add: initial_command_line_args_def)
  have 3: "launch_run ?s0 (?s1\<lparr>la_args := Some ?b\<rparr>)"
    using lr_step [OF 1 e_args] by (simp add: launched_def)
  have 4: "launch_run ?s0 (?s1\<lparr>la_args := Some ?b, la_config := ?c', la_pc := Evaluating path\<rparr>)"
    using lr_step [OF 3 m_take [where path = path and c = ?c']] take by (simp add: launched_def)
  have "launch_run ?s0 (?s1\<lparr>la_args := Some ?b, la_config := ?c', la_ready := True, la_pc := Over, la_seen := Some ?b\<rparr>)"
    using lr_step [OF lr_step [OF 4 e_ready] m_evaluate [where path = path]] by (simp add: launched_def)
  then show "\<exists>s. launch_run (launched c) s \<and> la_pc s = Over \<and> la_seen s = Some (JArr (map JStr (path # args)))"
    by (intro exI conjI, assumption) (simp_all add: initial_command_line_args_def assms(2))
qed

end
