(* ===== verification/Goog_Require.thy ===== *)
theory Goog_Require
  imports Js
begin

text \<open>
  \<open>engine.c\<close>: the script of \<open>bootstrap\<close> that wraps \<open>goog.require\<close>, so that a library can be
  loaded again. The loader of the Closure library is a parameter: \<open>require0\<close> is the \<open>goog.require\<close>
  that was there before, which may load files, call the new one for what they need and throw.
  Objects with paths for keys are the sets of their keys. A path the loader does not know is
  \<open>undefined\<close>, which as a key, or behind the base path, is the text \<open>undefined\<close>.
\<close>

record debug_loader =
  path_from_deps :: "string \<Rightarrow> string"    \<comment> \<open>\<open>getPathFromDeps_\<close>, as a key\<close>
  loader_written :: "string set"

record goog =
  cljsReloadAll :: bool
  debugLoader :: "debug_loader option"
  nameToPath :: "string \<Rightarrow> string option"
  deps_visited :: "string set"
  deps_written :: "string set"
  basePath :: string

datatype outcome = Returned js | Thrown js

definition truthy :: "js \<Rightarrow> bool" where
  "truthy v =
     (case v of JUndefined \<Rightarrow> False | JNull \<Rightarrow> False | JBool b \<Rightarrow> b | JNum n \<Rightarrow> n \<noteq> 0 | JStr s \<Rightarrow> s \<noteq> []
      | JNullString \<Rightarrow> False | _ \<Rightarrow> True)"

definition key_text :: "string option \<Rightarrow> string" where
  "key_text p = (case p of None \<Rightarrow> ''undefined'' | Some path \<Rightarrow> path)"

text \<open>Forgetting that a library was loaded.\<close>

definition forget_library :: "string \<Rightarrow> goog \<Rightarrow> goog" where
  "forget_library src g =
     (case debugLoader g of
        Some dl \<Rightarrow>
          (let path = path_from_deps dl src in
           g\<lparr>debugLoader := Some (dl\<lparr>loader_written := loader_written dl - {path, basePath g @ path}\<rparr>)\<rparr>)
      | None \<Rightarrow>
          (let path = key_text (nameToPath g src) in
           g\<lparr>deps_visited := deps_visited g - {path, basePath g @ path},
             deps_written := deps_written g - {path}\<rparr>))"

definition goog_require ::
  "(string \<Rightarrow> goog \<Rightarrow> outcome \<times> goog) \<Rightarrow> (goog \<Rightarrow> bool) \<Rightarrow> (string \<Rightarrow> goog \<Rightarrow> outcome) \<Rightarrow>
   string \<Rightarrow> js \<Rightarrow> goog \<Rightarrow> outcome \<times> goog" where
  "goog_require require0 in_module_loader get_internal src reload g =
     (let g1 = (if reload = JStr ''reload-all'' then g\<lparr>cljsReloadAll := True\<rparr> else g);
          g2 = (if truthy reload \<or> cljsReloadAll g1 then forget_library src g1 else g1)
      in case require0 src g2 of
           (Thrown e, g3) \<Rightarrow> (Thrown e, g3)
         | (Returned ret, g3) \<Rightarrow>
             (let g4 = (if reload = JStr ''reload-all'' then g3\<lparr>cljsReloadAll := False\<rparr> else g3) in
              (if in_module_loader g4 then get_internal src g4 else Returned ret, g4)))"

section \<open>What it does\<close>

text \<open>The paths under which the loader may have noted a library.\<close>

definition library_paths :: "string \<Rightarrow> goog \<Rightarrow> string set" where
  "library_paths src g =
     (let path = (case debugLoader g of Some dl \<Rightarrow> path_from_deps dl src | None \<Rightarrow> key_text (nameToPath g src))
      in {path, basePath g @ path})"

definition written :: "goog \<Rightarrow> string set" where
  "written g = (case debugLoader g of Some dl \<Rightarrow> loader_written dl | None \<Rightarrow> deps_written g)"

lemma library_paths_flag [simp]: "library_paths src (g\<lparr>cljsReloadAll := b\<rparr>) = library_paths src g"
  by (cases "debugLoader g") (simp_all add: library_paths_def)

lemma written_flag [simp]: "written (g\<lparr>cljsReloadAll := b\<rparr>) = written g"
  by (cases "debugLoader g") (simp_all add: written_def)

lemma forget_library_flag [simp]: "cljsReloadAll (forget_library src g) = cljsReloadAll g"
  by (simp add: forget_library_def Let_def split: option.splits)

text \<open>
  With a debug loader both paths of the library are forgotten and nothing else; without one the
  path behind the base path stays among those written.
\<close>

lemma forget_library_debug:
  "debugLoader g \<noteq> None \<Longrightarrow>
   written (forget_library src g) = written g - library_paths src g"
  by (auto simp: forget_library_def written_def library_paths_def Let_def split: option.splits)

lemma forget_library_plain:
  assumes "debugLoader g = None"
  shows "deps_visited (forget_library src g) = deps_visited g - library_paths src g"
    and "written (forget_library src g) = written g - {key_text (nameToPath g src)}"
  using assms by (auto simp: forget_library_def written_def library_paths_def Let_def)

lemma forget_other_libraries:
  "path \<notin> library_paths src g \<Longrightarrow> path \<in> written (forget_library src g) \<longleftrightarrow> path \<in> written g"
  by (auto simp: forget_library_def written_def library_paths_def Let_def split: option.splits)

text \<open>What the loader is called with.\<close>

definition reload_state :: "string \<Rightarrow> js \<Rightarrow> goog \<Rightarrow> goog" where
  "reload_state src reload g =
     (if reload = JStr ''reload-all'' then forget_library src (g\<lparr>cljsReloadAll := True\<rparr>)
      else if truthy reload \<or> cljsReloadAll g then forget_library src g else g)"

lemma goog_require_loads:
  "goog_require require0 im gi src reload g =
     (case require0 src (reload_state src reload g) of
        (Thrown e, g') \<Rightarrow> (Thrown e, g')
      | (Returned ret, g') \<Rightarrow>
          (let g'' = (if reload = JStr ''reload-all'' then g'\<lparr>cljsReloadAll := False\<rparr> else g') in
           (if im g'' then gi src g'' else Returned ret, g'')))"
  by (simp add: goog_require_def reload_state_def truthy_def Let_def)

text \<open>While all is reloaded the flag is set for what the library requires; afterwards it is not.\<close>

lemma reload_all_sets: "cljsReloadAll (reload_state src (JStr ''reload-all'') g)"
  by (simp add: reload_state_def)

lemma reload_all_resets:
  assumes "require0 src (reload_state src (JStr ''reload-all'') g) = (Returned ret, g')"
  shows "\<not> cljsReloadAll (snd (goog_require require0 im gi src (JStr ''reload-all'') g))"
  using assms by (simp add: goog_require_loads Let_def)

text \<open>
  If the library throws, the flag stays: from then on a plain \<open>goog.require\<close>, too, forgets its
  library and loads it again.
\<close>

lemma reload_all_thrown:
  assumes "require0 src (reload_state src (JStr ''reload-all'') g) = (Thrown e, g')"
    and "cljsReloadAll g'"
  shows "goog_require require0 im gi src (JStr ''reload-all'') g = (Thrown e, g')"
    and "reload_state other JUndefined g' = forget_library other g'"
  using assms by (simp_all add: goog_require_loads reload_state_def)

text \<open>
  A library that is itself required with \<open>reload-all\<close> while all is reloaded ends the reloading:
  what comes after it is loaded only if it was not before.
\<close>

lemma nested_reload_all:
  assumes "require0 src (reload_state src (JStr ''reload-all'') g) = (Returned ret, g')"
  shows "reload_state other JUndefined (snd (goog_require require0 im gi src (JStr ''reload-all'') g)) =
    snd (goog_require require0 im gi src (JStr ''reload-all'') g)"
  using reload_all_resets [of require0 src g ret g' im gi, OF assms]
  by (simp add: reload_state_def truthy_def)

end
