(* ===== verification/Spec2Isabelle.thy ===== *)
theory Spec2Isabelle
  imports Line_Props Timers Io_Props Repl_Props Highlight Shell_Props Loading_Props
    Streams_Props Fs_Functions Main_Props Http_Props Session Socket_Sessions Std_Io Bundle Command_Line
    Goog_Require
begin

text \<open>
  Planck, a ClojureScript REPL: a verification of its C code, the files under \<open>src/planck-c\<close>. All
  sources named below are files of that directory.

  \<^bold>\<open>The program.\<close> \<open>main.c\<close> reads the command line into the configuration, starts a thread that makes
  the JavaScript engine (\<open>engine.c\<close>), evaluates the init scripts and then performs at most one main
  action: the main function of a namespace, a script, or the REPL (\<open>repl.c\<close>). Before it leaves with
  exit value 0 it waits until no task is outstanding (\<open>tasks.c\<close>). The REPL reads lines with the line
  editor (\<open>linenoise.c\<close>, whose keys \<open>keymap.c\<close> sets from a file in EDN, read by \<open>edn.c\<close>), or from a
  socket (\<open>sockets.c\<close>), collects them until the engine finds the text readable, and has it
  evaluated. Once ClojureScript runs it calls back into C: \<open>functions.c\<close> loads sources from the
  bundle, the class path and archives (\<open>archive.c\<close>, \<open>io.c\<close>), opens streams (\<open>file.c\<close>), writes to the
  standard streams, sets timers (\<open>timers.c\<close>), runs programs (\<open>shell.c\<close>) and makes requests
  (\<open>http.c\<close>). \<open>jsc_utils.c\<close> converts the values that cross the boundary. Threads run beside the main
  one: the thread that makes the engine, one per timer (restoring a highlighted bracket is a timer,
  too), one per shell call with a callback, one for each listening socket and one for each
  connection.

  \<^bold>\<open>Conventions.\<close> A C string is the list of its bytes without the NUL; an array that the code
  indexes is the list of its bytes, NUL included, and access to it goes through the checked
  operations of \<open>Planck_Prelude\<close>, whose result \<open>None\<close> is an access outside the array. So where a
  theorem says that a result is \<open>Some\<close> (or, for the runs of the line editor and of the REPL, not
  \<open>Crash\<close> or \<open>Bad\<close>), it says that memory is respected. Memory that is freed matters in \<open>repl.c\<close> and
  is modelled there by the set of the blocks alive: freeing a block and reading one need it alive.
  Machine words are words where wrap-around can happen (\<open>size_t\<close> subtraction, hashes, descriptors,
  the columns of the terminal), integers or naturals elsewhere, with the overflow of the \<open>int\<close> sizes
  in \<open>io.c\<close> and \<open>http.c\<close> written out. Allocation is taken to succeed. Names are those of the C code;
  a part of a long function that has a name of its own here is mapped to the lines it stands for.

  \<^bold>\<open>Theories and files.\<close>
  \<^item> \<open>Planck_Prelude\<close>: checked arrays, C strings, numerals, \<open>strtok\<close>. \<open>Growable\<close>: the interface of
    growing buffers as the locales \<open>growable\<close> and \<open>chunk_buffer\<close>, interpreted by the reader's string
    buffer, the array of paths and the block buffer of the shell.
  \<^item> \<open>Edn\<close> is \<open>edn.c\<close>: \<open>reader\<close> is \<open>clj_Reader\<close> with what is left of the file, \<open>read_form\<close> and
    \<open>delimited_loop\<close> its recursive readers, \<open>clj_read\<close> the entry. The locales \<open>reader_preorder\<close> and
    \<open>reader_frame\<close> carry what every reader keeps: the number of characters pending, the line, the
    nesting. \<open>Edn_Roundtrip\<close> has the printer that the reader inverts, \<open>Edn_Correct\<close> C1 to C5.
  \<^item> \<open>Str\<close> is \<open>str.c\<close>. \<open>Keymap\<close> is \<open>keymap.c\<close> with the key table of \<open>linenoise.c\<close> (C6, C7).
  \<^item> \<open>History\<close>: the history of \<open>linenoise.c\<close>, a \<open>bounded_log\<close> (C9, C10).
  \<^item> \<open>Line_State\<close>, \<open>Line_Ops\<close>, \<open>Line_Edit\<close>, \<open>Line_Raw\<close>: \<open>linenoise.c\<close>. The record \<open>ed\<close> is \<open>struct
    linenoiseState\<close> with the terminal, the keys, the history and the bytes still to come;
    refreshing, one definition per editing operation, completion, search, escape sequences,
    \<open>linenoiseEdit\<close>; raw mode, collecting pasted lines, \<open>linenoise\<close>, settings. \<open>Line_Edits\<close>
    interprets the contract \<open>line_op\<close> for every operation; \<open>Line_Safe\<close> and \<open>Line_Run\<close> carry the
    invariant through the loop; \<open>Line_Props\<close> and \<open>Line_Raw_Props\<close> have C11 to C16 and C26.
  \<^item> \<open>Tasks\<close> is \<open>tasks.c\<close> and \<open>Timers\<close> is \<open>timers.c\<close> with the timeouts \<open>engine.c\<close> keeps in JavaScript
    (C17 to C20).
  \<^item> \<open>Io\<close> is \<open>io.c\<close> over a file system, a map from paths to nodes; \<open>Io_Props\<close> has C21 to C25.
  \<^item> \<open>Repl\<close> and \<open>Repl_Loop\<close> are \<open>repl.c\<close>: the record \<open>repl\<close> is \<open>repl_t\<close>, \<open>world\<close> the engine, the
    memory, the history, the lock and what was printed. \<open>Repl_Ends\<close> shows that the loops end,
    \<open>Repl_Props\<close> has C27 to C30, \<open>Highlight\<close> the highlighting of brackets (C31), \<open>Session\<close> where
    REPL, editor, engine and sockets meet (C8), \<open>Socket_Sessions\<close> the sessions as threads (C32).
  \<^item> \<open>Shell\<close> is \<open>shell.c\<close>; \<open>Shell_Props\<close> has C33.
  \<^item> \<open>Js\<close> is \<open>jsc_utils.c\<close>, \<open>Archive\<close> is \<open>archive.c\<close> with the configuration of \<open>globals.h\<close>.
  \<^item> \<open>Loading\<close>, \<open>Streams\<close>, \<open>Fs_Functions\<close>, \<open>Std_Io\<close>: \<open>functions.c\<close>, the second with \<open>file.c\<close>;
    \<open>Loading_Props\<close> has C35 and C36, \<open>Streams_Props\<close> C38, \<open>Std_Io\<close> C34.
  \<^item> \<open>Theme\<close> is \<open>theme.c\<close>, \<open>Main_Program\<close> is \<open>main.c\<close>; \<open>Main_Props\<close> has C39. \<open>Command_Line\<close> is the
    race of the main thread and the engine for the arguments of a script.
  \<^item> \<open>Engine\<close> and \<open>Engine_Init\<close> are \<open>engine.c\<close>, the second with \<open>clock.c\<close> (C37); \<open>Goog_Require\<close> is
    the script in \<open>engine.c\<close> that makes libraries load again.
  \<^item> \<open>Http\<close> is \<open>http.c\<close>, and \<open>Http_Props\<close> has C40; \<open>Sockets\<close> is \<open>sockets.c\<close> with the functions of
    \<open>functions.c\<close> over it; \<open>Bundle\<close> is \<open>bundle_inflate.h\<close> and \<open>bundle.c\<close>.

  \<^bold>\<open>What is shown.\<close> Returning and staying inside memory: C1, C6, C12, C13, C15, C21, C28, C40. What
  comes out: a printed form is read back (C4), a keymap binds its keys (C7), a history, a file and a
  stream give back what was stored (C9, C22, C38), directories and copies are made (C23, C24), a
  shell call returns the output up to the first NUL (C33), the first source on the search path is
  loaded (C35) and each script at the first request (C36), a form is evaluated once (C8, C27), the
  engine starts with every function bound that is used (C37), the program performs its actions in
  their order (C39). Refinement: the line editor implements an editor on a pair of strings (C11),
  the collected lines are the lines joined (C15). Invariants under interleaving: the count of tasks
  and its condition variable (C17, C18), the timers and the count (C19), the restoring of the
  terminal (C26), sessions and their lock (C30), interrupts (C34); the history within its bound
  (C10). And what the code does where it goes wrong: C5, C14, C16, C20 for negative delays, C21 from
  1 GiB on, C25, C29, C32, with further such cases as lemmas of the theories.

  \<^bold>\<open>Termination and fuel.\<close> Loops over an array or over what is left of the input are recursive
  functions with a measure. \<open>read_form\<close> takes fuel for the depth of its recursion; \<open>read_fuel\<close>,
  computed from the pending characters, is enough (C1: running out is no result of \<open>clj_read\<close>). The
  loop of \<open>load_keymap\<close> has fuel from the length of the file (C6: it never spins). \<open>linenoiseEdit\<close>
  takes fuel for the characters it handles; the bytes of the input and three more are enough where
  the search key is not pressed (C13), and no fuel is enough for a search that meets the end of its
  input (C14). \<open>process_forms\<close> has fuel for the forms of one text, with the result \<open>Endless\<close> where
  it runs out; for an engine that leaves over less than it was given, or only blanks, the bytes of
  the text are enough, and for the whole loop the bytes of its lines and one more for each
  (\<open>Repl_Ends\<close>, C28, C30). The loops of \<open>refreshSingleLine\<close> are \<open>while_option\<close>, \<open>inflate_loop\<close> is a
  \<open>partial_function\<close>, shown to return for a library that makes progress. The poll loop of the shell
  runs over the list of the results of \<open>poll\<close>. Threads are inductive step relations; what holds in
  every order of their steps is shown by rule induction.

  \<^bold>\<open>Parameters.\<close> What is no code of this directory is an argument: the file system's failures and
  the results of system calls (as values or lists of results), the child of a shell call, the zip
  library, zlib, ICU, libcurl, \<open>getopt_long\<close>, JavaScriptCore, the Closure library, and the functions
  of the ClojureScript side. What a theorem needs of them it states as hypotheses: for the engine
  that the text left over is shorter than the text given, or blank, for \<open>nanosleep\<close> that it sleeps
  what it is told when it is told a valid time, for the child that its output comes in parts.

  \<^bold>\<open>Not modelled.\<close> Failing allocation. Freeing memory at exit (\<open>freeHistory\<close>, \<open>freeCompletions\<close>) and
  elsewhere, except in \<open>repl.c\<close>. The texts of the licences (\<open>legal.c\<close>) and of \<open>usage\<close> and its errors
  in \<open>main.c\<close>; ignoring SIGPIPE. Numbers of JavaScript that are no integers, and with them the
  result of \<open>function_high_res_timer\<close> and the format of the launch timings. The branch of
  \<open>copy_file\<close> for clones on macOS, the sleep before a prompt, and \<open>HTTP_TEST\<close>; the flag
  \<open>JAVASCRIPT_CORE_3\<close> of \<open>main.c\<close> is modelled, as a field of \<open>main_env\<close>. The line number of the EDN
  reader and the counter of sessions are unbounded. The JavaScript of the timers is modelled as a
  store of callbacks; the other scripts that \<open>engine.c\<close> evaluates, the wrapper of \<open>goog.require\<close>
  apart, stand for themselves as texts. The file \<open>bundle.c\<close> with the compiled ClojureScript is
  generated, and the one of the repository, which is empty, is modelled. The ClojureScript side
  itself is not C code.
\<close>

end
